(* ===== verification/Prelude.thy ===== *)
theory Prelude
  imports Main "HOL-Library.Word" "HOL-Library.Sublist" "HOL-Library.Char_ord" "HOL-Library.List_Lexorder"
begin

text \<open>
  Shared vocabulary of the development: the names of the model's basic types, Go's
  \<open>error\<close> values as a datatype, the collections of rewrite rules the component theories
  fill, and the two interfaces several components provide, a codec (an encoder with the
  decoder that undoes it) and a state machine with an inductive invariant.

  A Go \<open>string\<close> and a Go \<open>[]byte\<close> are both sequences of bytes, and HOL's \<^typ>\<open>char\<close> is
  a byte, so both are \<^typ>\<open>string\<close> here. A Go map is a partial function. Where a Go loop
  ranges over a map, the iteration order is unspecified by the language; the model of such
  a loop takes the enumeration of the keys from its environment, and the theorems hold for
  every enumeration.
\<close>

subsection \<open>Types\<close>

type_synonym bytes = string
type_synonym uint64 = "64 word"
type_synonym uint32 = "32 word"
type_synonym time = int          \<comment> \<open>nanoseconds; \<open>time.Time\<close> and \<open>time.Duration\<close>\<close>
type_synonym 'v strmap = "string \<Rightarrow> 'v option"
type_synonym rangeorder = "string set \<Rightarrow> string list"

abbreviation second :: time where
  "second \<equiv> 1000000000"

text \<open>
  \<open>fmt.Errorf\<close> without a wrapped error is \<open>Errorf\<close>; with a \<open>%w\<close> verb it is \<open>Wrap\<close>, which
  keeps the wrapped error for \<open>errors.Is\<close>. The sentinels are those the source compares
  against or returns; \<open>Panic\<close> is a run-time panic of the Go program, an outcome of its own.
\<close>

datatype err =
    ErrNotExist | ErrExist | ErrInvalid | ErrClosed
  | EOF | ErrUnexpectedEOF
  | Errorf string
  | Wrap string err
  | Panic string

fun errors_Is :: "err \<Rightarrow> err \<Rightarrow> bool" where
  "errors_Is (Wrap m e) t = (Wrap m e = t \<or> errors_Is e t)"
| "errors_Is e t = (e = t)"

type_synonym 'a result = "err + 'a"

text \<open>Go's \<open>if err != nil { return err }\<close> between two fallible calls.\<close>

fun res_bind :: "'a result \<Rightarrow> ('a \<Rightarrow> 'b result) \<Rightarrow> 'b result" where
  "res_bind (Inl e) f = Inl e"
| "res_bind (Inr x) f = f x"

fun is_ok :: "'a result \<Rightarrow> bool" where
  "is_ok (Inl e) = False"
| "is_ok (Inr x) = True"

text \<open>The enumerations a Go \<open>range\<close> over a map may take: every key, once, in some order.\<close>

definition range_ok :: "rangeorder \<Rightarrow> bool" where
  "range_ok rng \<longleftrightarrow> (\<forall>A. finite A \<longrightarrow> set (rng A) = A \<and> distinct (rng A))"

subsection \<open>Rule collections\<close>

named_theorems go_simps \<open>evaluation rules of the modelled standard library\<close>
named_theorems inv_intros \<open>invariant preservation, one rule per operation\<close>
named_theorems frame_simps \<open>what an operation leaves unchanged\<close>

subsection \<open>Lists, options and maps\<close>

lemma res_bind_Inr [simp]: "res_bind r f = Inr y \<longleftrightarrow> (\<exists>x. r = Inr x \<and> f x = Inr y)"
  by (cases r) auto

lemma is_ok_iff: "is_ok r \<longleftrightarrow> (\<exists>x. r = Inr x)"
  by (cases r) auto

lemma range_okD:
  assumes "range_ok rng" and "finite A"
  shows "set (rng A) = A" and "distinct (rng A)"
  using assms by (auto simp: range_ok_def)

text \<open>Enumeration in increasing order, one such iteration order.\<close>

definition sorted_range :: rangeorder where
  "sorted_range = sorted_list_of_set"

lemma sorted_range_ok [simp]: "range_ok sorted_range"
  by (simp add: range_ok_def sorted_range_def)

lemma removeAll_eq_filter: "removeAll x xs = filter (\<lambda>y. y \<noteq> x) xs"
  by (induction xs) auto

lemma sum_list_map_removeAll:
  fixes f :: "'a \<Rightarrow> int"
  assumes "distinct xs" and "x \<in> set xs"
  shows "sum_list (map f (removeAll x xs)) = sum_list (map f xs) - f x"
  using assms by (induction xs) (auto simp: removeAll_id)

lemma length_removeAll_distinct:
  assumes "distinct xs" and "x \<in> set xs"
  shows "length (removeAll x xs) = length xs - 1"
  using assms by (simp add: distinct_remove1_removeAll [symmetric] length_remove1)

lemma sum_list_nonneg_map:
  fixes f :: "'a \<Rightarrow> int"
  assumes "\<And>x. x \<in> set xs \<Longrightarrow> 0 \<le> f x"
  shows "0 \<le> sum_list (map f xs)"
  using assms by (induction xs) auto

lemma map_le_None [simp]: "m(k := None) = m" if "m k = None"
  using that by auto

lemma dom_fun_upd_None [simp]: "dom (m(k := None)) = dom m - {k}"
  by (auto simp: dom_def)

lemma nat_int_Suc [simp]: "nat (int n + 1) = Suc n"
  by simp

lemma take_drop_append: "take n (drop m xs) @ take k (drop (m + n) xs) = take (n + k) (drop m xs)"
  by (simp only: take_add drop_drop add.commute [of m n])

subsection \<open>Durations\<close>

text \<open>\<open>time.Time.Sub\<close>, which saturates at the bounds of an \<open>int64\<close>; \<open>time.Since\<close> is \<open>Sub\<close> from now.\<close>

definition time_Sub :: "time \<Rightarrow> time \<Rightarrow> time" where
  "time_Sub t u = max (- (2 ^ 63)) (min (2 ^ 63 - 1) (t - u))"

abbreviation time_Since :: "time \<Rightarrow> time \<Rightarrow> time" where
  "time_Since now t \<equiv> time_Sub now t"

lemma time_Sub_mono: "t \<le> t' \<Longrightarrow> time_Sub t u \<le> time_Sub t' u"
  by (auto simp: time_Sub_def)

lemma time_Sub_le: "t - u \<le> d \<Longrightarrow> 0 \<le> d \<Longrightarrow> time_Sub t u \<le> d"
  by (auto simp: time_Sub_def)

lemma time_Sub_leD: "time_Sub t u \<le> d \<Longrightarrow> d < 2 ^ 63 - 1 \<Longrightarrow> t - u \<le> d"
  by (auto simp: time_Sub_def min_def max_def split: if_splits)

lemma time_Sub_bounds: "u \<le> t \<Longrightarrow> 0 \<le> time_Sub t u \<and> time_Sub t u \<le> t - u"
  by (simp add: time_Sub_def)

subsection \<open>Codecs\<close>

text \<open>
  An encoder with a partial decoder that undoes it on a domain of well-formed values. The
  store below the handle table, the file handles, the extended attributes and the mode bits
  all go through one.
\<close>

locale codec =
  fixes enc :: "'a \<Rightarrow> 'b" and dec :: "'b \<Rightarrow> 'a option" and ok :: "'a \<Rightarrow> bool"
  assumes dec_enc: "ok x \<Longrightarrow> dec (enc x) = Some x"
begin

lemma enc_inj: "ok x \<Longrightarrow> ok y \<Longrightarrow> enc x = enc y \<longleftrightarrow> x = y"
  by (metis dec_enc option.inject)

lemma inj_on_enc: "inj_on enc {x. ok x}"
  by (auto simp: inj_on_def enc_inj)

lemma upd_enc:
  assumes "ok x" and "ok y"
  shows "(m(enc x := v)) (enc y) = (if y = x then v else m (enc y))"
  using assms by (simp add: enc_inj)

end

subsection \<open>State machines\<close>

text \<open>
  A deterministic machine over a type of operations: \<open>run\<close> executes a sequence of them. An
  invariant established at the start and kept by every operation holds after any sequence.
\<close>

locale machine =
  fixes step :: "'op \<Rightarrow> 's \<Rightarrow> 's" and inv :: "'s \<Rightarrow> bool" and pre :: "'op \<Rightarrow> bool"
  assumes step_inv: "inv s \<Longrightarrow> pre x \<Longrightarrow> inv (step x s)"
begin

lemma fold_inv: "inv s \<Longrightarrow> list_all pre xs \<Longrightarrow> inv (fold step xs s)"
  by (induction xs arbitrary: s) (auto simp: step_inv)

end

text \<open>The answers a machine gives to a sequence of operations, and the state it ends in.\<close>

fun run_ops :: "('op \<Rightarrow> 's \<Rightarrow> 'out \<times> 's) \<Rightarrow> 'op list \<Rightarrow> 's \<Rightarrow> 'out list \<times> 's" where
  "run_ops step [] s = ([], s)"
| "run_ops step (x # xs) s = (let (y, s1) = step x s; (ys, s2) = run_ops step xs s1 in (y # ys, s2))"

lemma run_ops_append:
  "run_ops step (xs @ ys) s =
     (let (as, s1) = run_ops step xs s; (bs, s2) = run_ops step ys s1 in (as @ bs, s2))"
  by (induction xs arbitrary: s) (simp_all add: Let_def split: prod.split)

end
