(* ===== verification/HandleStore.thy ===== *)
theory HandleStore
  imports Prelude "HOL-Library.List_Lexorder" "HOL-Library.Char_ord"
begin

unbundle bit_operations_syntax

text \<open>
  The handle store of \<^verbatim>\<open>internal/s3fs/handle.go\<close>: the bidirectional mapping between S3 keys
  and inode numbers, kept in two in-memory maps and persisted in a bbolt database, and the
  8-byte NFS handles that carry an inode number.

  The bbolt package is not part of the repository. It is a parameter of the model, a record
  of the operations the store calls (\<open>bolt\<close>), and what the store relies on is the predicate
  \<open>bolt_ok\<close>: transactions are all or nothing, \<open>Put\<close> and \<open>Delete\<close> change one entry of one
  bucket, \<open>ForEach\<close> visits the entries of a bucket. The database itself is an opaque value
  of type \<open>'db\<close>. Every operation may fail, at any time.
\<close>

subsection \<open>The bbolt interface\<close>

record 'db bolt =
  bolt_update :: "'db \<Rightarrow> ('db \<Rightarrow> 'db result) \<Rightarrow> err option \<times> 'db"
  bolt_create :: "'db \<Rightarrow> bytes \<Rightarrow> 'db result"
  bolt_get :: "'db \<Rightarrow> bytes \<Rightarrow> bytes \<Rightarrow> bytes option"
  bolt_put :: "'db \<Rightarrow> bytes \<Rightarrow> bytes \<Rightarrow> bytes \<Rightarrow> 'db result"
  bolt_delete :: "'db \<Rightarrow> bytes \<Rightarrow> bytes \<Rightarrow> 'db result"
  bolt_foreach :: "'db \<Rightarrow> bytes \<Rightarrow> (bytes \<times> bytes) list"

definition bolt_ok :: "'db bolt \<Rightarrow> bool" where
  "bolt_ok B \<longleftrightarrow>
     (\<forall>db f e db'. bolt_update B db f = (e, db') \<longrightarrow>
        (if e = None then f db = Inr db' else db' = db)) \<and>
     (\<forall>db b db'. bolt_create B db b = Inr db' \<longrightarrow> bolt_get B db' = bolt_get B db) \<and>
     (\<forall>db b k v db'. bolt_put B db b k v = Inr db' \<longrightarrow>
        bolt_get B db' = (bolt_get B db)(b := (bolt_get B db b)(k := Some v))) \<and>
     (\<forall>db b k db'. bolt_delete B db b k = Inr db' \<longrightarrow>
        bolt_get B db' = (bolt_get B db)(b := (bolt_get B db b)(k := None))) \<and>
     (\<forall>db b. distinct (map fst (bolt_foreach B db b)) \<and>
        map_of (bolt_foreach B db b) = bolt_get B db b)"

subsection \<open>Encodings\<close>

definition bucketInodes :: bytes where "bucketInodes = ''inodes''"
definition bucketKeys :: bytes where "bucketKeys = ''keys''"
definition bucketMeta :: bytes where "bucketMeta = ''meta''"
definition keyNextInode :: bytes where "keyNextInode = ''next_inode''"

definition rootInode :: uint64 where "rootInode = 1"

text \<open>\<open>binary.BigEndian.PutUint64\<close>: the most significant byte first.\<close>

definition byte_at :: "uint64 \<Rightarrow> nat \<Rightarrow> char" where
  "byte_at v i = char_of (unat (drop_bit (8 * i) v))"

definition uint64ToBytes :: "uint64 \<Rightarrow> bytes" where
  "uint64ToBytes v = map (byte_at v) [7, 6, 5, 4, 3, 2, 1, 0]"

text \<open>\<open>binary.BigEndian.Uint64\<close>: reads the first eight bytes and panics on a shorter slice.\<close>

definition byte_word :: "char \<Rightarrow> uint64" where
  "byte_word c = of_nat (of_char c)"

definition BigEndian_Uint64 :: "bytes \<Rightarrow> uint64 option" where
  "BigEndian_Uint64 b =
     (if length b < 8 then None
      else Some (byte_word (b ! 7) OR push_bit 8 (byte_word (b ! 6))
        OR push_bit 16 (byte_word (b ! 5)) OR push_bit 24 (byte_word (b ! 4))
        OR push_bit 32 (byte_word (b ! 3)) OR push_bit 40 (byte_word (b ! 2))
        OR push_bit 48 (byte_word (b ! 1)) OR push_bit 56 (byte_word (b ! 0))))"

definition InodeToHandle :: "uint64 \<Rightarrow> bytes" where
  "InodeToHandle inode = uint64ToBytes inode"

definition HandleToInode :: "bytes \<Rightarrow> uint64 result" where
  "HandleToInode handle =
     (if length handle < 8 then Inl (Errorf ''invalid handle length'')
      else case BigEndian_Uint64 (take 8 handle) of
        None \<Rightarrow> Inl (Panic ''index out of range'')
      | Some inode \<Rightarrow> Inr inode)"

definition RootHandle :: bytes where
  "RootHandle = uint64ToBytes rootInode"

definition nul_key :: bytes where
  "nul_key = [CHR 0x00]"

definition s3KeyToBolt :: "string \<Rightarrow> bytes" where
  "s3KeyToBolt s3Key = (if s3Key = [] then nul_key else s3Key)"

definition boltToS3Key :: "bytes \<Rightarrow> string" where
  "boltToS3Key b = (if length b = 1 \<and> b ! 0 = CHR 0x00 then [] else b)"

subsection \<open>The store\<close>

record 'db HandleStore =
  hs_db :: 'db
  hs_nextInode :: uint64
  hs_inodeToKey :: "uint64 \<Rightarrow> string option"
  hs_keyToInode :: "string \<Rightarrow> uint64 option"

text \<open>The buckets and the root entry, inside the transaction of \<open>init\<close>.\<close>

definition init_tx :: "'db bolt \<Rightarrow> 'db \<Rightarrow> 'db result" where
  "init_tx B tx =
     res_bind (bolt_create B tx bucketInodes) (\<lambda>tx.
     res_bind (bolt_create B tx bucketKeys) (\<lambda>tx.
     res_bind (bolt_create B tx bucketMeta) (\<lambda>tx.
       if bolt_get B tx bucketInodes (uint64ToBytes rootInode) = None then
         res_bind (bolt_put B tx bucketInodes (uint64ToBytes rootInode) nul_key) (\<lambda>tx.
         bolt_put B tx bucketKeys nul_key (uint64ToBytes rootInode))
       else Inr tx)))"

text \<open>The \<open>ForEach\<close> callback of \<open>init\<close>, over the entries of the inode bucket in order.\<close>

fun load_entries :: "(bytes \<times> bytes) list \<Rightarrow> 'db HandleStore \<Rightarrow> 'db HandleStore result" where
  "load_entries [] s = Inr s"
| "load_entries ((k, v) # es) s =
     (case BigEndian_Uint64 k of
        None \<Rightarrow> Inl (Panic ''index out of range'')
      | Some inode \<Rightarrow>
          let key = boltToS3Key v
          in load_entries es
               (s\<lparr>hs_inodeToKey := (hs_inodeToKey s)(inode \<mapsto> key),
                  hs_keyToInode := (hs_keyToInode s)(key \<mapsto> inode)\<rparr>))"

text \<open>
  \<open>init\<close> runs in one transaction: it creates the buckets and the root entry, then reads the
  counter and the entries. What it reads after its last write is what it commits.
\<close>

definition hs_init :: "'db bolt \<Rightarrow> 'db HandleStore \<Rightarrow> 'db HandleStore result" where
  "hs_init B s =
     (case bolt_update B (hs_db s) (init_tx B) of
        (Some e, db) \<Rightarrow> Inl e
      | (None, db) \<Rightarrow>
          (case bolt_get B db bucketMeta keyNextInode of
             None \<Rightarrow> load_entries (bolt_foreach B db bucketInodes)
                       (s\<lparr>hs_db := db, hs_nextInode := rootInode + 1\<rparr>)
           | Some v \<Rightarrow>
               (case BigEndian_Uint64 v of
                  None \<Rightarrow> Inl (Panic ''index out of range'')
                | Some n \<Rightarrow> load_entries (bolt_foreach B db bucketInodes)
                             (s\<lparr>hs_db := db, hs_nextInode := n\<rparr>))))"

text \<open>\<open>NewHandleStore\<close>, given what \<open>bolt.Open\<close> returned.\<close>

definition NewHandleStore :: "'db bolt \<Rightarrow> 'db result \<Rightarrow> 'db HandleStore result" where
  "NewHandleStore B opened =
     (case opened of
        Inl e \<Rightarrow> Inl (Wrap ''open bbolt'' e)
      | Inr db \<Rightarrow>
          hs_init B \<lparr>hs_db = db, hs_nextInode = 0, hs_inodeToKey = Map.empty,
                     hs_keyToInode = Map.empty\<rparr>)"

text \<open>
  \<open>GetOrCreateInode\<close> looks the key up under the read lock and, if it is missing, takes the
  write lock and looks again; \<open>getOrCreateLocked\<close> is the part under the write lock.
\<close>

definition persist_inode :: "'db bolt \<Rightarrow> uint64 \<Rightarrow> string \<Rightarrow> uint64 \<Rightarrow> 'db \<Rightarrow> 'db result" where
  "persist_inode B inode s3Key next tx =
     res_bind (bolt_put B tx bucketInodes (uint64ToBytes inode) (s3KeyToBolt s3Key)) (\<lambda>tx.
     res_bind (bolt_put B tx bucketKeys (s3KeyToBolt s3Key) (uint64ToBytes inode)) (\<lambda>tx.
     bolt_put B tx bucketMeta keyNextInode (uint64ToBytes next)))"

definition getOrCreateLocked ::
    "'db bolt \<Rightarrow> 'db HandleStore \<Rightarrow> string \<Rightarrow> uint64 result \<times> 'db HandleStore" where
  "getOrCreateLocked B s s3Key =
     (case hs_keyToInode s s3Key of
        Some inode \<Rightarrow> (Inr inode, s)
      | None \<Rightarrow>
          if hs_nextInode s = 0
          then (Inl (Errorf ''inode counter overflow: maximum inodes reached''), s)
          else
            let inode = hs_nextInode s;
                next = inode + 1
            in case bolt_update B (hs_db s) (persist_inode B inode s3Key next) of
                 (Some e, db) \<Rightarrow>
                   (Inl (Wrap ''persist inode'' e), s\<lparr>hs_db := db, hs_nextInode := next\<rparr>)
               | (None, db) \<Rightarrow>
                   (Inr inode,
                    s\<lparr>hs_db := db, hs_nextInode := next,
                      hs_inodeToKey := (hs_inodeToKey s)(inode \<mapsto> s3Key),
                      hs_keyToInode := (hs_keyToInode s)(s3Key \<mapsto> inode)\<rparr>))"

definition GetOrCreateInode ::
    "'db bolt \<Rightarrow> 'db HandleStore \<Rightarrow> string \<Rightarrow> uint64 result \<times> 'db HandleStore" where
  "GetOrCreateInode B s s3Key =
     (case hs_keyToInode s s3Key of
        Some inode \<Rightarrow> (Inr inode, s)
      | None \<Rightarrow> getOrCreateLocked B s s3Key)"

definition GetInode :: "'db HandleStore \<Rightarrow> string \<Rightarrow> uint64" where
  "GetInode s s3Key = (case hs_keyToInode s s3Key of None \<Rightarrow> 0 | Some i \<Rightarrow> i)"

definition GetKey :: "'db HandleStore \<Rightarrow> uint64 \<Rightarrow> string option" where
  "GetKey s inode = hs_inodeToKey s inode"

definition RemoveByKey ::
    "'db bolt \<Rightarrow> 'db HandleStore \<Rightarrow> string \<Rightarrow> unit result \<times> 'db HandleStore" where
  "RemoveByKey B s s3Key =
     (case hs_keyToInode s s3Key of
        None \<Rightarrow> (Inr (), s)
      | Some inode \<Rightarrow>
          (case bolt_update B (hs_db s)
                  (\<lambda>tx. res_bind (bolt_delete B tx bucketInodes (uint64ToBytes inode)) (\<lambda>tx.
                        bolt_delete B tx bucketKeys (s3KeyToBolt s3Key))) of
             (Some e, db) \<Rightarrow> (Inl (Wrap ''remove inode'' e), s\<lparr>hs_db := db\<rparr>)
           | (None, db) \<Rightarrow>
               (Inr (), s\<lparr>hs_db := db,
                          hs_inodeToKey := (hs_inodeToKey s)(inode := None),
                          hs_keyToInode := (hs_keyToInode s)(s3Key := None)\<rparr>)))"

definition RenameKey ::
    "'db bolt \<Rightarrow> 'db HandleStore \<Rightarrow> string \<Rightarrow> string \<Rightarrow> unit result \<times> 'db HandleStore" where
  "RenameKey B s oldKey newKey =
     (case hs_keyToInode s oldKey of
        None \<Rightarrow> (Inl ErrNotExist, s)
      | Some inode \<Rightarrow>
          (case bolt_update B (hs_db s)
                  (\<lambda>tx. res_bind (bolt_delete B tx bucketKeys (s3KeyToBolt oldKey)) (\<lambda>tx.
                        res_bind (bolt_put B tx bucketKeys (s3KeyToBolt newKey)
                                    (uint64ToBytes inode)) (\<lambda>tx.
                        bolt_put B tx bucketInodes (uint64ToBytes inode)
                          (s3KeyToBolt newKey)))) of
             (Some e, db) \<Rightarrow> (Inl (Wrap ''rename inode'' e), s\<lparr>hs_db := db\<rparr>)
           | (None, db) \<Rightarrow>
               (Inr (), s\<lparr>hs_db := db,
                          hs_inodeToKey := (hs_inodeToKey s)(inode \<mapsto> newKey),
                          hs_keyToInode := (hs_keyToInode s)(oldKey := None, newKey \<mapsto> inode)\<rparr>)))"

subsection \<open>The encodings undo themselves\<close>

lemma byte_word_byte_at: "byte_word (byte_at v i) = take_bit 8 (drop_bit (8 * i) v)"
  by (simp add: byte_word_def byte_at_def take_bit_eq_mod word_arith_nat_mod)

lemma take_bit_step:
  "take_bit n v OR push_bit n (take_bit 8 (drop_bit n v)) = take_bit (n + 8) (v :: uint64)"
proof (rule bit_word_eqI)
  fix m assume "m < LENGTH(64)"
  then show "bit (take_bit n v OR push_bit n (take_bit 8 (drop_bit n v))) m
             = bit (take_bit (n + 8) v) m"
    by (cases "m < n") (auto simp: bit_simps)
qed

lemma BigEndian_uint64ToBytes [simp]: "BigEndian_Uint64 (uint64ToBytes v) = Some v"
proof -
  have "take_bit 8 v OR push_bit 8 (take_bit 8 (drop_bit 8 v))
      OR push_bit 16 (take_bit 8 (drop_bit 16 v)) OR push_bit 24 (take_bit 8 (drop_bit 24 v))
      OR push_bit 32 (take_bit 8 (drop_bit 32 v)) OR push_bit 40 (take_bit 8 (drop_bit 40 v))
      OR push_bit 48 (take_bit 8 (drop_bit 48 v)) OR push_bit 56 (take_bit 8 (drop_bit 56 v))
      = take_bit 64 v"
    using take_bit_step [of 8 v] take_bit_step [of 16 v] take_bit_step [of 24 v]
      take_bit_step [of 32 v] take_bit_step [of 40 v] take_bit_step [of 48 v]
      take_bit_step [of 56 v]
    by (simp add: or.assoc [symmetric])
  then show ?thesis
    by (simp add: BigEndian_Uint64_def uint64ToBytes_def byte_word_byte_at
        take_bit_word_eq_self)
qed

lemma length_uint64ToBytes [simp]: "length (uint64ToBytes v) = 8"
  by (simp add: uint64ToBytes_def)

definition boltable :: "string \<Rightarrow> bool" where
  "boltable k \<longleftrightarrow> k \<noteq> nul_key"

interpretation inode_bytes: codec uint64ToBytes BigEndian_Uint64 "\<lambda>_. True"
  by unfold_locales simp

interpretation bolt_key: codec s3KeyToBolt "\<lambda>b. Some (boltToS3Key b)" boltable
  by unfold_locales
    (auto simp: s3KeyToBolt_def boltToS3Key_def boltable_def nul_key_def length_Suc_conv)

lemma uint64ToBytes_inject [simp]: "uint64ToBytes i = uint64ToBytes j \<longleftrightarrow> i = j"
  using inode_bytes.enc_inj by simp

lemma boltToS3Key_s3KeyToBolt [simp]: "boltable k \<Longrightarrow> boltToS3Key (s3KeyToBolt k) = k"
  using bolt_key.dec_enc by simp

lemma buckets_distinct [simp]:
  "bucketInodes \<noteq> bucketKeys" "bucketKeys \<noteq> bucketInodes" "bucketInodes \<noteq> bucketMeta"
  "bucketMeta \<noteq> bucketInodes" "bucketKeys \<noteq> bucketMeta" "bucketMeta \<noteq> bucketKeys"
  by (simp_all add: bucketInodes_def bucketKeys_def bucketMeta_def)

subsection \<open>Using the bbolt contract\<close>

lemma bolt_update_Some: "bolt_ok B \<Longrightarrow> bolt_update B db f = (Some e, db') \<Longrightarrow> db' = db"
  unfolding bolt_ok_def by (metis option.distinct(1))

lemma bolt_update_None: "bolt_ok B \<Longrightarrow> bolt_update B db f = (None, db') \<Longrightarrow> f db = Inr db'"
  unfolding bolt_ok_def by metis

lemma bolt_create_get: "bolt_ok B \<Longrightarrow> bolt_create B db b = Inr db' \<Longrightarrow> bolt_get B db' = bolt_get B db"
  unfolding bolt_ok_def by metis

lemma bolt_put_get:
  "bolt_ok B \<Longrightarrow> bolt_put B db b k v = Inr db' \<Longrightarrow>
     bolt_get B db' = (bolt_get B db)(b := (bolt_get B db b)(k := Some v))"
  unfolding bolt_ok_def by metis

lemma bolt_delete_get:
  "bolt_ok B \<Longrightarrow> bolt_delete B db b k = Inr db' \<Longrightarrow>
     bolt_get B db' = (bolt_get B db)(b := (bolt_get B db b)(k := None))"
  unfolding bolt_ok_def by metis

lemma bolt_foreach_get:
  "bolt_ok B \<Longrightarrow> map_of (bolt_foreach B db b) = bolt_get B db b"
  "bolt_ok B \<Longrightarrow> distinct (map fst (bolt_foreach B db b))"
  unfolding bolt_ok_def by metis+

lemmas bolt_facts = bolt_create_get bolt_put_get bolt_delete_get

subsection \<open>Invariant\<close>

text \<open>
  The persisted data is well formed when every entry of the inode bucket is an encoded inode
  number with an encoded key, and every persisted inode lies below the persisted counter (a
  counter of 0 means that all numbers have been handed out). The store is consistent when in
  addition the in-memory inode map mirrors the bucket, the key map only points at inodes that
  map back to the key, and the in-memory counter is above every inode in use.
\<close>

definition counter_ok :: "uint64 \<Rightarrow> (uint64 \<Rightarrow> 'a option) \<Rightarrow> bool" where
  "counter_ok n m \<longleftrightarrow> (n \<noteq> 0 \<longrightarrow> rootInode < n \<and> (\<forall>i. m i \<noteq> None \<longrightarrow> i < n))"

definition db_counter_ok :: "'db bolt \<Rightarrow> 'db \<Rightarrow> bool" where
  "db_counter_ok B db \<longleftrightarrow>
     (case bolt_get B db bucketMeta keyNextInode of
        None \<Rightarrow> counter_ok (rootInode + 1) (\<lambda>i. bolt_get B db bucketInodes (uint64ToBytes i))
      | Some v \<Rightarrow> \<exists>n. v = uint64ToBytes n
          \<and> counter_ok n (\<lambda>i. bolt_get B db bucketInodes (uint64ToBytes i)))"

definition db_inv :: "'db bolt \<Rightarrow> 'db \<Rightarrow> bool" where
  "db_inv B db \<longleftrightarrow>
     (\<forall>b v. bolt_get B db bucketInodes b = Some v \<longrightarrow>
        (\<exists>i k. b = uint64ToBytes i \<and> i \<noteq> 0 \<and> v = s3KeyToBolt k \<and> boltable k)) \<and>
     db_counter_ok B db"

definition hs_inv :: "'db bolt \<Rightarrow> 'db HandleStore \<Rightarrow> bool" where
  "hs_inv B s \<longleftrightarrow>
     db_inv B (hs_db s) \<and>
     (\<forall>i. bolt_get B (hs_db s) bucketInodes (uint64ToBytes i)
            = map_option s3KeyToBolt (hs_inodeToKey s i)) \<and>
     (\<forall>i k. hs_inodeToKey s i = Some k \<longrightarrow> boltable k) \<and>
     (\<forall>k i. hs_keyToInode s k = Some i \<longrightarrow> hs_inodeToKey s i = Some k) \<and>
     counter_ok (hs_nextInode s) (hs_inodeToKey s)"

lemma counter_ok_fresh: "counter_ok n m \<Longrightarrow> n \<noteq> 0 \<Longrightarrow> m n = None"
  by (auto simp: counter_ok_def)

lemma less_plus_one:
  fixes i n :: uint64
  assumes "n + 1 \<noteq> 0"
  shows "i < n + 1 \<longleftrightarrow> i \<le> n"
  using assms by (simp add: word_less_nat_alt word_le_nat_alt unatSuc add.commute
      less_Suc_eq_le)

lemma counter_ok_next:
  assumes "counter_ok n m" and "n \<noteq> 0"
  shows "counter_ok (n + 1) (m(n := v))"
  using assms unfolding counter_ok_def
  by (auto simp: less_plus_one intro: order.strict_implies_order)

lemma counter_ok_skip: "counter_ok n m \<Longrightarrow> n \<noteq> 0 \<Longrightarrow> counter_ok (n + 1) m"
  using counter_ok_next [of n m "m n"] by simp

lemma counter_ok_del: "counter_ok n m \<Longrightarrow> counter_ok n (m(i := None))"
  by (auto simp: counter_ok_def)

lemma counter_ok_upd: "counter_ok n m \<Longrightarrow> m i \<noteq> None \<Longrightarrow> counter_ok n (m(i := v))"
  by (auto simp: counter_ok_def)

lemma counter_ok_cong: "(\<And>i. (m i = None) = (m' i = None)) \<Longrightarrow> counter_ok n m = counter_ok n m'"
  by (simp add: counter_ok_def)

subsection \<open>Every operation keeps the invariant\<close>

lemma persist_inode_get:
  assumes "bolt_ok B" and "persist_inode B i k n tx = Inr tx'"
  shows "bolt_get B tx' bucketInodes
           = (bolt_get B tx bucketInodes)(uint64ToBytes i \<mapsto> s3KeyToBolt k)"
    and "bolt_get B tx' bucketMeta
           = (bolt_get B tx bucketMeta)(keyNextInode \<mapsto> uint64ToBytes n)"
  using assms(2) by (auto simp: persist_inode_def dest!: bolt_facts [OF assms(1)])

lemma hs_inv_counter:
  assumes "hs_inv B s" and "hs_nextInode s \<noteq> 0"
  shows "hs_inv B (s\<lparr>hs_nextInode := hs_nextInode s + 1\<rparr>)"
  using assms by (simp add: hs_inv_def counter_ok_skip)

text \<open>Changing one entry of the inode bucket, with the counter left or advanced.\<close>

lemma hs_inv_update:
  assumes inv: "hs_inv B s" and k: "boltable k" and i: "i \<noteq> 0"
    and inodes: "bolt_get B db bucketInodes
      = (bolt_get B (hs_db s) bucketInodes)(uint64ToBytes i \<mapsto> s3KeyToBolt k)"
    and meta: "bolt_get B db bucketMeta = bolt_get B (hs_db s) bucketMeta \<and> hs_inodeToKey s i \<noteq> None
                 \<or> bolt_get B db bucketMeta keyNextInode = Some (uint64ToBytes n)"
    and cnt: "counter_ok n ((hs_inodeToKey s)(i \<mapsto> k))"
    and inverse: "\<And>k' i'. kmap k' = Some i' \<Longrightarrow> ((hs_inodeToKey s)(i \<mapsto> k)) i' = Some k'"
  shows "hs_inv B (s\<lparr>hs_db := db, hs_nextInode := n,
           hs_inodeToKey := (hs_inodeToKey s)(i \<mapsto> k), hs_keyToInode := kmap\<rparr>)"
proof -
  let ?m = "(hs_inodeToKey s)(i \<mapsto> k)"
  have mirror: "bolt_get B db bucketInodes (uint64ToBytes j) = map_option s3KeyToBolt (?m j)" for j
    using inv inodes by (simp add: hs_inv_def)
  have shape: "\<exists>i k. b = uint64ToBytes i \<and> i \<noteq> 0 \<and> v = s3KeyToBolt k \<and> boltable k"
    if "bolt_get B db bucketInodes b = Some v" for b v
    using that inv i k unfolding hs_inv_def db_inv_def inodes by (auto split: if_splits)
  have cnt': "counter_ok n (\<lambda>i. bolt_get B db bucketInodes (uint64ToBytes i))"
    using cnt by (simp add: counter_ok_def mirror)
  have "db_inv B db"
  proof (cases "bolt_get B db bucketMeta = bolt_get B (hs_db s) bucketMeta \<and> hs_inodeToKey s i \<noteq> None")
    case True
    have "counter_ok c (\<lambda>i. bolt_get B db bucketInodes (uint64ToBytes i)) =
          counter_ok c (\<lambda>i. bolt_get B (hs_db s) bucketInodes (uint64ToBytes i))" for c
      using True inv by (intro counter_ok_cong) (auto simp: inodes hs_inv_def)
    then have "db_counter_ok B db = db_counter_ok B (hs_db s)"
      by (simp add: db_counter_ok_def True split: option.split)
    with shape inv show ?thesis unfolding hs_inv_def db_inv_def by simp
  next
    case False
    with meta cnt' have "db_counter_ok B db" by (auto simp: db_counter_ok_def)
    with shape show ?thesis unfolding db_inv_def by simp
  qed
  with mirror inverse inv k cnt show ?thesis
    unfolding hs_inv_def by simp
qed

lemma hs_inv_inverse: "hs_inv B s \<Longrightarrow> hs_keyToInode s k = Some i \<Longrightarrow> hs_inodeToKey s i = Some k"
  by (simp add: hs_inv_def)

lemma hs_inv_nonzero:
  assumes "hs_inv B s" and "hs_inodeToKey s i = Some k"
  shows "i \<noteq> 0" and "boltable k"
proof -
  have get: "bolt_get B (hs_db s) bucketInodes (uint64ToBytes i) = Some (s3KeyToBolt k)"
    using assms by (simp add: hs_inv_def)
  have "\<exists>j k'. uint64ToBytes i = uint64ToBytes j \<and> j \<noteq> 0 \<and> s3KeyToBolt k = s3KeyToBolt k' \<and> boltable k'"
    using assms(1) get unfolding hs_inv_def db_inv_def by blast
  then show "i \<noteq> 0" by auto
  show "boltable k" using assms by (simp add: hs_inv_def)
qed

lemma hs_db_self: "s\<lparr>hs_db := hs_db s\<rparr> = s"
  by simp

text \<open>The whole behaviour of the slow path: hit, overflow, failed transaction, new inode.\<close>

lemma getOrCreateLocked_cases:
  assumes B: "bolt_ok B" and inv: "hs_inv B s" and k: "boltable k"
    and res: "getOrCreateLocked B s k = (r, s')"
  obtains (hit) i where "hs_keyToInode s k = Some i" "r = Inr i" "s' = s"
  | (full) "hs_keyToInode s k = None" "hs_nextInode s = 0"
      "r = Inl (Errorf ''inode counter overflow: maximum inodes reached'')" "s' = s"
  | (failed) e where "hs_keyToInode s k = None" "hs_nextInode s \<noteq> 0"
      "r = Inl (Wrap ''persist inode'' e)" "s' = s\<lparr>hs_nextInode := hs_nextInode s + 1\<rparr>"
  | (fresh) db where "hs_keyToInode s k = None" "hs_nextInode s \<noteq> 0" "r = Inr (hs_nextInode s)"
      "persist_inode B (hs_nextInode s) k (hs_nextInode s + 1) (hs_db s) = Inr db"
      "s' = s\<lparr>hs_db := db, hs_nextInode := hs_nextInode s + 1,
              hs_inodeToKey := (hs_inodeToKey s)(hs_nextInode s \<mapsto> k),
              hs_keyToInode := (hs_keyToInode s)(k \<mapsto> hs_nextInode s)\<rparr>"
proof (cases "hs_keyToInode s k")
  case (Some i)
  with res have "r = Inr i" "s' = s" by (simp_all add: getOrCreateLocked_def)
  with Some show ?thesis by (rule hit)
next
  case None
  show ?thesis
  proof (cases "hs_nextInode s = 0")
    case True
    with None res have "r = Inl (Errorf ''inode counter overflow: maximum inodes reached'')"
      "s' = s" by (simp_all add: getOrCreateLocked_def)
    with None True show ?thesis by (rule full)
  next
    case False
    obtain e db where u: "bolt_update B (hs_db s)
        (persist_inode B (hs_nextInode s) k (hs_nextInode s + 1)) = (e, db)"
      by fastforce
    show ?thesis
    proof (cases e)
      case (Some e')
      with u B have "db = hs_db s" by (auto dest: bolt_update_Some)
      with Some u None False res have "r = Inl (Wrap ''persist inode'' e')"
        "s' = s\<lparr>hs_nextInode := hs_nextInode s + 1\<rparr>"
        by (simp_all add: getOrCreateLocked_def Let_def)
      with None False show ?thesis by (rule failed)
    next
      case no_err: None
      with u B have tx: "persist_inode B (hs_nextInode s) k (hs_nextInode s + 1) (hs_db s) = Inr db"
        by (auto dest: bolt_update_None)
      from no_err u None False res have "r = Inr (hs_nextInode s)"
        and "s' = s\<lparr>hs_db := db, hs_nextInode := hs_nextInode s + 1,
              hs_inodeToKey := (hs_inodeToKey s)(hs_nextInode s \<mapsto> k),
              hs_keyToInode := (hs_keyToInode s)(k \<mapsto> hs_nextInode s)\<rparr>"
        by (simp_all add: getOrCreateLocked_def Let_def)
      with None False tx show ?thesis by (intro fresh)
    qed
  qed
qed

lemma hs_inv_fresh:
  assumes B: "bolt_ok B" and inv: "hs_inv B s" and k: "boltable k"
    and none: "hs_keyToInode s k = None" and n: "hs_nextInode s \<noteq> 0"
    and tx: "persist_inode B (hs_nextInode s) k (hs_nextInode s + 1) (hs_db s) = Inr db"
  shows "hs_inv B (s\<lparr>hs_db := db, hs_nextInode := hs_nextInode s + 1,
              hs_inodeToKey := (hs_inodeToKey s)(hs_nextInode s \<mapsto> k),
              hs_keyToInode := (hs_keyToInode s)(k \<mapsto> hs_nextInode s)\<rparr>)"
proof (rule hs_inv_update [OF inv k n])
  have cnt: "counter_ok (hs_nextInode s) (hs_inodeToKey s)"
    using inv by (simp add: hs_inv_def)
  note get = persist_inode_get [OF B tx]
  show "bolt_get B db bucketInodes
      = (bolt_get B (hs_db s) bucketInodes)(uint64ToBytes (hs_nextInode s) \<mapsto> s3KeyToBolt k)"
    by (rule get)
  show "bolt_get B db bucketMeta = bolt_get B (hs_db s) bucketMeta
        \<and> hs_inodeToKey s (hs_nextInode s) \<noteq> None
      \<or> bolt_get B db bucketMeta keyNextInode = Some (uint64ToBytes (hs_nextInode s + 1))"
    by (simp add: get)
  show "counter_ok (hs_nextInode s + 1) ((hs_inodeToKey s)(hs_nextInode s \<mapsto> k))"
    by (rule counter_ok_next [OF cnt n])
  show "((hs_inodeToKey s)(hs_nextInode s \<mapsto> k)) i' = Some k'"
    if "((hs_keyToInode s)(k \<mapsto> hs_nextInode s)) k' = Some i'" for k' i'
    using that hs_inv_inverse [OF inv] counter_ok_fresh [OF cnt n] by (auto split: if_splits)
qed

lemma getOrCreateLocked_inv [inv_intros]:
  assumes "bolt_ok B" and "hs_inv B s" and "boltable k"
  shows "hs_inv B (snd (getOrCreateLocked B s k))"
proof -
  obtain r s' where res: "getOrCreateLocked B s k = (r, s')" by fastforce
  from getOrCreateLocked_cases [OF assms res] show ?thesis
    by cases (simp_all add: res assms hs_inv_counter hs_inv_fresh)
qed

lemma GetOrCreateInode_locked: "GetOrCreateInode B s k = getOrCreateLocked B s k"
  by (simp add: GetOrCreateInode_def getOrCreateLocked_def split: option.split)

lemma GetOrCreateInode_inv [inv_intros]:
  "bolt_ok B \<Longrightarrow> hs_inv B s \<Longrightarrow> boltable k \<Longrightarrow> hs_inv B (snd (GetOrCreateInode B s k))"
  by (simp add: GetOrCreateInode_locked getOrCreateLocked_inv)

text \<open>Deleting one entry of the inode bucket.\<close>

lemma hs_inv_delete:
  assumes inv: "hs_inv B s"
    and inodes: "bolt_get B db bucketInodes
      = (bolt_get B (hs_db s) bucketInodes)(uint64ToBytes i := None)"
    and meta: "bolt_get B db bucketMeta = bolt_get B (hs_db s) bucketMeta"
    and kmap: "\<And>k' i'. kmap k' = Some i' \<Longrightarrow> hs_keyToInode s k' = Some i' \<and> i' \<noteq> i"
  shows "hs_inv B (s\<lparr>hs_db := db, hs_inodeToKey := (hs_inodeToKey s)(i := None),
           hs_keyToInode := kmap\<rparr>)"
proof -
  have below: "(\<lambda>j. bolt_get B db bucketInodes (uint64ToBytes j))
      = (\<lambda>j. bolt_get B (hs_db s) bucketInodes (uint64ToBytes j))(i := None)"
    by (rule ext) (simp add: inodes)
  have "db_counter_ok B db"
    using inv unfolding hs_inv_def db_inv_def db_counter_ok_def below
    by (auto simp: meta counter_ok_del split: option.splits)
  moreover have "\<exists>i k. b = uint64ToBytes i \<and> i \<noteq> 0 \<and> v = s3KeyToBolt k \<and> boltable k"
    if "bolt_get B db bucketInodes b = Some v" for b v
    using that inv unfolding hs_inv_def db_inv_def inodes by (auto split: if_splits)
  ultimately have "db_inv B db" by (simp add: db_inv_def)
  with inv kmap show ?thesis
    unfolding hs_inv_def by (auto simp: inodes counter_ok_del)
qed

lemma RemoveByKey_inv [inv_intros]:
  assumes B: "bolt_ok B" and inv: "hs_inv B s"
  shows "hs_inv B (snd (RemoveByKey B s k))"
proof (cases "hs_keyToInode s k")
  case None
  with inv show ?thesis by (simp add: RemoveByKey_def)
next
  case (Some i)
  let ?tx = "\<lambda>tx. res_bind (bolt_delete B tx bucketInodes (uint64ToBytes i)) (\<lambda>tx.
                  bolt_delete B tx bucketKeys (s3KeyToBolt k))"
  obtain e db where u: "bolt_update B (hs_db s) ?tx = (e, db)" by fastforce
  show ?thesis
  proof (cases e)
    case (Some e')
    with u B have "db = hs_db s" by (auto dest: bolt_update_Some)
    with Some u \<open>hs_keyToInode s k = Some i\<close> inv show ?thesis by (simp add: RemoveByKey_def)
  next
    case None
    with u B have "?tx (hs_db s) = Inr db" by (auto dest: bolt_update_None)
    then have "bolt_get B db bucketInodes = (bolt_get B (hs_db s) bucketInodes)(uint64ToBytes i := None)"
      and "bolt_get B db bucketMeta = bolt_get B (hs_db s) bucketMeta"
      by (auto dest!: bolt_facts [OF B])
    then have "hs_inv B (s\<lparr>hs_db := db, hs_inodeToKey := (hs_inodeToKey s)(i := None),
        hs_keyToInode := (hs_keyToInode s)(k := None)\<rparr>)"
    proof (rule hs_inv_delete [OF inv])
      fix k' i' assume "((hs_keyToInode s)(k := None)) k' = Some i'"
      then have "k' \<noteq> k" and "hs_keyToInode s k' = Some i'" by (auto split: if_splits)
      then show "hs_keyToInode s k' = Some i' \<and> i' \<noteq> i"
        using hs_inv_inverse [OF inv] Some by (metis option.inject)
    qed
    with None u Some show ?thesis by (simp add: RemoveByKey_def)
  qed
qed

lemma RenameKey_inv [inv_intros]:
  assumes B: "bolt_ok B" and inv: "hs_inv B s" and k: "boltable newKey"
  shows "hs_inv B (snd (RenameKey B s oldKey newKey))"
proof (cases "hs_keyToInode s oldKey")
  case None
  with inv show ?thesis by (simp add: RenameKey_def)
next
  case (Some i)
  let ?tx = "\<lambda>tx. res_bind (bolt_delete B tx bucketKeys (s3KeyToBolt oldKey)) (\<lambda>tx.
                  res_bind (bolt_put B tx bucketKeys (s3KeyToBolt newKey) (uint64ToBytes i)) (\<lambda>tx.
                  bolt_put B tx bucketInodes (uint64ToBytes i) (s3KeyToBolt newKey)))"
  obtain e db where u: "bolt_update B (hs_db s) ?tx = (e, db)" by fastforce
  have i: "hs_inodeToKey s i = Some oldKey" by (rule hs_inv_inverse [OF inv Some])
  show ?thesis
  proof (cases e)
    case (Some e')
    with u B have "db = hs_db s" by (auto dest: bolt_update_Some)
    with Some u \<open>hs_keyToInode s oldKey = Some i\<close> inv show ?thesis by (simp add: RenameKey_def)
  next
    case None
    with u B have "?tx (hs_db s) = Inr db" by (auto dest: bolt_update_None)
    then have get: "bolt_get B db bucketInodes
        = (bolt_get B (hs_db s) bucketInodes)(uint64ToBytes i \<mapsto> s3KeyToBolt newKey)"
      "bolt_get B db bucketMeta = bolt_get B (hs_db s) bucketMeta"
      by (auto dest!: bolt_facts [OF B])
    have "hs_inv B (s\<lparr>hs_db := db, hs_nextInode := hs_nextInode s,
        hs_inodeToKey := (hs_inodeToKey s)(i \<mapsto> newKey),
        hs_keyToInode := (hs_keyToInode s)(oldKey := None, newKey \<mapsto> i)\<rparr>)"
    proof (rule hs_inv_update [OF inv k hs_inv_nonzero(1) [OF inv i] get(1)])
      show "counter_ok (hs_nextInode s) ((hs_inodeToKey s)(i \<mapsto> newKey))"
        using inv i by (auto simp: hs_inv_def intro: counter_ok_upd)
      show "((hs_inodeToKey s)(i \<mapsto> newKey)) i' = Some k'"
        if "((hs_keyToInode s)(oldKey := None, newKey \<mapsto> i)) k' = Some i'" for k' i'
        using that hs_inv_inverse [OF inv] i by (force split: if_splits)
    qed (simp add: get i)
    with None u Some show ?thesis by (simp add: RenameKey_def)
  qed
qed

subsection \<open>Opening the store\<close>

text \<open>What loading the entries of the inode bucket leaves in the two maps.\<close>

lemma load_entries_spec:
  assumes "\<forall>b\<in>fst ` set es. \<exists>i. b = uint64ToBytes i"
    and "distinct (map fst es)"
    and "\<forall>i. hs_inodeToKey s i \<noteq> None \<longrightarrow> uint64ToBytes i \<notin> fst ` set es"
    and "\<forall>k i. hs_keyToInode s k = Some i \<longrightarrow> hs_inodeToKey s i = Some k"
  shows "\<exists>s'. load_entries es s = Inr s' \<and> hs_db s' = hs_db s \<and> hs_nextInode s' = hs_nextInode s
     \<and> (\<forall>i. hs_inodeToKey s' i = (case map_of es (uint64ToBytes i) of
               None \<Rightarrow> hs_inodeToKey s i | Some v \<Rightarrow> Some (boltToS3Key v)))
     \<and> (\<forall>k i. hs_keyToInode s' k = Some i \<longrightarrow> hs_inodeToKey s' i = Some k)
     \<and> (\<forall>k. hs_keyToInode s' k \<noteq> None \<longleftrightarrow>
          hs_keyToInode s k \<noteq> None \<or> k \<in> boltToS3Key ` snd ` set es)"
  using assms
proof (induction es arbitrary: s)
  case Nil
  then show ?case by auto
next
  case (Cons e es)
  obtain b v where e: "e = (b, v)" by fastforce
  from Cons.prems(1) e obtain i where b: "b = uint64ToBytes i" by auto
  let ?key = "boltToS3Key v"
  let ?s = "s\<lparr>hs_inodeToKey := (hs_inodeToKey s)(i \<mapsto> ?key),
              hs_keyToInode := (hs_keyToInode s)(?key \<mapsto> i)\<rparr>"
  have free: "hs_inodeToKey s i = None"
    using Cons.prems(3) by (auto simp: e b)
  have "\<exists>s'. load_entries es ?s = Inr s' \<and> hs_db s' = hs_db ?s \<and> hs_nextInode s' = hs_nextInode ?s
     \<and> (\<forall>i. hs_inodeToKey s' i = (case map_of es (uint64ToBytes i) of
               None \<Rightarrow> hs_inodeToKey ?s i | Some v \<Rightarrow> Some (boltToS3Key v)))
     \<and> (\<forall>k i. hs_keyToInode s' k = Some i \<longrightarrow> hs_inodeToKey s' i = Some k)
     \<and> (\<forall>k. hs_keyToInode s' k \<noteq> None \<longleftrightarrow>
          hs_keyToInode ?s k \<noteq> None \<or> k \<in> boltToS3Key ` snd ` set es)"
  proof (rule Cons.IH)
    show "\<forall>j. hs_inodeToKey ?s j \<noteq> None \<longrightarrow> uint64ToBytes j \<notin> fst ` set es"
      using Cons.prems(2,3) by (auto simp: e b)
    show "\<forall>k j. hs_keyToInode ?s k = Some j \<longrightarrow> hs_inodeToKey ?s j = Some k"
      using Cons.prems(4) free by auto
  qed (use Cons.prems in auto)
  then obtain s' where s': "load_entries es ?s = Inr s'" "hs_db s' = hs_db s"
      "hs_nextInode s' = hs_nextInode s"
    and i2k: "\<And>j. hs_inodeToKey s' j = (case map_of es (uint64ToBytes j) of
               None \<Rightarrow> hs_inodeToKey ?s j | Some v \<Rightarrow> Some (boltToS3Key v))"
    and inverse: "\<forall>k i. hs_keyToInode s' k = Some i \<longrightarrow> hs_inodeToKey s' i = Some k"
    and keys: "\<And>k. hs_keyToInode s' k \<noteq> None \<longleftrightarrow>
          hs_keyToInode ?s k \<noteq> None \<or> k \<in> boltToS3Key ` snd ` set es"
    by auto
  have new: "map_of es (uint64ToBytes i) = None"
    using Cons.prems(2) by (auto simp: e b map_of_eq_None_iff)
  have "hs_inodeToKey s' j = (case map_of (e # es) (uint64ToBytes j) of
               None \<Rightarrow> hs_inodeToKey s j | Some v \<Rightarrow> Some (boltToS3Key v))" for j
    using new by (simp add: i2k e b split: option.split)
  moreover have "hs_keyToInode s' k \<noteq> None \<longleftrightarrow>
          hs_keyToInode s k \<noteq> None \<or> k \<in> boltToS3Key ` snd ` set (e # es)" for k
    using keys [of k] by (auto simp: e)
  moreover have "load_entries (e # es) s = Inr s'"
    using s'(1) by (simp add: e b Let_def)
  ultimately show ?case using s'(2,3) inverse by blast
qed

lemma init_tx_get:
  assumes "bolt_ok B" and "init_tx B db = Inr db'"
  shows "bolt_get B db' bucketMeta = bolt_get B db bucketMeta"
    and "bolt_get B db' bucketInodes =
      (if bolt_get B db bucketInodes (uint64ToBytes rootInode) = None
       then (bolt_get B db bucketInodes)(uint64ToBytes rootInode \<mapsto> nul_key)
       else bolt_get B db bucketInodes)"
proof -
  from assms(2) obtain t1 t2 t3 where "bolt_create B db bucketInodes = Inr t1"
    "bolt_create B t1 bucketKeys = Inr t2" "bolt_create B t2 bucketMeta = Inr t3"
    and t3: "(if bolt_get B t3 bucketInodes (uint64ToBytes rootInode) = None then
         res_bind (bolt_put B t3 bucketInodes (uint64ToBytes rootInode) nul_key) (\<lambda>tx.
         bolt_put B tx bucketKeys nul_key (uint64ToBytes rootInode)) else Inr t3) = Inr db'"
    by (auto simp: init_tx_def)
  then have eq: "bolt_get B t3 = bolt_get B db"
    using bolt_create_get [OF assms(1)] by metis
  show "bolt_get B db' bucketMeta = bolt_get B db bucketMeta"
    and "bolt_get B db' bucketInodes =
      (if bolt_get B db bucketInodes (uint64ToBytes rootInode) = None
       then (bolt_get B db bucketInodes)(uint64ToBytes rootInode \<mapsto> nul_key)
       else bolt_get B db bucketInodes)"
  proof (atomize (full), cases "bolt_get B db bucketInodes (uint64ToBytes rootInode) = None")
    case True
    with t3 obtain t4 where "bolt_put B t3 bucketInodes (uint64ToBytes rootInode) nul_key = Inr t4"
      and "bolt_put B t4 bucketKeys nul_key (uint64ToBytes rootInode) = Inr db'"
      by (auto simp: eq)
    then show "bolt_get B db' bucketMeta = bolt_get B db bucketMeta \<and> bolt_get B db' bucketInodes =
        (if bolt_get B db bucketInodes (uint64ToBytes rootInode) = None
         then (bolt_get B db bucketInodes)(uint64ToBytes rootInode \<mapsto> nul_key)
         else bolt_get B db bucketInodes)"
      using True by (simp add: bolt_put_get [OF assms(1)] eq)
  next
    case False
    with t3 eq show "bolt_get B db' bucketMeta = bolt_get B db bucketMeta \<and> bolt_get B db' bucketInodes =
        (if bolt_get B db bucketInodes (uint64ToBytes rootInode) = None
         then (bolt_get B db bucketInodes)(uint64ToBytes rootInode \<mapsto> nul_key)
         else bolt_get B db bucketInodes)"
      by auto
  qed
qed

lemma s3KeyToBolt_Nil: "s3KeyToBolt [] = nul_key"
  by (simp add: s3KeyToBolt_def)

lemma rootInode_simps [simp]: "rootInode \<noteq> 0" "rootInode + 1 \<noteq> 0" "rootInode < rootInode + 1"
  by (simp_all add: rootInode_def)

lemma boltable_Nil [simp]: "boltable []"
  by (simp add: boltable_def nul_key_def)

text \<open>The transaction of \<open>init\<close> keeps the persisted data well formed.\<close>

lemma init_tx_db_inv:
  assumes B: "bolt_ok B" and inv: "db_inv B db" and tx: "init_tx B db = Inr db'"
  shows "db_inv B db'"
proof -
  note get = init_tx_get [OF B tx]
  have shape: "\<exists>i k. b = uint64ToBytes i \<and> i \<noteq> 0 \<and> v = s3KeyToBolt k \<and> boltable k"
    if b: "bolt_get B db' bucketInodes b = Some v" for b v
  proof (cases "bolt_get B db bucketInodes b = Some v")
    case True
    with inv show ?thesis unfolding db_inv_def by blast
  next
    case False
    with b have "b = uint64ToBytes rootInode" and "v = s3KeyToBolt []"
      by (auto simp: get s3KeyToBolt_Nil split: if_splits)
    then show ?thesis by (intro exI [of _ rootInode] exI [of _ "[]"]) simp
  qed
  have cnt: "counter_ok n (\<lambda>i. bolt_get B db' bucketInodes (uint64ToBytes i))"
    if "counter_ok n (\<lambda>i. bolt_get B db bucketInodes (uint64ToBytes i))" for n
    using that by (auto simp: counter_ok_def get)
  have "db_counter_ok B db'"
    using inv unfolding db_inv_def db_counter_ok_def get(1)
    by (auto intro: cnt split: option.splits)
  with shape show ?thesis by (simp add: db_inv_def)
qed

lemma load_db:
  assumes B: "bolt_ok B" and inv: "db_inv B db"
    and s0: "hs_db s0 = db" "hs_inodeToKey s0 = Map.empty" "hs_keyToInode s0 = Map.empty"
    and cnt: "counter_ok (hs_nextInode s0) (\<lambda>i. bolt_get B db bucketInodes (uint64ToBytes i))"
  shows "\<exists>s. load_entries (bolt_foreach B db bucketInodes) s0 = Inr s \<and> hs_inv B s \<and> hs_db s = db
    \<and> hs_nextInode s = hs_nextInode s0
    \<and> (\<forall>i k. hs_inodeToKey s i = Some k \<longrightarrow> hs_keyToInode s k \<noteq> None)"
proof -
  let ?es = "bolt_foreach B db bucketInodes"
  note es = bolt_foreach_get [OF B, of db bucketInodes]
  have in_get: "bolt_get B db bucketInodes b = Some v" if "(b, v) \<in> set ?es" for b v
    using that es by (metis map_of_is_SomeI)
  have "\<exists>i. b = uint64ToBytes i" if "b \<in> fst ` set ?es" for b
    using that inv in_get unfolding db_inv_def by fastforce
  with load_entries_spec [of ?es s0] es(2) obtain s where
    s: "load_entries ?es s0 = Inr s" "hs_db s = db" "hs_nextInode s = hs_nextInode s0"
    and load: "\<forall>i. hs_inodeToKey s i = (case map_of ?es (uint64ToBytes i) of
               None \<Rightarrow> hs_inodeToKey s0 i | Some v \<Rightarrow> Some (boltToS3Key v))"
    and inverse: "\<forall>k i. hs_keyToInode s k = Some i \<longrightarrow> hs_inodeToKey s i = Some k"
    and keys0: "\<forall>k. hs_keyToInode s k \<noteq> None \<longleftrightarrow>
          hs_keyToInode s0 k \<noteq> None \<or> k \<in> boltToS3Key ` snd ` set ?es"
    unfolding s0 by blast
  have i2k: "hs_inodeToKey s i = map_option boltToS3Key (bolt_get B db bucketInodes (uint64ToBytes i))"
    for i using load es(1) by (simp add: s0 split: option.split)
  have keys: "hs_keyToInode s k \<noteq> None \<longleftrightarrow> k \<in> boltToS3Key ` snd ` set ?es" for k
    using keys0 by (simp add: s0)
  have dec: "\<exists>k. v = s3KeyToBolt k \<and> boltable k" if "bolt_get B db bucketInodes b = Some v" for b v
    using that inv unfolding db_inv_def by blast
  have mirror: "bolt_get B db bucketInodes (uint64ToBytes i)
      = map_option s3KeyToBolt (hs_inodeToKey s i)"
    and ok: "hs_inodeToKey s i = Some k \<Longrightarrow> boltable k" for i k
    using dec by (cases "bolt_get B db bucketInodes (uint64ToBytes i)"; fastforce simp: i2k)+
  have "hs_inv B s"
    using inv s(2,3) mirror ok inverse cnt unfolding hs_inv_def
    by (auto simp: counter_ok_def i2k)
  moreover have "hs_keyToInode s k \<noteq> None" if "hs_inodeToKey s i = Some k" for i k
  proof -
    from that obtain v where "bolt_get B db bucketInodes (uint64ToBytes i) = Some v"
      and v: "k = boltToS3Key v"
      by (auto simp: i2k)
    then have "(uint64ToBytes i, v) \<in> set ?es" using es by (metis map_of_SomeD)
    then show ?thesis using keys v by force
  qed
  ultimately show ?thesis using s by blast
qed

lemma NewHandleStore_cases:
  assumes B: "bolt_ok B" and inv: "db_inv B db"
  obtains (failed) e db' where "bolt_update B db (init_tx B) = (Some e, db')"
      "NewHandleStore B (Inr db) = Inl e"
  | (opened) s where "NewHandleStore B (Inr db) = Inr s" "hs_inv B s"
      "init_tx B db = Inr (hs_db s)"
      "\<And>i k. hs_inodeToKey s i = Some k \<Longrightarrow> hs_keyToInode s k \<noteq> None"
      "case bolt_get B db bucketMeta keyNextInode of
         None \<Rightarrow> hs_nextInode s = rootInode + 1
       | Some v \<Rightarrow> BigEndian_Uint64 v = Some (hs_nextInode s)"
proof -
  obtain e db' where u: "bolt_update B db (init_tx B) = (e, db')" by fastforce
  show thesis
  proof (cases e)
    case (Some e')
    with u have "NewHandleStore B (Inr db) = Inl e'"
      by (simp add: NewHandleStore_def hs_init_def)
    with u Some failed show thesis by blast
  next
    case None
    with u have tx: "init_tx B db = Inr db'" using bolt_update_None [OF B] by blast
    have inv': "db_inv B db'" by (rule init_tx_db_inv [OF B inv tx])
    note meta = init_tx_get(1) [OF B tx]
    define n where "n = (case bolt_get B db bucketMeta keyNextInode of
        None \<Rightarrow> rootInode + 1 | Some v \<Rightarrow> the (BigEndian_Uint64 v))"
    let ?s0 = "\<lparr>hs_db = db', hs_nextInode = n, hs_inodeToKey = Map.empty, hs_keyToInode = Map.empty\<rparr>"
    have cnt: "counter_ok n (\<lambda>i. bolt_get B db' bucketInodes (uint64ToBytes i))"
      and dec: "case bolt_get B db bucketMeta keyNextInode of
         None \<Rightarrow> n = rootInode + 1 | Some v \<Rightarrow> BigEndian_Uint64 v = Some n"
      using inv' unfolding db_inv_def db_counter_ok_def meta
      by (auto simp: n_def split: option.splits)
    obtain s where s: "load_entries (bolt_foreach B db' bucketInodes) ?s0 = Inr s"
      "hs_inv B s" "hs_db s = db'" "hs_nextInode s = n"
      "\<forall>i k. hs_inodeToKey s i = Some k \<longrightarrow> hs_keyToInode s k \<noteq> None"
      using load_db [OF B inv', of ?s0] cnt by auto
    have "NewHandleStore B (Inr db) = Inr s"
      using u None s(1) dec by (auto simp: NewHandleStore_def hs_init_def meta split: option.splits)
    then show thesis using s tx dec by (intro opened) auto
  qed
qed

subsection \<open>Frame facts\<close>

lemma RemoveByKey_frame [frame_simps]:
  assumes "bolt_ok B"
  shows "hs_nextInode (snd (RemoveByKey B s k)) = hs_nextInode s"
    and "bolt_get B (hs_db (snd (RemoveByKey B s k))) bucketMeta = bolt_get B (hs_db s) bucketMeta"
proof -
  show "hs_nextInode (snd (RemoveByKey B s k)) = hs_nextInode s"
    by (simp add: RemoveByKey_def split: option.split prod.split)
  show "bolt_get B (hs_db (snd (RemoveByKey B s k))) bucketMeta = bolt_get B (hs_db s) bucketMeta"
    by (auto simp: RemoveByKey_def split: option.split prod.split
        dest!: bolt_update_None [OF assms] bolt_update_Some [OF assms] bolt_delete_get [OF assms])
qed

lemma RenameKey_frame [frame_simps]:
  assumes "bolt_ok B"
  shows "hs_nextInode (snd (RenameKey B s k k')) = hs_nextInode s"
    and "bolt_get B (hs_db (snd (RenameKey B s k k'))) bucketMeta = bolt_get B (hs_db s) bucketMeta"
proof -
  show "hs_nextInode (snd (RenameKey B s k k')) = hs_nextInode s"
    by (simp add: RenameKey_def split: option.split prod.split)
  show "bolt_get B (hs_db (snd (RenameKey B s k k'))) bucketMeta = bolt_get B (hs_db s) bucketMeta"
    by (auto simp: RenameKey_def split: option.split prod.split dest!: bolt_update_None [OF assms]
        bolt_update_Some [OF assms] bolt_delete_get [OF assms] bolt_put_get [OF assms])
qed

subsection \<open>The interface the filesystem relies on\<close>

text \<open>
  The filesystem asks for inodes of keys and for keys of inodes. What it needs is that an
  inode it was given maps back to the key, and that asking for further inodes never changes
  what earlier ones map to.
\<close>

locale handle_table =
  fixes getOrCreate :: "'s \<Rightarrow> string \<Rightarrow> uint64 result \<times> 's"
    and keyOf :: "'s \<Rightarrow> uint64 \<Rightarrow> string option"
    and invar :: "'s \<Rightarrow> bool"
    and okkey :: "string \<Rightarrow> bool"
  assumes goc_invar: "invar s \<Longrightarrow> okkey k \<Longrightarrow> invar (snd (getOrCreate s k))"
    and goc_key: "invar s \<Longrightarrow> okkey k \<Longrightarrow> getOrCreate s k = (Inr i, s') \<Longrightarrow> keyOf s' i = Some k \<and> i \<noteq> 0"
    and goc_keep: "invar s \<Longrightarrow> okkey k \<Longrightarrow> keyOf s j = Some k' \<Longrightarrow>
      keyOf (snd (getOrCreate s k)) j = Some k'"
begin

definition lookups :: "string list \<Rightarrow> 's \<Rightarrow> 's" where
  "lookups ks s = fold (\<lambda>k s. snd (getOrCreate s k)) ks s"

lemma lookups_invar: "invar s \<Longrightarrow> list_all okkey ks \<Longrightarrow> invar (lookups ks s)"
  by (induction ks arbitrary: s) (auto simp: lookups_def goc_invar)

lemma lookups_keep:
  "invar s \<Longrightarrow> list_all okkey ks \<Longrightarrow> keyOf s j = Some k \<Longrightarrow> keyOf (lookups ks s) j = Some k"
  by (induction ks arbitrary: s) (auto simp: lookups_def goc_invar goc_keep)

lemma handle_stable:
  assumes "invar s" and "okkey k" and "list_all okkey ks" and "getOrCreate s k = (Inr i, s')"
  shows "keyOf (lookups ks s') i = Some k"
proof -
  have "invar s'" using goc_invar [OF assms(1,2)] assms(4) by simp
  then show ?thesis using goc_key [OF assms(1,2,4)] lookups_keep assms(3) by blast
qed

end

lemma GetOrCreateInode_key:
  assumes "bolt_ok B" and "hs_inv B s" and "boltable k" and "GetOrCreateInode B s k = (Inr i, s')"
  shows "GetKey s' i = Some k \<and> i \<noteq> 0 \<and> hs_keyToInode s' k = Some i"
proof -
  from assms(4) have "getOrCreateLocked B s k = (Inr i, s')"
    by (simp add: GetOrCreateInode_locked)
  from getOrCreateLocked_cases [OF assms(1-3) this] show ?thesis
    by cases (auto simp: GetKey_def hs_inv_inverse [OF assms(2)]
        dest: hs_inv_inverse [OF assms(2)] hs_inv_nonzero [OF assms(2)])
qed

lemma GetOrCreateInode_keep:
  assumes "bolt_ok B" and "hs_inv B s" and "boltable k" and "GetKey s j = Some k'"
  shows "GetKey (snd (GetOrCreateInode B s k)) j = Some k'"
proof -
  obtain r s' where res: "getOrCreateLocked B s k = (r, s')" by fastforce
  have "hs_nextInode s \<noteq> j" if "hs_nextInode s \<noteq> 0"
    using that assms(2,4) counter_ok_fresh [of "hs_nextInode s" "hs_inodeToKey s"]
    by (auto simp: hs_inv_def GetKey_def)
  with getOrCreateLocked_cases [OF assms(1-3) res] show ?thesis
    by cases (use assms(4) res in \<open>auto simp: GetKey_def GetOrCreateInode_locked\<close>)
qed

interpretation hs: handle_table "GetOrCreateInode B" GetKey
    "\<lambda>s. bolt_ok B \<and> hs_inv B s" boltable for B
proof unfold_locales
  fix s k
  assume inv: "bolt_ok B \<and> hs_inv B s" and k: "boltable k"
  show "bolt_ok B \<and> hs_inv B (snd (GetOrCreateInode B s k))"
    using inv k by (simp add: GetOrCreateInode_inv)
  show "GetKey s' i = Some k \<and> i \<noteq> 0" if "GetOrCreateInode B s k = (Inr i, s')" for i s'
    using GetOrCreateInode_key inv k that by blast
  show "GetKey (snd (GetOrCreateInode B s k)) j = Some k'" if "GetKey s j = Some k'" for j k'
    using GetOrCreateInode_keep inv k that by blast
qed

subsection \<open>Operation sequences\<close>

text \<open>
  A run of the store: calls of the four operations and restarts of the process, in any
  order, every transaction free to fail. A restart closes the database and opens it again;
  when opening fails nothing has changed. The log records the inode numbers handed out for
  keys that had none.
\<close>

datatype hs_op = OpGet string | OpRemove string | OpRename string string | OpRestart

type_synonym 'db hs_state = "'db HandleStore \<times> uint64 list"

fun hs_step :: "'db bolt \<Rightarrow> hs_op \<Rightarrow> 'db hs_state \<Rightarrow> 'db hs_state" where
  "hs_step B (OpGet k) (s, log) =
     (case GetOrCreateInode B s k of
        (Inl e, s') \<Rightarrow> (s', log)
      | (Inr i, s') \<Rightarrow> (s', if hs_keyToInode s k = None then i # log else log))"
| "hs_step B (OpRemove k) (s, log) = (snd (RemoveByKey B s k), log)"
| "hs_step B (OpRename k k') (s, log) = (snd (RenameKey B s k k'), log)"
| "hs_step B OpRestart (s, log) =
     (case NewHandleStore B (Inr (hs_db s)) of Inl e \<Rightarrow> (s, log) | Inr s' \<Rightarrow> (s', log))"

fun op_keys_ok :: "hs_op \<Rightarrow> bool" where
  "op_keys_ok (OpGet k) = boltable k"
| "op_keys_ok (OpRemove k) = boltable k"
| "op_keys_ok (OpRename k k') = (boltable k \<and> boltable k')"
| "op_keys_ok OpRestart = True"

text \<open>The counter as the next process will read it.\<close>

definition db_next :: "'db bolt \<Rightarrow> 'db \<Rightarrow> uint64" where
  "db_next B db = (case bolt_get B db bucketMeta keyNextInode of
     None \<Rightarrow> rootInode + 1 | Some v \<Rightarrow> the (BigEndian_Uint64 v))"

definition below :: "uint64 \<Rightarrow> uint64 \<Rightarrow> bool" where
  "below n i \<longleftrightarrow> (n \<noteq> 0 \<longrightarrow> i < n)"

definition issue_inv :: "'db bolt \<Rightarrow> 'db hs_state \<Rightarrow> bool" where
  "issue_inv B st \<longleftrightarrow> bolt_ok B \<and> hs_inv B (fst st) \<and> distinct (snd st) \<and>
     (\<forall>i\<in>set (snd st). i \<noteq> rootInode \<and> below (hs_nextInode (fst st)) i
        \<and> below (db_next B (hs_db (fst st))) i)"

lemma below_Suc: "below n i \<Longrightarrow> n \<noteq> 0 \<Longrightarrow> below (n + 1) i"
  by (auto simp: below_def less_plus_one)

lemma below_self: "n \<noteq> 0 \<Longrightarrow> below (n + 1) n"
  by (auto simp: below_def less_plus_one)

lemma db_next_cong:
  "bolt_get B db' bucketMeta = bolt_get B db bucketMeta \<Longrightarrow> db_next B db' = db_next B db"
  by (simp add: db_next_def)

lemma issue_get:
  assumes inv: "issue_inv B (s, log)" and k: "boltable k"
  shows "issue_inv B (hs_step B (OpGet k) (s, log))"
proof -
  from inv have B: "bolt_ok B" and s: "hs_inv B s" by (simp_all add: issue_inv_def)
  obtain r s' where res: "getOrCreateLocked B s k = (r, s')" by fastforce
  have inv': "hs_inv B s'" using getOrCreateLocked_inv [OF B s k] res by simp
  show ?thesis
    using B s k res
  proof (cases rule: getOrCreateLocked_cases)
    case (fresh db)
    have "db_next B db = hs_nextInode s + 1"
      by (simp add: db_next_def persist_inode_get(2) [OF B fresh(4)])
    moreover have "hs_nextInode s \<notin> set log"
      using inv fresh(2) by (auto simp: issue_inv_def below_def)
    moreover have "hs_nextInode s \<noteq> rootInode"
      using s fresh(2) by (auto simp: hs_inv_def counter_ok_def)
    ultimately show ?thesis
      using inv inv' fresh res
      by (auto simp: issue_inv_def GetOrCreateInode_locked below_self intro: below_Suc)
  qed (use inv inv' res in \<open>auto simp: issue_inv_def GetOrCreateInode_locked intro: below_Suc\<close>)
qed

lemma issue_restart:
  assumes inv: "issue_inv B (s, log)"
  shows "issue_inv B (hs_step B OpRestart (s, log))"
proof -
  from inv have B: "bolt_ok B" and s: "hs_inv B s" by (simp_all add: issue_inv_def)
  from s have "db_inv B (hs_db s)" by (simp add: hs_inv_def)
  with B show ?thesis
  proof (cases rule: NewHandleStore_cases)
    case (failed e db')
    with inv show ?thesis by simp
  next
    case (opened s')
    have "hs_nextInode s' = db_next B (hs_db s)"
      using opened(5) by (auto simp: db_next_def split: option.splits)
    moreover have "db_next B (hs_db s') = db_next B (hs_db s)"
      using init_tx_get(1) [OF B opened(3)] by (rule db_next_cong)
    ultimately show ?thesis
      using inv opened by (simp add: issue_inv_def)
  qed
qed

lemma issue_step:
  assumes "issue_inv B st" and "op_keys_ok x"
  shows "issue_inv B (hs_step B x st)"
proof (cases st)
  case (Pair s log)
  show ?thesis
  proof (cases x)
    case (OpRemove k)
    with assms Pair show ?thesis
      by (simp add: issue_inv_def RemoveByKey_inv RemoveByKey_frame
          db_next_cong [OF RemoveByKey_frame(2)])
  next
    case (OpRename k k')
    with assms Pair show ?thesis
      by (simp add: issue_inv_def RenameKey_inv RenameKey_frame
          db_next_cong [OF RenameKey_frame(2)])
  qed (use assms Pair in \<open>auto simp: issue_get issue_restart simp del: hs_step.simps\<close>)
qed

interpretation hs_run: machine "hs_step B" "issue_inv B" op_keys_ok for B
  by unfold_locales (rule issue_step)

subsection \<open>An in-memory database\<close>

text \<open>
  A database that satisfies the contract, for concrete runs: the entries as a list, a
  transaction that always commits, and, as bbolt documents, an error on an empty key and
  iteration in byte order.
\<close>

type_synonym memdb = "((bytes \<times> bytes) \<times> bytes) list"

definition mem_keys :: "memdb \<Rightarrow> bytes \<Rightarrow> bytes list" where
  "mem_keys db b = sort (remdups (map (snd \<circ> fst) (filter (\<lambda>e. fst (fst e) = b) db)))"

definition mem_bolt :: "memdb bolt" where
  "mem_bolt = \<lparr>
     bolt_update = (\<lambda>db f. case f db of Inl e \<Rightarrow> (Some e, db) | Inr db' \<Rightarrow> (None, db')),
     bolt_create = (\<lambda>db b. Inr db),
     bolt_get = (\<lambda>db b k. map_of db (b, k)),
     bolt_put = (\<lambda>db b k v. if k = [] then Inl (Errorf ''key required'')
                             else Inr (((b, k), v) # db)),
     bolt_delete = (\<lambda>db b k. Inr (filter (\<lambda>e. fst e \<noteq> (b, k)) db)),
     bolt_foreach = (\<lambda>db b. map (\<lambda>k. (k, the (map_of db (b, k)))) (mem_keys db b))\<rparr>"

lemma set_mem_keys: "k \<in> set (mem_keys db b) \<longleftrightarrow> map_of db (b, k) \<noteq> None"
  by (force simp: mem_keys_def map_of_eq_None_iff)

lemma map_of_filter_key: "map_of (filter (\<lambda>e. fst e \<noteq> k) db) = (map_of db)(k := None)"
  by (induction db) auto

lemma map_of_key_map:
  "map_of (map (\<lambda>k. (k, f k)) ks) = (\<lambda>k. if k \<in> set ks then Some (f k) else None)"
  by (induction ks) auto

lemma mem_bolt_ok: "bolt_ok mem_bolt"
proof -
  have "map_of (map (\<lambda>k. (k, the (map_of db (b, k)))) (mem_keys db b)) = (\<lambda>k. map_of db (b, k))"
    for db b by (rule ext) (auto simp: map_of_key_map set_mem_keys)
  moreover have "distinct (mem_keys db b)" for db b by (simp add: mem_keys_def)
  ultimately show ?thesis
    by (auto simp: bolt_ok_def mem_bolt_def map_of_filter_key comp_def fun_eq_iff
        split: sum.splits if_splits)
qed

definition mem_s0 :: "memdb HandleStore" where
  "mem_s0 = \<lparr>hs_db = [((bucketKeys, nul_key), uint64ToBytes 1), ((bucketInodes, uint64ToBytes 1), nul_key)],
    hs_nextInode = 2, hs_inodeToKey = [1 \<mapsto> []], hs_keyToInode = [[] \<mapsto> 1]\<rparr>"

lemma mem_bolt_simps [simp]:
  "bolt_update mem_bolt db f = (case f db of Inl e \<Rightarrow> (Some e, db) | Inr db' \<Rightarrow> (None, db'))"
  "bolt_create mem_bolt db b = Inr db"
  "bolt_get mem_bolt db b k = map_of db (b, k)"
  "bolt_put mem_bolt db b k v =
     (if k = [] then Inl (Errorf ''key required'') else Inr (((b, k), v) # db))"
  "bolt_delete mem_bolt db b k = Inr (filter (\<lambda>e. fst e \<noteq> (b, k)) db)"
  "bolt_foreach mem_bolt db b = map (\<lambda>k. (k, the (map_of db (b, k)))) (mem_keys db b)"
  by (simp_all add: mem_bolt_def)

lemma uint64ToBytes_neq_Nil [simp]: "uint64ToBytes i \<noteq> []"
  by (simp add: uint64ToBytes_def)

lemmas mem_simps = mem_s0_def mem_keys_def rootInode_def boltToS3Key_def nul_key_def
  s3KeyToBolt_def keyNextInode_def persist_inode_def Let_def

lemma mem_open: "NewHandleStore mem_bolt (Inr []) = Inr mem_s0"
  by (simp add: NewHandleStore_def hs_init_def init_tx_def mem_simps)

subsection \<open>Properties\<close>

text \<open>
  C2. Starting from an empty database, after any sequence of lookups, removals, renames and
  restarts in which any transaction may fail, no inode number has ever been handed out
  twice (not even one whose key was removed since), none is the root inode, and the store is
  consistent.
\<close>

theorem inode_never_reissued:
  assumes "bolt_ok B" and "\<forall>b k. bolt_get B db b k = None"
    and "NewHandleStore B (Inr db) = Inr s0" and "list_all op_keys_ok ops"
    and "fold (hs_step B) ops (s0, []) = (s, log)"
  shows "distinct log \<and> rootInode \<notin> set log \<and> hs_inv B s"
proof -
  have "db_inv B db"
    using assms(2) by (simp add: db_inv_def db_counter_ok_def counter_ok_def)
  with assms(1) have "hs_inv B s0"
    using assms(3) by (cases rule: NewHandleStore_cases) auto
  with assms(1) have "issue_inv B (s0, [])" by (simp add: issue_inv_def)
  from hs_run.fold_inv [OF this assms(4)] show ?thesis
    by (auto simp: issue_inv_def assms(5))
qed

theorem inode_never_reissued_witness:
  "bolt_ok mem_bolt \<and> NewHandleStore mem_bolt (Inr []) = Inr mem_s0 \<and>
   (\<exists>s. fold (hs_step mem_bolt) [OpGet ''a'', OpRemove ''a'', OpRestart, OpGet ''b''] (mem_s0, [])
      = (s, [3, 2]) \<and> distinct [3, 2 :: uint64] \<and> hs_inv mem_bolt s)"
proof -
  let ?ops = "[OpGet ''a'', OpRemove ''a'', OpRestart, OpGet ''b'']"
  obtain s where s: "fold (hs_step mem_bolt) ?ops (mem_s0, []) = (s, [3, 2])"
    by (simp add: GetOrCreateInode_def getOrCreateLocked_def RemoveByKey_def NewHandleStore_def
        hs_init_def init_tx_def mem_simps)
  have "list_all op_keys_ok ?ops" by (simp add: boltable_def nul_key_def)
  from inode_never_reissued [OF mem_bolt_ok _ mem_open this s] s mem_bolt_ok mem_open
  show ?thesis by (auto simp: mem_bolt_def)
qed

lemma restart_inodes:
  assumes "bolt_ok B" and "hs_inv B s" and "NewHandleStore B (Inr (hs_db s)) = Inr s'"
    and "GetKey s rootInode \<noteq> None"
  shows "hs_inodeToKey s' = hs_inodeToKey s" and "hs_inv B s'"
    and "hs_inodeToKey s' i = Some k \<Longrightarrow> hs_keyToInode s' k \<noteq> None"
proof -
  have "db_inv B (hs_db s)" using assms(2) by (simp add: hs_inv_def)
  with assms(1) have inv: "hs_inv B s'" and tx: "init_tx B (hs_db s) = Inr (hs_db s')"
    and all: "\<And>i k. hs_inodeToKey s' i = Some k \<Longrightarrow> hs_keyToInode s' k \<noteq> None"
    using assms(3) by (cases rule: NewHandleStore_cases; auto)+
  show "hs_inv B s'" by (rule inv)
  show "hs_inodeToKey s' i = Some k \<Longrightarrow> hs_keyToInode s' k \<noteq> None" by (rule all)
  have bucket: "bolt_get B (hs_db s') bucketInodes = bolt_get B (hs_db s) bucketInodes"
    using init_tx_get(2) [OF assms(1) tx] assms(2,4) by (auto simp: hs_inv_def GetKey_def)
  show "hs_inodeToKey s' = hs_inodeToKey s"
  proof
    fix i
    have "map_option s3KeyToBolt (hs_inodeToKey s' i) = map_option s3KeyToBolt (hs_inodeToKey s i)"
      using inv assms(2) bucket by (simp add: hs_inv_def)
    then show "hs_inodeToKey s' i = hs_inodeToKey s i"
      using inv assms(2) by (cases "hs_inodeToKey s' i"; cases "hs_inodeToKey s i")
        (auto simp: hs_inv_def bolt_key.enc_inj)
  qed
qed

text \<open>
  C5. Every handle survives a restart: whatever the store had in use when the process
  stopped, the process that opens the database next resolves every inode to the same key, and
  if no inode had been shadowed by a rename, it also gives every key the same inode.
\<close>

theorem restart_keeps_handles:
  assumes "bolt_ok B" and "hs_inv B s" and "NewHandleStore B (Inr (hs_db s)) = Inr s'"
    and "GetKey s rootInode \<noteq> None"
  shows "(\<forall>i. GetKey s' i = GetKey s i) \<and>
    ((\<forall>i k. GetKey s i = Some k \<longrightarrow> hs_keyToInode s k = Some i) \<longrightarrow>
       (\<forall>k. GetInode s' k = GetInode s k))"
proof -
  note re = restart_inodes [OF assms]
  have "hs_keyToInode s' k = hs_keyToInode s k"
    if tight: "\<forall>i k. GetKey s i = Some k \<longrightarrow> hs_keyToInode s k = Some i" for k
  proof (cases "hs_keyToInode s' k")
    case None
    then have "hs_inodeToKey s i \<noteq> Some k" for i using re(1,3) by metis
    then have "hs_keyToInode s k \<noteq> Some i" for i using hs_inv_inverse [OF assms(2)] by blast
    with None show ?thesis by (metis not_None_eq)
  next
    case (Some i)
    then have "hs_inodeToKey s i = Some k" using hs_inv_inverse [OF re(2)] re(1) by simp
    with tight Some show ?thesis by (simp add: GetKey_def)
  qed
  then show ?thesis by (simp add: GetKey_def GetInode_def re(1))
qed

definition mem_s1 :: "memdb HandleStore" where
  "mem_s1 = snd (GetOrCreateInode mem_bolt mem_s0 ''a'')"

lemma mem_s0_inv: "hs_inv mem_bolt mem_s0"
proof -
  have "db_inv mem_bolt []"
    by (simp add: db_inv_def db_counter_ok_def counter_ok_def)
  with mem_bolt_ok show ?thesis using mem_open by (cases rule: NewHandleStore_cases) auto
qed

lemma mem_s1_inv: "hs_inv mem_bolt mem_s1"
  unfolding mem_s1_def
  by (rule GetOrCreateInode_inv [OF mem_bolt_ok mem_s0_inv]) (simp add: boltable_def nul_key_def)

lemma mem_s1_keys: "hs_inodeToKey mem_s1 = [1 \<mapsto> [], 2 \<mapsto> ''a'']" "hs_keyToInode mem_s1 = [[] \<mapsto> 1, ''a'' \<mapsto> 2]"
  by (simp_all add: mem_s1_def GetOrCreateInode_def getOrCreateLocked_def mem_simps)

theorem restart_keeps_handles_witness:
  "\<exists>s'. NewHandleStore mem_bolt (Inr (hs_db mem_s1)) = Inr s' \<and> GetKey s' 2 = Some ''a''
     \<and> GetInode s' ''a'' = 2"
proof -
  have inv: "db_inv mem_bolt (hs_db mem_s1)" using mem_s1_inv by (simp add: hs_inv_def)
  obtain s' where s': "NewHandleStore mem_bolt (Inr (hs_db mem_s1)) = Inr s'"
    using mem_bolt_ok inv by (cases rule: NewHandleStore_cases) (auto simp: init_tx_def nul_key_def split: if_splits)
  have root: "GetKey mem_s1 rootInode \<noteq> None" by (simp add: GetKey_def mem_s1_keys rootInode_def)
  from restart_keeps_handles [OF mem_bolt_ok mem_s1_inv s' root] s' show ?thesis
    by (auto simp: GetKey_def GetInode_def mem_s1_keys split: if_splits)
qed

text \<open>
  An NFS handle is eight bytes, decoding it gives back the inode it was made from (with or
  without trailing bytes), different inodes have different handles, and exactly the handles
  shorter than eight bytes are rejected.
\<close>

theorem handle_roundtrip:
  "length (InodeToHandle i) = 8 \<and> HandleToInode (InodeToHandle i @ rest) = Inr i
   \<and> (InodeToHandle i = InodeToHandle j \<longleftrightarrow> i = j)
   \<and> (is_ok (HandleToInode h) \<longleftrightarrow> 8 \<le> length h)"
proof -
  have "is_ok (HandleToInode h) \<longleftrightarrow> 8 \<le> length h"
    by (auto simp: HandleToInode_def BigEndian_Uint64_def)
  then show ?thesis by (simp add: InodeToHandle_def HandleToInode_def)
qed

text \<open>
  C12. \<open>GetOrCreateInode\<close>: on success the inode maps to the key and back, asking again returns
  the same inode and changes nothing, and every inode already in use keeps its key; on
  failure the mappings and the database are as they were.
\<close>

theorem getOrCreateInode_correct:
  assumes "bolt_ok B" and "hs_inv B s" and "boltable k" and "GetOrCreateInode B s k = (r, s')"
  shows "case r of
      Inr i \<Rightarrow> GetKey s' i = Some k \<and> GetInode s' k = i \<and> i \<noteq> 0
        \<and> GetOrCreateInode B s' k = (Inr i, s')
        \<and> (\<forall>j. GetKey s j \<noteq> None \<longrightarrow> GetKey s' j = GetKey s j)
    | Inl e \<Rightarrow> hs_inodeToKey s' = hs_inodeToKey s \<and> hs_keyToInode s' = hs_keyToInode s
        \<and> hs_db s' = hs_db s"
proof (cases r)
  case (Inl e)
  from assms(4) have "getOrCreateLocked B s k = (r, s')"
    by (simp add: GetOrCreateInode_locked)
  with assms(1-3) show ?thesis
    by (cases rule: getOrCreateLocked_cases) (auto simp: Inl)
next
  case (Inr i)
  then have i: "GetOrCreateInode B s k = (Inr i, s')" using assms(4) by simp
  note key = GetOrCreateInode_key [OF assms(1-3) i]
  moreover have "GetKey s' j = Some k'" if "GetKey s j = Some k'" for j k'
    using GetOrCreateInode_keep [OF assms(1-3) that] i by simp
  moreover have "GetOrCreateInode B s' k = (Inr i, s')"
    using key by (simp add: GetOrCreateInode_def)
  ultimately show ?thesis by (auto simp: Inr GetInode_def)
qed

theorem getOrCreateInode_correct_witness:
  "GetOrCreateInode mem_bolt mem_s0 ''a'' = (Inr 2, mem_s1) \<and> GetKey mem_s1 2 = Some ''a''
   \<and> GetOrCreateInode mem_bolt mem_s1 ''a'' = (Inr 2, mem_s1)"
proof -
  have r: "GetOrCreateInode mem_bolt mem_s0 ''a'' = (Inr 2, mem_s1)"
    by (simp add: mem_s1_def GetOrCreateInode_def getOrCreateLocked_def mem_simps)
  have "boltable ''a''" by (simp add: boltable_def nul_key_def)
  from getOrCreateInode_correct [OF mem_bolt_ok mem_s0_inv this r] r show ?thesis by simp
qed

text \<open>
  C30. The inode counter never wraps into numbers in use: the last 64-bit number is handed
  out, after it every request for a new inode fails with the overflow error and leaves the
  store unchanged, and inodes already handed out are still found.
\<close>

theorem inode_counter_overflow:
  assumes "hs_nextInode s = 2 ^ 64 - 1" and "GetOrCreateInode B s k = (Inr i, s')"
    and "hs_keyToInode s k = None" and "hs_keyToInode s' k' = None"
  shows "i = 2 ^ 64 - 1 \<and> hs_nextInode s' = 0 \<and> GetOrCreateInode B s' k = (Inr i, s')
    \<and> GetOrCreateInode B s' k'
        = (Inl (Errorf ''inode counter overflow: maximum inodes reached''), s')"
  using assms
  by (auto simp: GetOrCreateInode_def getOrCreateLocked_def Let_def split: option.splits prod.splits)

theorem inode_counter_overflow_witness:
  "\<exists>s'. GetOrCreateInode mem_bolt (mem_s0\<lparr>hs_nextInode := 2 ^ 64 - 1\<rparr>) ''a'' = (Inr (2 ^ 64 - 1), s')
     \<and> GetOrCreateInode mem_bolt s' ''b''
        = (Inl (Errorf ''inode counter overflow: maximum inodes reached''), s')"
proof -
  let ?s = "mem_s0\<lparr>hs_nextInode := 2 ^ 64 - 1\<rparr>"
  let ?s' = "snd (GetOrCreateInode mem_bolt ?s ''a'')"
  have r: "GetOrCreateInode mem_bolt ?s ''a'' = (Inr (2 ^ 64 - 1), ?s')"
    by (simp add: GetOrCreateInode_def getOrCreateLocked_def mem_simps)
  have "hs_keyToInode ?s ''a'' = None" "hs_keyToInode ?s' ''b'' = None"
    by (simp_all add: GetOrCreateInode_def getOrCreateLocked_def mem_simps)
  from inode_counter_overflow [OF _ r this] r show ?thesis by auto
qed

text \<open>
  C34. Renaming onto a key that already has an inode leaves that inode behind: it still resolves
  to the key, which now belongs to the renamed inode, and removing the key afterwards leaves
  the old inode resolving to a key that no longer exists.
\<close>

theorem rename_over_existing_leaves_stale_inode:
  assumes "hs_keyToInode s old = Some i" and "hs_inodeToKey s j = Some new" and "i \<noteq> j"
    and "RenameKey B s old new = (Inr (), s')" and "RemoveByKey B s' new = (Inr (), s'')"
  shows "GetKey s' i = Some new \<and> GetKey s' j = Some new \<and> GetInode s' new = i
    \<and> GetInode s'' new = 0 \<and> GetKey s'' i = None \<and> GetKey s'' j = Some new"
  using assms
  by (auto simp: RenameKey_def RemoveByKey_def GetKey_def GetInode_def
      split: option.splits prod.splits)

theorem rename_over_existing_leaves_stale_inode_witness:
  "\<exists>s' s''. RenameKey mem_bolt (snd (GetOrCreateInode mem_bolt mem_s1 ''b'')) ''a'' ''b'' = (Inr (), s')
     \<and> RemoveByKey mem_bolt s' ''b'' = (Inr (), s'') \<and> GetKey s'' 3 = Some ''b''"
proof -
  let ?s = "snd (GetOrCreateInode mem_bolt mem_s1 ''b'')"
  let ?s' = "snd (RenameKey mem_bolt ?s ''a'' ''b'')"
  let ?s'' = "snd (RemoveByKey mem_bolt ?s' ''b'')"
  have s: "hs_keyToInode ?s ''a'' = Some 2" "hs_inodeToKey ?s 3 = Some ''b''"
    by (simp_all add: mem_s1_def GetOrCreateInode_def getOrCreateLocked_def mem_simps)
  have r: "RenameKey mem_bolt ?s ''a'' ''b'' = (Inr (), ?s')"
    by (simp add: RenameKey_def s mem_simps)
  have "hs_keyToInode ?s' ''b'' = Some 2"
    by (simp add: RenameKey_def s mem_simps)
  then have d: "RemoveByKey mem_bolt ?s' ''b'' = (Inr (), ?s'')"
    by (simp add: RemoveByKey_def)
  from rename_over_existing_leaves_stale_inode [OF s _ r d] r d show ?thesis by auto
qed

end
