(* ===== verification/GoList.thy ===== *)
theory GoList
  imports Prelude
begin

text \<open>
  Go's \<open>container/list\<close>, which both caches use for their recency order, and the index the
  caches keep beside it: a map from keys to list elements. A list element is a pointer, so an
  element is a number here and its value lives in a store; an element that has been removed
  from the list keeps its value for whoever still holds the pointer.

  \<open>lru_ok\<close> says that the index and the list describe the same set of entries, \<open>recency\<close> is
  the abstract content (the entries, most recently used first), and the lemmas give the
  effect of each list operation on \<open>recency\<close>, so that a cache is compared with a
  specification over plain lists.
\<close>

subsection \<open>Package container/list\<close>

record 'v golist =
  gl_vals :: "nat \<Rightarrow> 'v option"
  gl_order :: "nat list"          \<comment> \<open>front first\<close>
  gl_next :: nat

definition list_New :: "'v golist" where
  "list_New = \<lparr>gl_vals = Map.empty, gl_order = [], gl_next = 0\<rparr>"

definition PushFront :: "'v \<Rightarrow> 'v golist \<Rightarrow> nat \<times> 'v golist" where
  "PushFront v l = (gl_next l,
     l\<lparr>gl_vals := (gl_vals l)(gl_next l \<mapsto> v), gl_order := gl_next l # gl_order l,
       gl_next := Suc (gl_next l)\<rparr>)"

definition PushBack :: "'v \<Rightarrow> 'v golist \<Rightarrow> nat \<times> 'v golist" where
  "PushBack v l = (gl_next l,
     l\<lparr>gl_vals := (gl_vals l)(gl_next l \<mapsto> v), gl_order := gl_order l @ [gl_next l],
       gl_next := Suc (gl_next l)\<rparr>)"

definition MoveToFront :: "nat \<Rightarrow> 'v golist \<Rightarrow> 'v golist" where
  "MoveToFront e l =
     (if e \<in> set (gl_order l) then l\<lparr>gl_order := e # removeAll e (gl_order l)\<rparr> else l)"

definition list_Remove :: "nat \<Rightarrow> 'v golist \<Rightarrow> 'v golist" where
  "list_Remove e l = l\<lparr>gl_order := removeAll e (gl_order l)\<rparr>"

definition Back :: "'v golist \<Rightarrow> nat option" where
  "Back l = (if gl_order l = [] then None else Some (last (gl_order l)))"

definition list_Len :: "'v golist \<Rightarrow> nat" where
  "list_Len l = length (gl_order l)"

definition set_val :: "nat \<Rightarrow> 'v \<Rightarrow> 'v golist \<Rightarrow> 'v golist" where
  "set_val e v l = l\<lparr>gl_vals := (gl_vals l)(e \<mapsto> v)\<rparr>"

subsection \<open>The index and the abstract content\<close>

definition golist_wf :: "'v golist \<Rightarrow> bool" where
  "golist_wf l \<longleftrightarrow> distinct (gl_order l) \<and>
     (\<forall>e\<in>set (gl_order l). e < gl_next l \<and> gl_vals l e \<noteq> None)"

definition val_of :: "'v golist \<Rightarrow> nat \<Rightarrow> 'v" where
  "val_of l e = the (gl_vals l e)"

definition lru_ok :: "('v \<Rightarrow> string) \<Rightarrow> (string \<Rightarrow> nat option) \<Rightarrow> 'v golist \<Rightarrow> bool" where
  "lru_ok keyof items l \<longleftrightarrow> golist_wf l \<and>
     (\<forall>k e. items k = Some e \<longleftrightarrow> e \<in> set (gl_order l) \<and> keyof (val_of l e) = k)"

definition recency :: "'v golist \<Rightarrow> 'v list" where
  "recency l = map (val_of l) (gl_order l)"

lemmas list_op_defs = PushFront_def PushBack_def MoveToFront_def list_Remove_def set_val_def

lemma val_of_Some: "gl_vals l e = Some v \<Longrightarrow> val_of l e = v"
  by (simp add: val_of_def)

lemma lru_val:
  "lru_ok keyof items l \<Longrightarrow> items k = Some e \<Longrightarrow>
     gl_vals l e = Some (val_of l e) \<and> e \<in> set (gl_order l) \<and> keyof (val_of l e) = k \<and> e < gl_next l"
  by (auto simp: lru_ok_def golist_wf_def val_of_def)

lemma lru_inj:
  assumes "lru_ok keyof items l" and "e \<in> set (gl_order l)" "e' \<in> set (gl_order l)"
    and "keyof (val_of l e) = keyof (val_of l e')"
  shows "e = e'"
proof -
  from assms have "items (keyof (val_of l e)) = Some e" "items (keyof (val_of l e)) = Some e'"
    by (auto simp: lru_ok_def)
  then show ?thesis by simp
qed

lemma lru_mem: "lru_ok keyof items l \<Longrightarrow> e \<in> set (gl_order l) \<Longrightarrow> items (keyof (val_of l e)) = Some e"
  by (simp add: lru_ok_def)

lemma lru_iff:
  "lru_ok keyof items l \<Longrightarrow> items k = Some e \<longleftrightarrow> e \<in> set (gl_order l) \<and> keyof (val_of l e) = k"
  by (simp add: lru_ok_def)

lemma lru_wf: "lru_ok keyof items l \<Longrightarrow> golist_wf l"
  by (simp add: lru_ok_def)

lemma lru_okI:
  assumes "golist_wf l"
    and "\<And>k e. items k = Some e \<Longrightarrow> e \<in> set (gl_order l) \<and> keyof (val_of l e) = k"
    and "\<And>e. e \<in> set (gl_order l) \<Longrightarrow> items (keyof (val_of l e)) = Some e"
  shows "lru_ok keyof items l"
  unfolding lru_ok_def using assms by blast

lemma lru_None:
  assumes "lru_ok keyof items l"
  shows "items k = None \<longleftrightarrow> k \<notin> keyof ` set (recency l)"
proof (cases "items k")
  case None
  with lru_mem [OF assms] show ?thesis by (force simp: recency_def)
next
  case (Some e)
  with lru_val [OF assms Some] show ?thesis by (auto simp: recency_def)
qed

lemma lru_dom: "lru_ok keyof items l \<Longrightarrow> dom items = keyof ` set (recency l)"
  by (intro set_eqI) (simp add: domIff lru_None)

lemma lru_distinct:
  assumes "lru_ok keyof items l"
  shows "distinct (map keyof (recency l))"
proof -
  have "distinct (gl_order l)" using assms by (simp add: lru_ok_def golist_wf_def)
  moreover have "inj_on (keyof \<circ> val_of l) (set (gl_order l))"
    by (rule inj_onI) (auto intro: lru_inj [OF assms])
  ultimately show ?thesis by (simp add: recency_def distinct_map)
qed

lemma lru_finite: "lru_ok keyof items l \<Longrightarrow> finite (dom items)"
proof -
  assume ok: "lru_ok keyof items l"
  then have "dom items \<subseteq> keyof ` set (recency l)"
    using lru_None [OF ok] by (auto simp: dom_def)
  then show ?thesis by (rule finite_subset) simp
qed

lemma length_recency [simp]: "length (recency l) = list_Len l"
  by (simp add: recency_def list_Len_def)

lemma lru_New [simp]: "lru_ok keyof Map.empty list_New" "recency list_New = []"
  by (simp_all add: lru_ok_def golist_wf_def list_New_def recency_def)

subsection \<open>Effect of the list operations\<close>

lemma lru_key_iff:
  assumes "lru_ok keyof items l" and "items k = Some e" and "x \<in> set (gl_order l)"
  shows "keyof (val_of l x) = k \<longleftrightarrow> x = e"
proof
  assume "keyof (val_of l x) = k"
  with lru_mem [OF assms(1,3)] assms(2) show "x = e" by simp
qed (use lru_val [OF assms(1,2)] in simp)

lemma filter_key_recency:
  assumes "lru_ok keyof items l" and "items k = Some e"
  shows "filter (\<lambda>v. keyof v \<noteq> k) (recency l) = map (val_of l) (removeAll e (gl_order l))"
proof -
  have "keyof (val_of l x) \<noteq> k \<longleftrightarrow> x \<noteq> e" if "x \<in> set (gl_order l)" for x
    using lru_key_iff [OF assms that] by simp
  then have "filter (\<lambda>x. keyof (val_of l x) \<noteq> k) (gl_order l) = filter (\<lambda>x. x \<noteq> e) (gl_order l)"
    by (intro filter_cong) auto
  then show ?thesis
    by (simp only: recency_def filter_map comp_def removeAll_eq_filter)
qed

lemma lru_Remove:
  assumes "lru_ok keyof items l" and "items k = Some e"
  shows "lru_ok keyof (items(k := None)) (list_Remove e l)"
    and "recency (list_Remove e l) = filter (\<lambda>v. keyof v \<noteq> k) (recency l)"
proof -
  have v: "val_of (list_Remove e l) = val_of l" by (auto simp: list_Remove_def val_of_def)
  have o: "set (gl_order (list_Remove e l)) = set (gl_order l) - {e}" by (simp add: list_Remove_def)
  show "lru_ok keyof (items(k := None)) (list_Remove e l)"
  proof (rule lru_okI, goal_cases)
    case 1
    show ?case using lru_wf [OF assms(1)] by (auto simp: golist_wf_def list_Remove_def distinct_removeAll)
  next
    case (2 k' x)
    then have "k' \<noteq> k" "items k' = Some x" by (auto split: if_splits)
    then show ?case using lru_val [OF assms(1), of k' x] lru_val [OF assms] unfolding o v by simp metis
  next
    case (3 x)
    then have "x \<in> set (gl_order l)" "x \<noteq> e" by (simp_all add: o)
    with lru_mem [OF assms(1), of x] assms(2) show ?case unfolding v by auto
  qed
  show "recency (list_Remove e l) = filter (\<lambda>v. keyof v \<noteq> k) (recency l)"
    unfolding filter_key_recency [OF assms] unfolding recency_def v by (simp add: list_Remove_def)
qed

lemma lru_MoveToFront:
  assumes "lru_ok keyof items l" and "items k = Some e"
  shows "lru_ok keyof items (MoveToFront e l)"
    and "recency (MoveToFront e l) = val_of l e # filter (\<lambda>v. keyof v \<noteq> k) (recency l)"
    and "val_of (MoveToFront e l) = val_of l"
proof -
  have e: "e \<in> set (gl_order l)" using lru_val [OF assms] by simp
  show v: "val_of (MoveToFront e l) = val_of l"
    by (auto simp: MoveToFront_def val_of_def)
  have o: "gl_order (MoveToFront e l) = e # removeAll e (gl_order l)"
    using e by (simp add: MoveToFront_def)
  have so: "set (gl_order (MoveToFront e l)) = set (gl_order l)" using e by (auto simp: o)
  show "lru_ok keyof items (MoveToFront e l)"
  proof (rule lru_okI, unfold so v, goal_cases)
    case 1
    have "gl_vals (MoveToFront e l) = gl_vals l" "gl_next (MoveToFront e l) = gl_next l"
      by (simp_all add: MoveToFront_def)
    with lru_wf [OF assms(1)] show ?case by (simp add: golist_wf_def so) (simp add: o distinct_removeAll)
  qed (use lru_iff [OF assms(1)] in auto)
  show "recency (MoveToFront e l) = val_of l e # filter (\<lambda>v. keyof v \<noteq> k) (recency l)"
    by (simp add: filter_key_recency [OF assms]) (simp add: recency_def v o)
qed

lemma val_of_upd [simp]: "val_of (l\<lparr>gl_vals := (gl_vals l)(e \<mapsto> v)\<rparr>) = (val_of l)(e := v)"
  by (auto simp: val_of_def)

lemma lru_set_val:
  assumes "lru_ok keyof items l" and "items k = Some e" and "keyof v = k"
  shows "lru_ok keyof items (set_val e v l)"
    and "recency (set_val e v l) = map (\<lambda>u. if keyof u = k then v else u) (recency l)"
    and "val_of (set_val e v l) e = v"
proof -
  note e = lru_val [OF assms(1,2)]
  have so: "gl_order (set_val e v l) = gl_order l" "val_of (set_val e v l) = (val_of l)(e := v)"
    by (simp_all add: set_val_def)
  have kv: "keyof (((val_of l)(e := v)) x) = keyof (val_of l x)" for x
    using e assms(3) by simp
  show "lru_ok keyof items (set_val e v l)"
  proof (rule lru_okI, unfold so kv, goal_cases)
    case 1
    with lru_wf [OF assms(1)] show ?case by (auto simp: golist_wf_def set_val_def)
  qed (use lru_iff [OF assms(1)] in auto)
  have "keyof (val_of l x) = k \<longleftrightarrow> x = e" if "x \<in> set (gl_order l)" for x
    by (rule lru_key_iff [OF assms(1,2) that])
  then show "recency (set_val e v l) = map (\<lambda>u. if keyof u = k then v else u) (recency l)"
    by (auto simp: recency_def set_val_def)
  show "val_of (set_val e v l) e = v" by (simp add: set_val_def)
qed

text \<open>Overwriting the value of an indexed element and moving it to the front.\<close>

lemma lru_update:
  assumes "lru_ok keyof items l" and "items k = Some e" and "keyof v = k"
  shows "lru_ok keyof items (MoveToFront e (set_val e v l))"
    and "recency (MoveToFront e (set_val e v l)) = v # filter (\<lambda>u. keyof u \<noteq> k) (recency l)"
proof -
  note sv = lru_set_val [OF assms]
  note mf = lru_MoveToFront [OF sv(1) assms(2)]
  show "lru_ok keyof items (MoveToFront e (set_val e v l))" by (rule mf(1))
  have "filter (\<lambda>u. keyof u \<noteq> k) (map (\<lambda>u. if keyof u = k then v else u) rs) = filter (\<lambda>u. keyof u \<noteq> k) rs" for rs
    using assms(3) by (induction rs) auto
  then show "recency (MoveToFront e (set_val e v l)) = v # filter (\<lambda>u. keyof u \<noteq> k) (recency l)"
    using mf(2) sv(2,3) by simp
qed

lemma lru_PushFront:
  assumes "lru_ok keyof items l" and "items (keyof v) = None" and "PushFront v l = (e, l')"
  shows "lru_ok keyof (items(keyof v \<mapsto> e)) l'" and "recency l' = v # recency l"
proof -
  have new: "gl_next l \<notin> set (gl_order l)"
    using assms(1) by (auto simp: lru_ok_def golist_wf_def)
  have l': "e = gl_next l" "gl_order l' = e # gl_order l" "val_of l' = (val_of l)(e := v)"
    "gl_next l' = Suc e" "gl_vals l' = (gl_vals l)(e \<mapsto> v)"
    using assms(3) by (auto simp: PushFront_def val_of_def)
  have "keyof (val_of l x) \<noteq> keyof v" if "x \<in> set (gl_order l)" for x
    using lru_mem [OF assms(1) that] assms(2) by auto
  note ne = this
  show "lru_ok keyof (items(keyof v \<mapsto> e)) l'"
  proof (rule lru_okI, goal_cases)
    case 1
    with lru_wf [OF assms(1)] new show ?case by (auto simp: golist_wf_def l')
  next
    case (2 k x)
    with lru_iff [OF assms(1), of k x] new show ?case by (auto simp: l' split: if_splits)
  next
    case (3 x)
    with lru_mem [OF assms(1), of x] ne [of x] new show ?case by (auto simp: l')
  qed
  show "recency l' = v # recency l"
    using new by (auto simp: recency_def l')
qed

lemma lru_PushBack:
  assumes "lru_ok keyof items l" and "items (keyof v) = None" and "PushBack v l = (e, l')"
  shows "lru_ok keyof (items(keyof v \<mapsto> e)) l'" and "recency l' = recency l @ [v]"
proof -
  have new: "gl_next l \<notin> set (gl_order l)"
    using assms(1) by (auto simp: lru_ok_def golist_wf_def)
  have l': "e = gl_next l" "gl_order l' = gl_order l @ [e]" "val_of l' = (val_of l)(e := v)"
    "gl_next l' = Suc e" "gl_vals l' = (gl_vals l)(e \<mapsto> v)"
    using assms(3) by (auto simp: PushBack_def val_of_def)
  have ne: "keyof (val_of l x) \<noteq> keyof v" if "x \<in> set (gl_order l)" for x
    using lru_mem [OF assms(1) that] assms(2) by auto
  show "lru_ok keyof (items(keyof v \<mapsto> e)) l'"
  proof (rule lru_okI, goal_cases)
    case 1
    with lru_wf [OF assms(1)] new show ?case by (auto simp: golist_wf_def l')
  next
    case (2 k x)
    with lru_iff [OF assms(1), of k x] new show ?case by (auto simp: l' split: if_splits)
  next
    case (3 x)
    with lru_mem [OF assms(1), of x] ne [of x] new show ?case by (auto simp: l')
  qed
  show "recency l' = recency l @ [v]"
    using new by (auto simp: recency_def l')
qed

lemma lru_Back:
  assumes "lru_ok keyof items l" and "Back l = Some e"
  shows "items (keyof (val_of l e)) = Some e" and "val_of l e = last (recency l)"
    and "recency l \<noteq> []" and "recency (list_Remove e l) = butlast (recency l)"
proof -
  have ne: "gl_order l \<noteq> []" and e: "e = last (gl_order l)"
    using assms(2) by (auto simp: Back_def split: if_splits)
  then show "items (keyof (val_of l e)) = Some e" by (simp add: lru_mem [OF assms(1)])
  show "val_of l e = last (recency l)" "recency l \<noteq> []"
    using ne e by (simp_all add: recency_def last_map)
  obtain xs where xs: "gl_order l = xs @ [e]" using ne e by (metis append_butlast_last_id)
  moreover have "distinct (gl_order l)" using assms(1) by (simp add: lru_ok_def golist_wf_def)
  ultimately have "removeAll e (gl_order l) = xs" by simp
  then show "recency (list_Remove e l) = butlast (recency l)"
    by (simp add: recency_def list_Remove_def val_of_def xs)
qed

lemma list_Len_MoveToFront [simp]: "golist_wf l \<Longrightarrow> list_Len (MoveToFront e l) = list_Len l"
  using length_pos_if_in_set [of e "gl_order l"]
  by (auto simp: list_Len_def MoveToFront_def golist_wf_def length_removeAll_distinct)

lemma Back_None: "Back l = None \<longleftrightarrow> recency l = []"
  by (simp add: Back_def recency_def)

end
