(* ===== verification/CacheSpec.thy ===== *)
theory CacheSpec
  imports GoList
begin

text \<open>
  What a cache promises its clients, independently of how it evicts: it may forget, it must
  never invent. The specification is an unbounded map that forgets nothing; \<open>lossy_cache\<close>
  is the contract that each operation of a cache leaves a part of what the specification
  would hold, and its lemmas carry the contract over sequences of operations. The metadata
  cache provides it twice (entries and directory listings) and the data cache once.

  The second half is the recency list an LRU cache refines: \<open>lru_put\<close>, \<open>lru_touch\<close> and
  \<open>lru_drop\<close> over plain lists, with the position of a key as the measure of how soon it is
  evicted.
\<close>

subsection \<open>The contract of a cache\<close>

datatype ('k, 'v) map_op = MPut 'k 'v | MDrop "'k \<Rightarrow> bool" | MNop

fun map_apply :: "('k, 'v) map_op \<Rightarrow> ('k \<Rightarrow> 'v option) \<Rightarrow> 'k \<Rightarrow> 'v option" where
  "map_apply (MPut k v) m = m(k \<mapsto> v)"
| "map_apply (MDrop P) m = (\<lambda>k. if P k then None else m k)"
| "map_apply MNop m = m"

lemma map_apply_mono: "m \<subseteq>\<^sub>m m' \<Longrightarrow> map_apply x m \<subseteq>\<^sub>m map_apply x m'"
  by (cases x) (auto simp: map_le_def dom_def split: if_splits)

lemma map_leD: "m \<subseteq>\<^sub>m m' \<Longrightarrow> m k = Some v \<Longrightarrow> m' k = Some v"
  by (metis map_le_def domI)

lemma map_leI: "(\<And>k v. m k = Some v \<Longrightarrow> m' k = Some v) \<Longrightarrow> m \<subseteq>\<^sub>m m'"
  by (auto simp: map_le_def dom_def)

locale lossy_cache =
  fixes view :: "'s \<Rightarrow> 'k \<Rightarrow> 'v option"
    and step :: "'op \<Rightarrow> 's \<Rightarrow> 's"
    and effect :: "'op \<Rightarrow> ('k, 'v) map_op"
    and inv :: "'s \<Rightarrow> bool"
  assumes inv_step: "inv s \<Longrightarrow> inv (step x s)"
    and view_step: "inv s \<Longrightarrow> view (step x s) \<subseteq>\<^sub>m map_apply (effect x) (view s)"
begin

text \<open>A run of the cache holds a part of what the same run of the unbounded map holds.\<close>

lemma run_view:
  assumes "inv s" and "view s \<subseteq>\<^sub>m m"
  shows "view (fold step xs s) \<subseteq>\<^sub>m fold (\<lambda>x. map_apply (effect x)) xs m"
  using assms
proof (induction xs arbitrary: s m)
  case (Cons x xs)
  have "view (step x s) \<subseteq>\<^sub>m map_apply (effect x) m"
    using view_step [OF Cons.prems(1)] map_apply_mono [OF Cons.prems(2)] by (rule map_le_trans)
  with Cons inv_step show ?case by simp
qed simp

text \<open>
  Coherence: when every value written is the one an outside world assigns to its key, every
  value the cache holds is.
\<close>

lemma run_coherent:
  assumes "inv s"
    and "\<And>k v. view s k = Some v \<Longrightarrow> good k v"
    and "\<And>x k v. x \<in> set xs \<Longrightarrow> effect x = MPut k v \<Longrightarrow> good k v"
    and "view (fold step xs s) k = Some v"
  shows "good k v"
  using assms
proof (induction xs arbitrary: s)
  case (Cons x xs)
  have "good k v" if "view (step x s) k = Some v" for k v
    using map_leD [OF view_step [OF Cons.prems(1)] that] Cons.prems(2) Cons.prems(3) [of x]
    by (cases "effect x") (auto split: if_splits)
  from this show ?case
  proof (rule Cons.IH [OF inv_step [OF Cons.prems(1)]])
    show "good k v" if "y \<in> set xs" "effect y = MPut k v" for y k v
      using that Cons.prems(3) [of y] by simp
  qed (use Cons.prems(4) in simp_all)
qed simp

end

text \<open>Such a cache is a machine whose invariant no operation can break.\<close>

sublocale lossy_cache \<subseteq> machine step inv "\<lambda>_. True"
  by unfold_locales (rule inv_step)

context lossy_cache
begin

lemma run_inv: "inv s \<Longrightarrow> inv (fold step xs s)"
  by (rule fold_inv) (simp_all add: list_all_iff)

end

subsection \<open>Recency lists\<close>

definition lru_drop :: "('v \<Rightarrow> string) \<Rightarrow> string \<Rightarrow> 'v list \<Rightarrow> 'v list" where
  "lru_drop keyof k rs = filter (\<lambda>v. keyof v \<noteq> k) rs"

definition lru_find :: "('v \<Rightarrow> string) \<Rightarrow> string \<Rightarrow> 'v list \<Rightarrow> 'v option" where
  "lru_find keyof k rs = find (\<lambda>v. keyof v = k) rs"

definition lru_put :: "('v \<Rightarrow> string) \<Rightarrow> nat \<Rightarrow> 'v \<Rightarrow> 'v list \<Rightarrow> 'v list" where
  "lru_put keyof cap v rs =
     (if lru_find keyof (keyof v) rs \<noteq> None then v # lru_drop keyof (keyof v) rs
      else if length rs \<ge> cap then v # butlast rs else v # rs)"

text \<open>The number of entries used more recently than the entry of a key.\<close>

fun lru_pos :: "('v \<Rightarrow> string) \<Rightarrow> string \<Rightarrow> 'v list \<Rightarrow> nat" where
  "lru_pos keyof k [] = 0"
| "lru_pos keyof k (v # rs) = (if keyof v = k then 0 else Suc (lru_pos keyof k rs))"

lemma lru_find_iff: "distinct (map keyof rs) \<Longrightarrow> lru_find keyof k rs = Some v \<longleftrightarrow> v \<in> set rs \<and> keyof v = k"
  by (induction rs) (auto simp: lru_find_def)

lemma lru_find_Cons [simp]:
  "lru_find keyof k [] = None"
  "lru_find keyof k (v # rs) = (if keyof v = k then Some v else lru_find keyof k rs)"
  by (simp_all add: lru_find_def)

lemma lru_find_SomeD: "lru_find keyof k rs = Some v \<Longrightarrow> v \<in> set rs \<and> keyof v = k"
  by (auto simp: lru_find_def find_Some_iff)

lemma lru_find_None: "lru_find keyof k rs = None \<longleftrightarrow> k \<notin> keyof ` set rs"
  by (induction rs) (auto simp: lru_find_def)

lemma lru_find_drop: "lru_find keyof k (lru_drop keyof k' rs) = (if k = k' then None else lru_find keyof k rs)"
  by (induction rs) (auto simp: lru_find_def lru_drop_def)

lemma lru_drop_id: "lru_find keyof k rs = None \<Longrightarrow> lru_drop keyof k rs = rs"
  by (induction rs) (auto simp: lru_find_def lru_drop_def split: if_splits)

lemma lru_pos_drop: "lru_pos keyof k (lru_drop keyof k' rs) \<le> lru_pos keyof k rs" if "k \<noteq> k'"
  using that by (induction rs) (auto simp: lru_drop_def)

lemma lru_pos_filter:
  assumes "v \<in> set rs" and "keyof v = k" and "distinct (map keyof rs)" and "P v"
  shows "lru_pos keyof k (filter P rs) \<le> lru_pos keyof k rs"
  using assms by (induction rs) auto

lemma lru_butlast:
  assumes "lru_find keyof k rs = Some v" and "Suc (lru_pos keyof k rs) < length rs"
  shows "lru_find keyof k (butlast rs) = Some v \<and> lru_pos keyof k (butlast rs) = lru_pos keyof k rs"
  using assms
proof (induction rs)
  case (Cons u rs)
  then show ?case by (cases rs) (auto simp: lru_find_def split: if_splits)
qed (simp add: lru_find_def)

text \<open>An entry that fewer than \<open>cap\<close> others precede survives the next insertion.\<close>

lemma lru_put_keeps:
  assumes "lru_find keyof k rs = Some v" and "keyof u \<noteq> k" and "length rs \<le> cap"
    and "Suc (lru_pos keyof k rs) < cap"
  shows "lru_find keyof k (lru_put keyof cap u rs) = Some v \<and>
         lru_pos keyof k (lru_put keyof cap u rs) \<le> Suc (lru_pos keyof k rs)"
proof (cases "lru_find keyof (keyof u) rs")
  case None
  then show ?thesis
    using assms lru_butlast [OF assms(1)] by (auto simp: lru_put_def)
next
  case (Some w)
  with assms have "lru_find keyof k (lru_drop keyof (keyof u) rs) = Some v"
    by (simp add: lru_find_drop)
  with Some assms lru_pos_drop [of k "keyof u" keyof rs] show ?thesis
    by (auto simp: lru_put_def)
qed

lemma lru_find_put:
  assumes "lru_find keyof k (lru_put keyof cap u rs) = Some v"
  shows "if k = keyof u then v = u else v \<in> set rs \<and> keyof v = k"
  using assms
  by (auto simp: lru_put_def lru_drop_def split: if_splits dest!: lru_find_SomeD dest: in_set_butlastD)

lemma length_lru_put: "length rs \<le> cap \<Longrightarrow> 0 < cap \<Longrightarrow> distinct (map keyof rs) \<Longrightarrow> length (lru_put keyof cap u rs) \<le> cap"
proof -
  assume a: "length rs \<le> cap" "0 < cap" "distinct (map keyof rs)"
  have "length (lru_drop keyof (keyof u) rs) < length rs" if "lru_find keyof (keyof u) rs \<noteq> None"
    using that by (auto simp: lru_drop_def lru_find_None intro!: length_filter_less)
  with a show ?thesis by (auto simp: lru_put_def)
qed

lemma lru_find_recency:
  assumes "lru_ok keyof items l"
  shows "lru_find keyof k (recency l) = map_option (val_of l) (items k)"
proof (cases "items k")
  case None
  with lru_None [OF assms, of k] show ?thesis by (simp add: lru_find_None)
next
  case (Some e)
  with lru_val [OF assms Some] show ?thesis
    by (simp add: lru_find_iff [OF lru_distinct [OF assms]]) (simp add: recency_def)
qed

end
