(* ===== verification/GoStrings.thy ===== *)
theory GoStrings
  imports Prelude
begin

text \<open>
  The parts of Go's \<open>strings\<close>, \<open>path/filepath\<close> and \<open>strconv\<close> packages the gateway uses, on
  byte strings. \<open>strings.ToLower\<close> and \<open>strings.EqualFold\<close> are the ASCII fragments of the
  library functions: the gateway applies them to endpoint host names and to metadata keys
  made of ASCII letters none of which has a non-ASCII case variant.
\<close>

subsection \<open>Package strings\<close>

definition HasPrefix :: "string \<Rightarrow> string \<Rightarrow> bool" where
  "HasPrefix s p = prefix p s"

definition HasSuffix :: "string \<Rightarrow> string \<Rightarrow> bool" where
  "HasSuffix s p = suffix p s"

definition TrimPrefix :: "string \<Rightarrow> string \<Rightarrow> string" where
  "TrimPrefix s p = (if HasPrefix s p then drop (length p) s else s)"

definition TrimSuffix :: "string \<Rightarrow> string \<Rightarrow> string" where
  "TrimSuffix s p = (if HasSuffix s p then take (length s - length p) s else s)"

text \<open>\<open>strings.LastIndex\<close> for a one-byte needle: the last position of the byte, or -1.\<close>

definition LastIndex :: "string \<Rightarrow> char \<Rightarrow> int" where
  "LastIndex s c =
     (if c \<in> set s then int (length s) - 1 - int (length (takeWhile (\<lambda>d. d \<noteq> c) (rev s)))
      else -1)"

fun Split :: "string \<Rightarrow> char \<Rightarrow> string list" where
  "Split [] c = [[]]"
| "Split (x # xs) c =
     (if x = c then [] # Split xs c
      else (case Split xs c of [] \<Rightarrow> [[x]] | p # ps \<Rightarrow> (x # p) # ps))"

fun Join :: "string list \<Rightarrow> string \<Rightarrow> string" where
  "Join [] sep = []"
| "Join [p] sep = p"
| "Join (p # ps) sep = p @ sep @ Join ps sep"

definition Contains :: "string \<Rightarrow> string \<Rightarrow> bool" where
  "Contains s sub = list_ex (\<lambda>i. prefix sub (drop i s)) [0..<Suc (length s)]"

definition lower_byte :: "char \<Rightarrow> char" where
  "lower_byte c =
     (let n = of_char c :: nat in if 65 \<le> n \<and> n \<le> 90 then char_of (n + 32) else c)"

definition ToLower :: "string \<Rightarrow> string" where
  "ToLower s = map lower_byte s"

definition EqualFold :: "string \<Rightarrow> string \<Rightarrow> bool" where
  "EqualFold s t = (ToLower s = ToLower t)"

subsection \<open>Package path/filepath: Clean\<close>

text \<open>
  \<open>filepath.Clean\<close> on Unix, by components: empty components and \<open>.\<close> vanish, a \<open>..\<close> removes
  the component before it, a \<open>..\<close> with nothing to remove vanishes in a rooted path and is
  kept in a relative one. The stack holds the components written so far, last first.
\<close>

fun clean_comps :: "bool \<Rightarrow> string list \<Rightarrow> string list \<Rightarrow> string list" where
  "clean_comps rooted st [] = rev st"
| "clean_comps rooted st (c # cs) =
     (if c = [] \<or> c = ''.'' then clean_comps rooted st cs
      else if c = ''..'' then
        (case st of
           [] \<Rightarrow> clean_comps rooted (if rooted then [] else [''..'']) cs
         | t # ts \<Rightarrow> if t = ''..'' then clean_comps rooted (''..'' # st) cs
                     else clean_comps rooted ts cs)
      else clean_comps rooted (c # st) cs)"

definition Clean :: "string \<Rightarrow> string" where
  "Clean p =
     (let rooted = HasPrefix p ''/'';
          cs = clean_comps rooted [] (Split p (CHR ''/''))
      in if rooted then ''/'' @ Join cs ''/''
         else if cs = [] then ''.'' else Join cs ''/'')"

definition filepath_Join :: "string list \<Rightarrow> string" where
  "filepath_Join elems =
     (let es = filter (\<lambda>e. e \<noteq> []) elems in if es = [] then [] else Clean (Join es ''/''))"

definition filepath_Dir :: "string \<Rightarrow> string" where
  "filepath_Dir p = Clean (take (nat (LastIndex p (CHR ''/'') + 1)) p)"

subsection \<open>Package strconv\<close>

fun digits_base :: "nat \<Rightarrow> nat \<Rightarrow> string" where
  "digits_base b n =
     (if b \<le> 1 \<or> n < b then [char_of (48 + n)]
      else digits_base b (n div b) @ [char_of (48 + n mod b)])"

declare digits_base.simps [simp del]

definition FormatUint :: "nat \<Rightarrow> nat \<Rightarrow> string" where
  "FormatUint v b = digits_base b v"

text \<open>The format verb \<open>%q\<close>, for names without control characters.\<close>

definition quoted :: "string \<Rightarrow> string" where
  "quoted s = (let q = [char_of (34::nat)] in
     q @ concat (map (\<lambda>c. if c = char_of (34::nat) \<or> c = char_of (92::nat) then [char_of (92::nat), c] else [c]) s) @ q)"

definition Itoa :: "int \<Rightarrow> string" where
  "Itoa i = (if i < 0 then ''-'' @ digits_base 10 (nat (- i)) else digits_base 10 (nat i))"

text \<open>The value of a decimal or octal digit; the bases used are at most ten.\<close>

definition digit_val :: "char \<Rightarrow> nat option" where
  "digit_val c = (let n = of_char c :: nat in if 48 \<le> n \<and> n \<le> 57 then Some (n - 48) else None)"

fun parse_digits :: "nat \<Rightarrow> nat \<Rightarrow> string \<Rightarrow> nat option" where
  "parse_digits b acc [] = Some acc"
| "parse_digits b acc (c # cs) =
     (case digit_val c of
        None \<Rightarrow> None
      | Some d \<Rightarrow> if d < b then parse_digits b (acc * b + d) cs else None)"

text \<open>
  \<open>strconv.ParseUint(s, base, bits)\<close>: a syntax error on an empty string or a foreign
  character, a range error on a value that needs more bits.
\<close>

definition ParseUint :: "string \<Rightarrow> nat \<Rightarrow> nat \<Rightarrow> nat result" where
  "ParseUint s b bits =
     (if s = [] then Inl (Errorf ''invalid syntax'')
      else case parse_digits b 0 s of
        None \<Rightarrow> Inl (Errorf ''invalid syntax'')
      | Some n \<Rightarrow> if n < 2 ^ bits then Inr n else Inl (Errorf ''value out of range''))"

definition ParseInt :: "string \<Rightarrow> nat \<Rightarrow> nat \<Rightarrow> int result" where
  "ParseInt s b bits =
     (let neg = HasPrefix s ''-'';
          digits = (if neg \<or> HasPrefix s ''+'' then tl s else s)
      in if digits = [] then Inl (Errorf ''invalid syntax'')
         else case parse_digits b 0 digits of
           None \<Rightarrow> Inl (Errorf ''invalid syntax'')
         | Some n \<Rightarrow>
             if neg then if n \<le> 2 ^ (bits - 1) then Inr (- int n)
                         else Inl (Errorf ''value out of range'')
             else if n < 2 ^ (bits - 1) then Inr (int n)
                  else Inl (Errorf ''value out of range''))"

definition Atoi :: "string \<Rightarrow> int result" where
  "Atoi s = ParseInt s 10 64"

subsection \<open>Facts about splitting and joining\<close>

lemma Split_neq_Nil [simp]: "Split s c \<noteq> []"
  by (cases s) (auto split: list.splits)

lemma Split_no_sep: "p \<in> set (Split s c) \<Longrightarrow> c \<notin> set p"
proof (induction s arbitrary: p)
  case (Cons x xs)
  then show ?case by (cases "Split xs c") (auto split: if_splits)
qed simp

lemma Split_id [simp]: "c \<notin> set p \<Longrightarrow> Split p c = [p]"
  by (induction p) auto

lemma Split_append: "c \<notin> set p \<Longrightarrow> Split (p @ c # s) c = p # Split s c"
  by (induction p) auto

lemma Join_Cons: "ps \<noteq> [] \<Longrightarrow> Join (p # ps) sep = p @ sep @ Join ps sep"
  by (cases ps) auto

lemma Join_Split [simp]: "Join (Split s c) [c] = s"
proof (induction s)
  case (Cons x xs)
  obtain q qs where q: "Split xs c = q # qs"
    by (cases "Split xs c") auto
  with Cons.IH have "Join (q # qs) [c] = xs" by simp
  then show ?case
    by (cases qs) (auto simp: q)
qed simp

lemma Split_Join:
  "ps \<noteq> [] \<Longrightarrow> \<forall>p\<in>set ps. c \<notin> set p \<Longrightarrow> Split (Join ps [c]) c = ps"
proof (induction ps)
  case (Cons p ps)
  then show ?case
    by (cases "ps = []") (auto simp: Join_Cons Split_append)
qed simp

lemma Split_snoc: "Split (s @ [c]) c = Split s c @ [[]]"
proof (induction s)
  case (Cons x xs)
  then show ?case by (cases "Split xs c") auto
qed simp

lemma Split_last_sep: "s \<noteq> [] \<Longrightarrow> last s = c \<Longrightarrow> [] \<in> set (Split s c)"
  by (cases s rule: rev_cases) (auto simp: Split_snoc)

lemma Split_hd_sep: "s \<noteq> [] \<Longrightarrow> hd s = c \<Longrightarrow> [] \<in> set (Split s c)"
  by (cases s) auto

subsection \<open>Facts about prefixes, suffixes and the last index\<close>

lemma HasSuffix_byte: "HasSuffix s [c] \<longleftrightarrow> s \<noteq> [] \<and> last s = c"
  by (cases s rule: rev_cases) (auto simp: HasSuffix_def)

lemma HasPrefix_byte: "HasPrefix s [c] \<longleftrightarrow> s \<noteq> [] \<and> hd s = c"
  by (cases s) (auto simp: HasPrefix_def)

lemma TrimSuffix_snoc [simp, go_simps]: "TrimSuffix (s @ [c]) [c] = s"
  by (simp add: TrimSuffix_def HasSuffix_byte)

lemma TrimSuffix_id: "\<not> HasSuffix s p \<Longrightarrow> TrimSuffix s p = s"
  by (simp add: TrimSuffix_def)

lemma TrimSuffix_Nil [simp, go_simps]: "TrimSuffix [] p = []"
  by (auto simp: TrimSuffix_def HasSuffix_def)

lemma TrimPrefix_append [simp, go_simps]: "TrimPrefix (p @ s) p = s"
  by (simp add: TrimPrefix_def HasPrefix_def)

lemma TrimPrefix_Cons [simp, go_simps]: "TrimPrefix (c # s) [c] = s"
  by (simp add: TrimPrefix_def HasPrefix_def)

lemma TrimPrefix_id: "\<not> HasPrefix s p \<Longrightarrow> TrimPrefix s p = s"
  by (simp add: TrimPrefix_def)

lemma LastIndex_none [simp, go_simps]: "c \<notin> set s \<Longrightarrow> LastIndex s c = -1"
  by (simp add: LastIndex_def)

lemma LastIndex_last [simp, go_simps]:
  "c \<notin> set t \<Longrightarrow> LastIndex (s @ c # t) c = int (length s)"
proof -
  assume "c \<notin> set t"
  then have "takeWhile (\<lambda>d. d \<noteq> c) (rev t @ c # rev s) = rev t"
    by (subst takeWhile_append2) auto
  then show ?thesis by (simp add: LastIndex_def)
qed

lemma LastIndex_neg: "LastIndex s c < 0 \<longleftrightarrow> c \<notin> set s"
proof (cases "c \<in> set s")
  case True
  then obtain t u where "s = t @ c # u" "c \<notin> set u"
    by (blast dest: split_list_last)
  then show ?thesis by simp
qed simp

subsection \<open>Facts about Clean\<close>

definition plain_comp :: "string \<Rightarrow> bool" where
  "plain_comp c \<longleftrightarrow> c \<noteq> [] \<and> c \<noteq> ''.'' \<and> c \<noteq> ''..'' \<and> CHR ''/'' \<notin> set c"

definition rel_comp :: "string \<Rightarrow> bool" where
  "rel_comp c \<longleftrightarrow> plain_comp c \<or> c = ''..''"

lemma rel_compD: "rel_comp c \<Longrightarrow> c \<noteq> [] \<and> CHR ''/'' \<notin> set c"
  by (auto simp: rel_comp_def plain_comp_def)

lemma clean_comps_all:
  assumes P: "\<And>c. plain_comp c \<Longrightarrow> P c" and up: "rooted \<or> P ''..''"
    and "list_all P st" and "list_all (\<lambda>c. CHR ''/'' \<notin> set c) cs"
  shows "list_all P (clean_comps rooted st cs)"
  using assms(3,4)
proof (induction cs arbitrary: st)
  case (Cons c cs)
  have plain: "P c" if "\<not> (c = [] \<or> c = ''.'')" "c \<noteq> ''..''"
    using that Cons.prems(2) by (intro P) (simp add: plain_comp_def)
  show ?case
  proof (cases "c = [] \<or> c = ''.'' \<or> c \<noteq> ''..''")
    case True
    with Cons plain show ?thesis by auto
  next
    case False
    with Cons up show ?thesis by (cases st) auto
  qed
qed (simp add: list_all_iff)

text \<open>A rooted path keeps plain components only; a relative one may also keep \<open>..\<close>.\<close>

lemma clean_comps_rooted:
  "list_all (\<lambda>c. CHR ''/'' \<notin> set c) cs \<Longrightarrow> list_all plain_comp (clean_comps True [] cs)"
  by (rule clean_comps_all) auto

lemma clean_comps_relative:
  "list_all (\<lambda>c. CHR ''/'' \<notin> set c) cs \<Longrightarrow>
     list_all rel_comp (clean_comps r [] cs)"
  by (rule clean_comps_all) (auto simp: rel_comp_def)

lemma Split_list_all_no_sep: "list_all (\<lambda>p. c \<notin> set p) (Split s c)"
  by (auto simp: list_all_iff dest: Split_no_sep)

text \<open>Plain components pass through unchanged.\<close>

lemma clean_comps_plain: "list_all plain_comp cs \<Longrightarrow> clean_comps r st cs = rev st @ cs"
  by (induction cs arbitrary: st) (auto simp: plain_comp_def)

lemma Split_app: "Split (a @ c # s) c = Split a c @ Split s c"
proof (induction a)
  case (Cons x a)
  then show ?case by (cases "Split a c") auto
qed simp

lemma last_Split_app: "c \<notin> set b \<Longrightarrow> last (Split (a @ c # b) c) = b"
  by (simp add: Split_app)

lemma clean_comps_append_plain:
  "list_all plain_comp ds \<Longrightarrow> clean_comps r st (cs @ ds) = clean_comps r st cs @ ds"
proof (induction cs arbitrary: st)
  case Nil
  then show ?case by (simp add: clean_comps_plain)
next
  case (Cons c cs)
  then show ?case by (auto split: list.split)
qed

text \<open>Cleaning keeps a plain last component.\<close>

lemma Clean_last:
  assumes "plain_comp k"
  shows "last (Split (Clean (a @ CHR ''/'' # k)) (CHR ''/'')) = k"
proof -
  let ?r = "HasPrefix (a @ CHR ''/'' # k) ''/''"
  define cs where "cs = clean_comps ?r [] (Split a (CHR ''/''))"
  have k: "CHR ''/'' \<notin> set k" using assms by (simp add: plain_comp_def)
  have c: "clean_comps ?r [] (Split (a @ CHR ''/'' # k) (CHR ''/'')) = cs @ [k]"
    using assms k by (simp add: Split_app clean_comps_append_plain cs_def)
  have "list_all rel_comp cs"
    unfolding cs_def by (rule clean_comps_relative) (rule Split_list_all_no_sep)
  then have "\<forall>p\<in>set (cs @ [k]). CHR ''/'' \<notin> set p"
    using k by (auto simp: list_all_iff dest: rel_compD)
  then have "last (Split (Join (cs @ [k]) ''/'') (CHR ''/'')) = k"
    by (subst Split_Join) auto
  then show ?thesis
    unfolding Clean_def Let_def c by simp
qed

subsection \<open>Facts about numbers\<close>

lemma parse_digits_append:
  "parse_digits b acc (xs @ ys) =
     (case parse_digits b acc xs of None \<Rightarrow> None | Some a \<Rightarrow> parse_digits b a ys)"
  by (induction xs arbitrary: acc) (auto split: option.splits)

lemma digit_val_digit [simp]: "d < 10 \<Longrightarrow> digit_val (char_of (48 + d)) = Some d"
  by (simp add: digit_val_def Let_def)

lemma parse_digits_base:
  assumes "2 \<le> b" and "b \<le> 10"
  shows "parse_digits b 0 (digits_base b n) = Some n"
proof (induction n rule: less_induct)
  case (less n)
  show ?case
  proof (cases "n < b")
    case True
    with assms show ?thesis by (subst digits_base.simps) simp
  next
    case False
    with assms have "n div b < n" by (intro div_less_dividend) auto
    then have IH: "parse_digits b 0 (digits_base b (n div b)) = Some (n div b)"
      by (rule less)
    have "n mod b < b" and "n mod b < 10"
      using assms by (auto intro: less_le_trans [of _ b])
    with False assms IH show ?thesis
      by (subst digits_base.simps) (simp add: parse_digits_append)
  qed
qed

lemma digits_base_neq_Nil [simp]: "digits_base b n \<noteq> []"
  by (subst digits_base.simps) simp

lemma digits_base_digit: "2 \<le> b \<Longrightarrow> b \<le> 10 \<Longrightarrow> c \<in> set (digits_base b n) \<Longrightarrow> \<exists>d::nat. d < 10 \<and> c = char_of (48 + d)"
proof (induction n rule: less_induct)
  case (less n)
  have "n mod b < b" using less.prems(1) by simp
  then have m: "n mod b < 10" using less.prems(2) by simp
  show ?case
  proof (cases "n < b")
    case True
    then have "digits_base b n = [char_of (48 + n)]" by (subst digits_base.simps) simp
    with less.prems True show ?thesis by (intro exI [of _ n]) simp
  next
    case False
    then have eq: "digits_base b n = digits_base b (n div b) @ [char_of (48 + n mod b)]"
      using less.prems by (subst digits_base.simps) simp
    have "n div b < n" using False less.prems by (intro div_less_dividend) auto
    from less.IH [OF this less.prems(1,2)] less.prems(3) m show ?thesis
      unfolding eq by auto
  qed
qed

lemma FormatUint_no_slash: "CHR ''/'' \<notin> set (FormatUint n 10)"
proof
  assume "CHR ''/'' \<in> set (FormatUint n 10)"
  then obtain d :: nat where "d < 10" and "CHR ''/'' = char_of (48 + d)"
    using digits_base_digit [of 10 "CHR ''/''" n] by (auto simp: FormatUint_def)
  then have "digit_val (CHR ''/'') = Some d" by simp
  then show False by (simp add: digit_val_def)
qed

end
