(* ===== verification/Sha256.thy ===== *)
theory Sha256
  imports Prelude
begin

unbundle bit_operations_syntax

text \<open>
  The parts of Go's \<open>crypto/sha256\<close> and \<open>encoding/hex\<close> that \<open>cacheKey\<close> of
  \<^verbatim>\<open>internal/cache/data.go\<close> uses: \<open>sha256.Sum256\<close> as FIPS 180-4 defines it and
  \<open>hex.EncodeToString\<close>. The only facts the caches need are the shape of the digest (32
  bytes, 64 hexadecimal characters); no theorem assumes that the hash has no collisions.
\<close>

subsection \<open>Package crypto/sha256\<close>

text \<open>
  The constants are the first 32 bits of the fractional parts of roots of primes: of the cube
  roots of the first 64 for the rounds, of the square roots of the first 8 for the initial
  state. \<open>int_root\<close> finds the integer root bit by bit.
\<close>

definition int_root :: "nat \<Rightarrow> nat \<Rightarrow> nat" where
  "int_root e n = fold (\<lambda>b r. if (r + 2 ^ b) ^ e \<le> n then r + 2 ^ b else r) (rev [0..<40]) 0"

definition sha_primes :: "nat list" where
  "sha_primes = filter (\<lambda>n. list_all (\<lambda>d. n mod d \<noteq> 0) [2..<n]) [2..<312]"

definition sha_K :: "uint32 list" where
  "sha_K = map (\<lambda>p. word_of_nat (int_root 3 (p * 2 ^ 96))) sha_primes"

definition sha_H0 :: "uint32 list" where
  "sha_H0 = map (\<lambda>p. word_of_nat (int_root 2 (p * 2 ^ 64))) [2, 3, 5, 7, 11, 13, 17, 19]"

definition rotr :: "nat \<Rightarrow> uint32 \<Rightarrow> uint32" where
  "rotr n x = drop_bit n x OR push_bit (32 - n) x"

definition be32 :: "bytes \<Rightarrow> uint32" where
  "be32 bs = word_of_nat (foldl (\<lambda>acc c. acc * 256 + of_char c) 0 bs)"

definition be_bytes :: "nat \<Rightarrow> nat \<Rightarrow> bytes" where
  "be_bytes n x = map (\<lambda>i. char_of (x div 256 ^ (n - 1 - i))) [0..<n]"

fun sha_chunks :: "nat \<Rightarrow> 'a list \<Rightarrow> 'a list list" where
  "sha_chunks n xs = (if xs = [] \<or> n = 0 then [] else take n xs # sha_chunks n (drop n xs))"

declare sha_chunks.simps [simp del]

definition sha_pad :: "bytes \<Rightarrow> bytes" where
  "sha_pad m = m @ char_of (128::nat) # replicate ((119 - length m mod 64) mod 64) (char_of (0::nat)) @
     be_bytes 8 (8 * length m)"

definition sha_sched :: "uint32 list \<Rightarrow> uint32 list" where
  "sha_sched w = fold (\<lambda>i w.
     let a = w ! (i - 15); b = w ! (i - 2);
         s0 = rotr 7 a XOR rotr 18 a XOR drop_bit 3 a;
         s1 = rotr 17 b XOR rotr 19 b XOR drop_bit 10 b
     in w @ [w ! (i - 16) + s0 + w ! (i - 7) + s1]) [16..<64] w"

fun sha_round :: "uint32 \<times> uint32 \<Rightarrow> uint32 list \<Rightarrow> uint32 list" where
  "sha_round (k, w) [a, b, c, d, e, f, g, h] =
     (let s1 = rotr 6 e XOR rotr 11 e XOR rotr 25 e;
          ch = (e AND f) XOR ((NOT e) AND g);
          t1 = h + s1 + ch + k + w;
          s0 = rotr 2 a XOR rotr 13 a XOR rotr 22 a;
          maj = (a AND b) XOR (a AND c) XOR (b AND c)
      in [t1 + s0 + maj, a, b, c, d + t1, e, f, g])"
| "sha_round _ st = st"

definition sha_block :: "bytes \<Rightarrow> uint32 list \<Rightarrow> uint32 list" where
  "sha_block bs st =
     map2 (+) st (fold sha_round (zip sha_K (sha_sched (map be32 (sha_chunks 4 bs)))) st)"

definition Sum256 :: "bytes \<Rightarrow> bytes" where
  "Sum256 m = concat (map (\<lambda>w. be_bytes 4 (unat w)) (fold sha_block (sha_chunks 64 (sha_pad m)) sha_H0))"

subsection \<open>Package encoding/hex\<close>

definition hex_digit :: "nat \<Rightarrow> char" where
  "hex_digit d = (if d < 10 then char_of (48 + d) else char_of (87 + d))"

definition hex_EncodeToString :: "bytes \<Rightarrow> string" where
  "hex_EncodeToString bs =
     concat (map (\<lambda>c. [hex_digit (of_char c div 16), hex_digit (of_char c mod 16)]) bs)"

subsection \<open>Shape of digests\<close>

lemma length_sha_round [simp]: "length (sha_round kw st) = length st"
  by (induction kw st rule: sha_round.induct) (simp_all add: Let_def)

lemma length_fold_round: "length (fold sha_round kws st) = length st"
  by (induction kws arbitrary: st) simp_all

lemma length_fold_block: "length (fold sha_block bs st) = length st"
  by (induction bs arbitrary: st) (simp_all add: sha_block_def length_fold_round)

lemma length_Sum256 [simp]: "length (Sum256 m) = 32"
proof -
  have "length (concat (map (\<lambda>w. be_bytes 4 (unat w)) ws)) = 4 * length ws" for ws :: "uint32 list"
    by (induction ws) (simp_all add: be_bytes_def)
  then show ?thesis by (simp add: Sum256_def length_fold_block) (simp add: sha_H0_def)
qed

definition is_hex :: "char \<Rightarrow> bool" where
  "is_hex c \<longleftrightarrow> c \<in> set ''0123456789abcdef''"

lemma hex_digit_set: "d < 16 \<Longrightarrow> is_hex (hex_digit d)"
proof -
  have "\<forall>d\<in>set [0..<16]. is_hex (hex_digit d)" by code_simp
  then show "d < 16 \<Longrightarrow> ?thesis" by simp
qed

lemma hex_EncodeToString_set: "c \<in> set (hex_EncodeToString bs) \<Longrightarrow> is_hex c"
proof -
  have "of_char x div 16 < (16::nat)" "of_char x mod 16 < (16::nat)" for x :: char
    using nat_of_char_less_256 [of x] by (simp_all add: div_less_iff_less_mult)
  then show "c \<in> set (hex_EncodeToString bs) \<Longrightarrow> ?thesis"
    by (auto simp: hex_EncodeToString_def intro: hex_digit_set)
qed

lemma length_hex_EncodeToString [simp]: "length (hex_EncodeToString bs) = 2 * length bs"
  by (induction bs) (simp_all add: hex_EncodeToString_def)

end
