(* ===== verification/DataCache.thy ===== *)
theory DataCache
  imports CacheSpec GoStrings Sha256
begin

text \<open>
  The disk cache of \<^verbatim>\<open>internal/cache/data.go\<close>: object contents in files below a cache
  directory, an LRU list of their sizes and access times, and an index by digest. The state
  is the Go struct with the part of the file system the cache owns (a map from path to
  content). The outcomes of system calls are inputs: which removals and opens succeed
  (\<open>osenv\<close>), how the steps of \<open>Put\<close> end (\<open>put_io\<close>) and what a directory scan returns.

  \<open>Get\<close> has two critical sections with a system call between them, so it is two
  operations here; \<open>dc_Get\<close> composes them for a caller that runs alone.
\<close>

subsection \<open>State\<close>

record DataCacheConfig =
  dcc_Dir :: string
  dcc_MaxSize :: int
  dcc_EvictionInterval :: time
  dcc_DataTTL :: time

definition defaultDataCacheDir :: string where
  "defaultDataCacheDir = ''/var/cache/s3gw''"

definition defaultDataCacheMaxSize :: int where
  "defaultDataCacheMaxSize = 10 * 1024 * 1024 * 1024"

definition DefaultDataCacheConfig :: DataCacheConfig where
  "DefaultDataCacheConfig = \<lparr>dcc_Dir = defaultDataCacheDir, dcc_MaxSize = defaultDataCacheMaxSize,
     dcc_EvictionInterval = 30 * second, dcc_DataTTL = 0\<rparr>"

record DataCacheStats =
  st_Hits :: int
  st_Misses :: int
  st_CurrentSize :: int
  st_EntryCount :: nat

record dataEntry =
  de_key :: string
  de_s3Key :: string
  de_size :: int
  de_accessTime :: time

record DataCache =
  dc_config :: DataCacheConfig
  dc_items :: "nat strmap"
  dc_order :: "dataEntry golist"
  dc_currentSize :: int
  dc_hits :: int
  dc_misses :: int
  dc_stopped :: bool
  dc_disk :: "bytes strmap"       \<comment> \<open>the files below the cache directory, by path\<close>

record osenv =
  os_remove_ok :: "string \<Rightarrow> bool"
  os_open_ok :: "string \<Rightarrow> bool"

definition os_Remove :: "osenv \<Rightarrow> string \<Rightarrow> DataCache \<Rightarrow> DataCache" where
  "os_Remove os path dc =
     (if os_remove_ok os path then dc\<lparr>dc_disk := (dc_disk dc)(path := None)\<rparr> else dc)"

definition os_Open :: "osenv \<Rightarrow> string \<Rightarrow> DataCache \<Rightarrow> bytes option" where
  "os_Open os path dc = (if os_open_ok os path then dc_disk dc path else None)"

subsection \<open>Keys and paths\<close>

definition cacheKey :: "string \<Rightarrow> string \<Rightarrow> string" where
  "cacheKey s3Key etag = hex_EncodeToString (Sum256 (s3Key @ etag))"

text \<open>The slice \<open>key[:2]\<close> panics on a shorter key.\<close>

definition cachePath :: "DataCacheConfig \<Rightarrow> string \<Rightarrow> string result" where
  "cachePath config key =
     (if length key < 2 then Inl (Panic ''slice bounds out of range'')
      else Inr (filepath_Join [dcc_Dir config, take 2 key, key]))"

subsection \<open>Removing an entry\<close>

text \<open>
  The four statements every removal repeats: delete the file, give its size back, take the
  element out of the list and out of the index.
\<close>

definition dropEntry :: "osenv \<Rightarrow> string \<Rightarrow> string \<Rightarrow> nat \<Rightarrow> DataCache \<Rightarrow> DataCache" where
  "dropEntry os path key elem dc =
     (let dc1 = os_Remove os path dc
      in dc1\<lparr>dc_currentSize := dc_currentSize dc1 - de_size (val_of (dc_order dc1) elem),
             dc_order := list_Remove elem (dc_order dc1),
             dc_items := (dc_items dc1)(key := None)\<rparr>)"

subsection \<open>Eviction\<close>

text \<open>The two loops of \<open>evict\<close>, each taking the least recently used element.\<close>

function evict_ttl :: "osenv \<Rightarrow> time \<Rightarrow> DataCache \<Rightarrow> DataCache result" where
  "evict_ttl os now dc =
     (case Back (dc_order dc) of
        None \<Rightarrow> Inr dc
      | Some elem \<Rightarrow>
          let entry = val_of (dc_order dc) elem
          in if time_Sub now (de_accessTime entry) \<le> dcc_DataTTL (dc_config dc) then Inr dc
             else case cachePath (dc_config dc) (de_key entry) of
                    Inl e \<Rightarrow> Inl e
                  | Inr path \<Rightarrow> evict_ttl os now (dropEntry os path (de_key entry) elem dc))"
  by pat_completeness auto

function evict_size :: "osenv \<Rightarrow> DataCache \<Rightarrow> DataCache result" where
  "evict_size os dc =
     (if dc_currentSize dc > dcc_MaxSize (dc_config dc)
      then case Back (dc_order dc) of
             None \<Rightarrow> Inr dc
           | Some elem \<Rightarrow>
               let entry = val_of (dc_order dc) elem
               in case cachePath (dc_config dc) (de_key entry) of
                    Inl e \<Rightarrow> Inl e
                  | Inr path \<Rightarrow> evict_size os (dropEntry os path (de_key entry) elem dc)
      else Inr dc)"
  by pat_completeness auto

lemma os_Remove_frame [simp]:
  "dc_config (os_Remove os p dc) = dc_config dc" "dc_items (os_Remove os p dc) = dc_items dc"
  "dc_order (os_Remove os p dc) = dc_order dc" "dc_currentSize (os_Remove os p dc) = dc_currentSize dc"
  by (simp_all add: os_Remove_def)

lemma dropEntry_frame [simp]:
  "dc_config (dropEntry os p k e dc) = dc_config dc"
  "dc_order (dropEntry os p k e dc) = list_Remove e (dc_order dc)"
  "dc_items (dropEntry os p k e dc) = (dc_items dc)(k := None)"
  "dc_currentSize (dropEntry os p k e dc) = dc_currentSize dc - de_size (val_of (dc_order dc) e)"
  by (simp_all add: dropEntry_def Let_def)

lemma Back_Remove_less: "Back l = Some e \<Longrightarrow> list_Len (list_Remove e l) < list_Len l"
  by (auto simp: Back_def list_Len_def list_Remove_def split: if_splits intro!: length_removeAll_less)

termination evict_ttl
  by (relation "measure (\<lambda>(os, now, dc). list_Len (dc_order dc))") (simp_all add: Back_Remove_less)

termination evict_size
  by (relation "measure (\<lambda>(os, dc). list_Len (dc_order dc))") (simp_all add: Back_Remove_less)

declare evict_ttl.simps [simp del] evict_size.simps [simp del]

definition evict :: "osenv \<Rightarrow> time \<Rightarrow> DataCache \<Rightarrow> DataCache result" where
  "evict os now dc =
     res_bind (if dcc_DataTTL (dc_config dc) > 0 then evict_ttl os now dc else Inr dc) (evict_size os)"

fun dc_evictionLoop :: "osenv \<Rightarrow> time option list \<Rightarrow> DataCache \<Rightarrow> (DataCache \<times> bool) result" where
  "dc_evictionLoop os [] dc = Inr (dc, False)"
| "dc_evictionLoop os (None # evs) dc = Inr (dc, True)"
| "dc_evictionLoop os (Some now # evs) dc = res_bind (evict os now dc) (dc_evictionLoop os evs)"

subsection \<open>Start\<close>

text \<open>
  What \<open>os.ReadDir\<close> reports: a name, whether it is a directory, and the outcome of \<open>Info\<close>
  (size and modification time).
\<close>

record dirent =
  dn_name :: string
  dn_isDir :: bool
  dn_info :: "(int \<times> time) option"

definition scan_file :: "dirent \<Rightarrow> DataCache \<Rightarrow> DataCache" where
  "scan_file f dc =
     (if dn_isDir f \<or> HasPrefix (dn_name f) ''.tmp-'' then dc
      else case dn_info f of
             None \<Rightarrow> dc
           | Some (sz, mtime) \<Rightarrow>
               let (elem, order') = PushBack \<lparr>de_key = dn_name f, de_s3Key = [], de_size = sz, de_accessTime = mtime\<rparr>
                                      (dc_order dc)
               in dc\<lparr>dc_order := order', dc_items := (dc_items dc)(dn_name f \<mapsto> elem),
                     dc_currentSize := dc_currentSize dc + sz\<rparr>)"

definition scan_shard :: "(string \<Rightarrow> dirent list option) \<Rightarrow> dirent \<Rightarrow> DataCache \<Rightarrow> DataCache" where
  "scan_shard readDir shard dc =
     (if \<not> dn_isDir shard \<or> length (dn_name shard) \<noteq> 2 then dc
      else case readDir (filepath_Join [dcc_Dir (dc_config dc), dn_name shard]) of
             None \<Rightarrow> dc
           | Some files \<Rightarrow> fold scan_file files dc)"

definition scanDir :: "(string \<Rightarrow> dirent list option) \<Rightarrow> DataCache \<Rightarrow> DataCache" where
  "scanDir readDir dc =
     (case readDir (dcc_Dir (dc_config dc)) of
        None \<Rightarrow> dc
      | Some shards \<Rightarrow> fold (scan_shard readDir) shards dc)"

definition NewDataCache ::
  "osenv \<Rightarrow> time \<Rightarrow> err option \<Rightarrow> (string \<Rightarrow> dirent list option) \<Rightarrow> bytes strmap \<Rightarrow> DataCacheConfig \<Rightarrow> DataCache result" where
  "NewDataCache os now mkdirAll readDir disk config =
     (let c1 = (if dcc_Dir config = [] then config\<lparr>dcc_Dir := defaultDataCacheDir\<rparr> else config);
          c2 = (if dcc_MaxSize c1 \<le> 0 then c1\<lparr>dcc_MaxSize := defaultDataCacheMaxSize\<rparr> else c1);
          c3 = (if dcc_EvictionInterval c2 \<le> 0 then c2\<lparr>dcc_EvictionInterval := 30 * second\<rparr> else c2)
      in case mkdirAll of
           Some e \<Rightarrow> Inl (Wrap ''create cache dir'' e)
         | None \<Rightarrow> evict os now (scanDir readDir
             \<lparr>dc_config = c3, dc_items = Map.empty, dc_order = list_New, dc_currentSize = 0,
              dc_hits = 0, dc_misses = 0, dc_stopped = False, dc_disk = disk\<rparr>))"

subsection \<open>Get\<close>

text \<open>
  The first critical section ends in a miss or in the path to open, with the element the
  goroutine keeps a pointer to.
\<close>

datatype get_state = GetMiss | GetOpen string string nat

definition get_lookup :: "osenv \<Rightarrow> time \<Rightarrow> string \<Rightarrow> string \<Rightarrow> DataCache \<Rightarrow> (get_state \<times> DataCache) result" where
  "get_lookup os now s3Key etag dc =
     (let key = cacheKey s3Key etag
      in res_bind (cachePath (dc_config dc) key) (\<lambda>path.
         case dc_items dc key of
           None \<Rightarrow> Inr (GetMiss, dc\<lparr>dc_misses := dc_misses dc + 1\<rparr>)
         | Some elem \<Rightarrow>
             let entry = val_of (dc_order dc) elem
             in if dcc_DataTTL (dc_config dc) > 0 \<and> time_Since now (de_accessTime entry) > dcc_DataTTL (dc_config dc)
                then let dc1 = dropEntry os path key elem dc
                     in Inr (GetMiss, dc1\<lparr>dc_misses := dc_misses dc1 + 1\<rparr>)
                else Inr (GetOpen path key elem,
                       dc\<lparr>dc_order := MoveToFront elem (set_val elem (entry\<lparr>de_accessTime := now\<rparr>) (dc_order dc))\<rparr>)))"

definition get_open :: "osenv \<Rightarrow> string \<Rightarrow> string \<Rightarrow> nat \<Rightarrow> DataCache \<Rightarrow> bytes option \<times> DataCache" where
  "get_open os path key elem dc =
     (case os_Open os path dc of
        Some f \<Rightarrow> (Some f, dc\<lparr>dc_hits := dc_hits dc + 1\<rparr>)
      | None \<Rightarrow>
          (None, dc\<lparr>dc_currentSize := dc_currentSize dc - de_size (val_of (dc_order dc) elem),
                    dc_order := list_Remove elem (dc_order dc),
                    dc_items := (dc_items dc)(key := None),
                    dc_misses := dc_misses dc + 1\<rparr>))"

definition dc_Get :: "osenv \<Rightarrow> time \<Rightarrow> string \<Rightarrow> string \<Rightarrow> DataCache \<Rightarrow> (bytes option \<times> DataCache) result" where
  "dc_Get os now s3Key etag dc =
     res_bind (get_lookup os now s3Key etag dc) (\<lambda>(st, dc1).
       case st of GetMiss \<Rightarrow> Inr (None, dc1)
       | GetOpen path key elem \<Rightarrow> Inr (get_open os path key elem dc1))"

subsection \<open>Put\<close>

text \<open>
  How the system calls of one \<open>Put\<close> end, in the order they are made, and the random number
  \<open>os.CreateTemp\<close> substitutes for the star of its pattern.
\<close>

record put_io =
  pio_mkdir :: "err option"
  pio_create :: "err option"
  pio_copy :: "err option"
  pio_close :: "err option"
  pio_rename :: "err option"
  pio_random :: nat

definition tmp_path :: "string \<Rightarrow> nat \<Rightarrow> string" where
  "tmp_path path rnd = filepath_Dir path @ ''/.tmp-'' @ FormatUint rnd 10"

definition putLocked :: "time \<Rightarrow> string \<Rightarrow> string \<Rightarrow> int \<Rightarrow> DataCache \<Rightarrow> DataCache" where
  "putLocked now key s3Key written dc =
     (case dc_items dc key of
        Some elem \<Rightarrow>
          let old = val_of (dc_order dc) elem
          in dc\<lparr>dc_currentSize := dc_currentSize dc - de_size old + written,
                dc_order := MoveToFront elem
                  (set_val elem (old\<lparr>de_size := written, de_accessTime := now\<rparr>) (dc_order dc))\<rparr>
      | None \<Rightarrow>
          let (elem, order') = PushFront \<lparr>de_key = key, de_s3Key = s3Key, de_size = written, de_accessTime = now\<rparr>
                                 (dc_order dc)
          in dc\<lparr>dc_order := order', dc_items := (dc_items dc)(key \<mapsto> elem),
                dc_currentSize := dc_currentSize dc + written\<rparr>)"

text \<open>
  \<open>data\<close> is what \<open>io.Copy\<close> transferred from the reader. A failed call returns an error; the
  state it leaves is returned too, because the temporary file may remain.
\<close>

definition dc_Put ::
  "osenv \<Rightarrow> put_io \<Rightarrow> time \<Rightarrow> string \<Rightarrow> string \<Rightarrow> bytes \<Rightarrow> DataCache \<Rightarrow> err option \<times> DataCache" where
  "dc_Put os io now s3Key etag data dc =
     (let key = cacheKey s3Key etag
      in case cachePath (dc_config dc) key of
           Inl e \<Rightarrow> (Some e, dc)
         | Inr path \<Rightarrow>
      case pio_mkdir io of Some e \<Rightarrow> (Some (Wrap ''create shard dir'' e), dc)
      | None \<Rightarrow>
      case pio_create io of Some e \<Rightarrow> (Some (Wrap ''create temp file'' e), dc)
      | None \<Rightarrow>
      let tmpPath = tmp_path path (pio_random io);
          dc1 = dc\<lparr>dc_disk := (dc_disk dc)(tmpPath \<mapsto> data)\<rparr>;
          err = (case pio_copy io of Some e \<Rightarrow> Some e | None \<Rightarrow> pio_close io)
      in case err of Some e \<Rightarrow> (Some (Wrap ''write cache file'' e), os_Remove os tmpPath dc1)
      | None \<Rightarrow>
      case pio_rename io of Some e \<Rightarrow> (Some (Wrap ''rename cache file'' e), os_Remove os tmpPath dc1)
      | None \<Rightarrow>
      let dc2 = dc1\<lparr>dc_disk := (dc_disk dc1)(path \<mapsto> data, tmpPath := None)\<rparr>
      in case evict os now (putLocked now key s3Key (int (length data)) dc2) of
           Inl e \<Rightarrow> (Some e, dc2)
         | Inr dc3 \<Rightarrow> (None, dc3))"

subsection \<open>Invalidate, Stats, Stop\<close>

definition invalidate_one :: "osenv \<Rightarrow> string \<Rightarrow> string \<Rightarrow> DataCache \<Rightarrow> DataCache result" where
  "invalidate_one os s3Key key dc =
     (case dc_items dc key of
        None \<Rightarrow> Inr dc
      | Some elem \<Rightarrow>
          if de_s3Key (val_of (dc_order dc) elem) = s3Key
          then res_bind (cachePath (dc_config dc) key) (\<lambda>path. Inr (dropEntry os path key elem dc))
          else Inr dc)"

fun invalidate_loop :: "osenv \<Rightarrow> string \<Rightarrow> string list \<Rightarrow> DataCache \<Rightarrow> DataCache result" where
  "invalidate_loop os s3Key [] dc = Inr dc"
| "invalidate_loop os s3Key (key # keys) dc = res_bind (invalidate_one os s3Key key dc) (invalidate_loop os s3Key keys)"

definition dc_Invalidate :: "osenv \<Rightarrow> rangeorder \<Rightarrow> string \<Rightarrow> DataCache \<Rightarrow> DataCache result" where
  "dc_Invalidate os rng s3Key dc = invalidate_loop os s3Key (rng (dom (dc_items dc))) dc"

definition Stats :: "DataCache \<Rightarrow> DataCacheStats" where
  "Stats dc = \<lparr>st_Hits = dc_hits dc, st_Misses = dc_misses dc, st_CurrentSize = dc_currentSize dc,
               st_EntryCount = list_Len (dc_order dc)\<rparr>"

definition dc_Stop :: "DataCache \<Rightarrow> DataCache result" where
  "dc_Stop dc = (if dc_stopped dc then Inl (Panic ''close of closed channel'')
                 else Inr (dc\<lparr>dc_stopped := True\<rparr>))"

subsection \<open>Paths of cache files\<close>

text \<open>
  A name the cache can address: long enough for the shard slice, and neither it nor its
  shard is special to \<open>filepath.Join\<close>. Every digest is one, and so is every file a cache
  has written.
\<close>

definition cache_name :: "string \<Rightarrow> bool" where
  "cache_name k \<longleftrightarrow> 2 \<le> length k \<and> plain_comp k \<and> plain_comp (take 2 k) \<and> \<not> HasPrefix k ''.tmp-''"

lemma cacheKey_name [simp]: "cache_name (cacheKey s3Key etag)"
proof -
  let ?k = "cacheKey s3Key etag"
  have len: "length ?k = 64" by (simp add: cacheKey_def)
  have hex: "is_hex c" if "c \<in> set ?k" for c
    using that by (simp add: cacheKey_def hex_EncodeToString_set)
  have bad: "\<not> is_hex (CHR ''/'')" "\<not> is_hex (CHR ''.'')" by (simp_all add: is_hex_def)
  have plain: "plain_comp p" if "set p \<subseteq> set ?k" "p \<noteq> []" for p
    using that hex bad by (auto simp: plain_comp_def)
  have "\<not> HasPrefix ?k ''.tmp-''"
    using hex [of "CHR ''.''"] bad by (auto simp: HasPrefix_def prefix_def)
  moreover have "?k \<noteq> []" "take 2 ?k \<noteq> []" using len by auto
  ultimately show ?thesis
    using plain [of ?k] plain [of "take 2 ?k"] len by (auto simp: cache_name_def dest: in_set_takeD)
qed

lemma cachePath_ok: "2 \<le> length k \<Longrightarrow> cachePath c k = Inr (filepath_Join [dcc_Dir c, take 2 k, k])"
  by (simp add: cachePath_def)

lemma cachePath_last:
  assumes "plain_comp k" and "plain_comp (take 2 k)" and "cachePath c k = Inr p"
  shows "last (Split p (CHR ''/'')) = k"
proof -
  have "take 2 k \<noteq> []" "k \<noteq> []" using assms by (simp_all add: plain_comp_def)
  then have "p = Clean ((if dcc_Dir c = [] then take 2 k else dcc_Dir c @ CHR ''/'' # take 2 k) @ CHR ''/'' # k)"
    using assms(3) by (auto simp: cachePath_def filepath_Join_def Let_def split: if_splits)
  then show ?thesis using Clean_last [OF assms(1)] by simp
qed

lemma cachePath_inj:
  assumes "cache_name k" and "cache_name k'" and "cachePath c k = Inr p" and "cachePath c k' = Inr p"
  shows "k = k'"
  using assms cachePath_last [of k c p] cachePath_last [of k' c p] by (simp add: cache_name_def)

lemma tmp_path_last: "last (Split (tmp_path p n) (CHR ''/'')) = ''.tmp-'' @ FormatUint n 10"
proof -
  have "CHR ''/'' \<notin> set (''.tmp-'' @ FormatUint n 10)" by (simp add: FormatUint_no_slash)
  from last_Split_app [OF this, of "filepath_Dir p"] show ?thesis by (simp add: tmp_path_def)
qed

lemma cachePath_not_tmp:
  assumes "cache_name k" and "cachePath c k = Inr p"
  shows "p \<noteq> tmp_path q n"
  using assms cachePath_last [of k c p] tmp_path_last [of q n]
  by (auto simp: cache_name_def HasPrefix_def)

subsection \<open>Invariant\<close>

abbreviation dc_recent :: "DataCache \<Rightarrow> dataEntry list" where
  "dc_recent dc \<equiv> recency (dc_order dc)"

definition total_size :: "dataEntry list \<Rightarrow> int" where
  "total_size rs = sum_list (map de_size rs)"

definition entry_ok :: "dataEntry \<Rightarrow> bool" where
  "entry_ok e \<longleftrightarrow> 0 \<le> de_size e \<and> cache_name (de_key e)"

definition dc_inv :: "DataCache \<Rightarrow> bool" where
  "dc_inv dc \<longleftrightarrow> lru_ok de_key (dc_items dc) (dc_order dc) \<and>
     dc_currentSize dc = total_size (dc_recent dc) \<and> list_all entry_ok (dc_recent dc)"

text \<open>The content the cache can serve for a digest.\<close>

definition dc_view :: "DataCache \<Rightarrow> string \<Rightarrow> bytes option" where
  "dc_view dc k =
     (if dc_items dc k = None then None
      else case cachePath (dc_config dc) k of Inl _ \<Rightarrow> None | Inr p \<Rightarrow> dc_disk dc p)"

lemma dc_invD:
  assumes "dc_inv dc"
  shows "lru_ok de_key (dc_items dc) (dc_order dc)" "dc_currentSize dc = total_size (dc_recent dc)"
    "list_all entry_ok (dc_recent dc)" "distinct (map de_key (dc_recent dc))" "finite (dom (dc_items dc))"
  using assms lru_distinct lru_finite by (auto simp: dc_inv_def)

lemma dc_inv_name:
  assumes "dc_inv dc" and "dc_items dc k = Some e"
  shows "cache_name k" and "val_of (dc_order dc) e \<in> set (dc_recent dc)" and "de_key (val_of (dc_order dc) e) = k"
proof -
  note v = lru_val [OF dc_invD(1) [OF assms(1)] assms(2)]
  then show "val_of (dc_order dc) e \<in> set (dc_recent dc)" "de_key (val_of (dc_order dc) e) = k"
    by (auto simp: recency_def)
  with dc_invD(3) [OF assms(1)] show "cache_name k" by (auto simp: list_all_iff entry_ok_def)
qed

lemma total_size_filter:
  assumes "distinct (map de_key rs)" and "e \<in> set rs"
  shows "total_size (filter (\<lambda>v. de_key v \<noteq> de_key e) rs) = total_size rs - de_size e"
  using assms by (induction rs) (auto simp: total_size_def, metis (mono_tags, lifting) filter_True image_eqI)

lemma total_size_nonneg: "list_all entry_ok rs \<Longrightarrow> 0 \<le> total_size rs"
  by (auto simp: total_size_def list_all_iff entry_ok_def intro: sum_list_nonneg_map)

text \<open>Removing an indexed entry, whatever becomes of its file.\<close>

lemma dropEntry_ok:
  assumes "dc_inv dc" and "dc_items dc k = Some e"
  shows "dc_inv (dropEntry os p k e dc)"
    and "dc_recent (dropEntry os p k e dc) = lru_drop de_key k (dc_recent dc)"
proof -
  note r = lru_Remove [OF dc_invD(1) [OF assms(1)] assms(2)]
  note n = dc_inv_name [OF assms]
  show r': "dc_recent (dropEntry os p k e dc) = lru_drop de_key k (dc_recent dc)"
    by (simp add: r lru_drop_def)
  have "list_all entry_ok (lru_drop de_key k (dc_recent dc))"
    using dc_invD(3) [OF assms(1)] by (auto simp: list_all_iff lru_drop_def)
  moreover have "dc_currentSize (dropEntry os p k e dc) = total_size (lru_drop de_key k (dc_recent dc))"
    using total_size_filter [OF dc_invD(4) [OF assms(1)] n(2)] n(3) dc_invD(2) [OF assms(1)]
    by (simp add: lru_drop_def)
  ultimately show "dc_inv (dropEntry os p k e dc)"
    using r(1) r' by (simp add: dc_inv_def)
qed

lemma dropEntry_view:
  assumes "dc_inv dc" and "dc_items dc k = Some e" and "cachePath (dc_config dc) k = Inr p"
  shows "dc_view (dropEntry os p k e dc) k' = (if k' = k then None else dc_view dc k')"
proof (cases "k' = k \<or> dc_items dc k' = None")
  case True
  then show ?thesis by (auto simp: dc_view_def)
next
  case False
  then obtain e' where e': "dc_items dc k' = Some e'" by auto
  from cachePath_inj [OF dc_inv_name(1) [OF assms(1,2)] dc_inv_name(1) [OF assms(1) e'] assms(3)] False
  have "cachePath (dc_config dc) k' \<noteq> Inr p" by auto
  with False show ?thesis
    by (auto simp: dc_view_def dropEntry_def os_Remove_def Let_def split: sum.split)
qed

subsection \<open>Eviction refines trimming the recency list from its old end\<close>

definition trim_ttl :: "time \<Rightarrow> time \<Rightarrow> dataEntry list \<Rightarrow> dataEntry list" where
  "trim_ttl ttl now rs = rev (dropWhile (\<lambda>e. time_Sub now (de_accessTime e) > ttl) (rev rs))"

function trim_size :: "int \<Rightarrow> dataEntry list \<Rightarrow> dataEntry list" where
  "trim_size m rs = (if rs \<noteq> [] \<and> total_size rs > m then trim_size m (butlast rs) else rs)"
  by pat_completeness auto
termination by (relation "measure (\<lambda>(m, rs). length rs)") auto

declare trim_size.simps [simp del]

lemma total_size_append [simp]: "total_size (xs @ ys) = total_size xs + total_size ys"
  by (simp add: total_size_def)

lemma total_size_Cons [simp]: "total_size [] = 0" "total_size (e # es) = de_size e + total_size es"
  by (simp_all add: total_size_def)

text \<open>The result is the longest prefix that fits.\<close>

lemma trim_size_prefix: "\<exists>n \<le> length rs. trim_size m rs = take n rs"
proof (induction m rs rule: trim_size.induct)
  case (1 m rs)
  show ?case
  proof (cases "rs \<noteq> [] \<and> total_size rs > m")
    case True
    with 1 obtain n where "n \<le> length (butlast rs)" "trim_size m (butlast rs) = take n (butlast rs)" by blast
    moreover from this(1) True have "n < length rs" using length_greater_0_conv [of rs] by (simp del: length_greater_0_conv)
    ultimately show ?thesis using True
      by (intro exI [of _ n]) (subst trim_size.simps, simp add: take_butlast)
  next
    case False
    then show ?thesis by (intro exI [of _ "length rs"]) (subst trim_size.simps, auto)
  qed
qed

lemma trim_size_bound: "0 \<le> m \<Longrightarrow> total_size (trim_size m rs) \<le> m"
  by (induction m rs rule: trim_size.induct) (subst trim_size.simps, auto)

lemma trim_size_id: "total_size rs \<le> m \<Longrightarrow> trim_size m rs = rs"
  by (subst trim_size.simps) simp

lemma trim_size_maximal:
  assumes "list_all entry_ok rs" and "length (trim_size m rs) < n" and "n \<le> length rs"
  shows "total_size (take n rs) > m"
  using assms
proof (induction m rs rule: trim_size.induct)
  case (1 m rs)
  show ?case
  proof (cases "rs \<noteq> [] \<and> total_size rs > m")
    case True
    then have t: "trim_size m rs = trim_size m (butlast rs)" by (subst trim_size.simps) simp
    show ?thesis
    proof (cases "n = length rs")
      case False
      with 1(4) have "n < length rs" "n \<le> length (butlast rs)" by auto
      moreover have "list_all entry_ok (butlast rs)"
        using 1(2) by (auto simp: list_all_iff dest: in_set_butlastD)
      ultimately show ?thesis using 1(1) [OF True] 1(3) t by (simp add: take_butlast)
    qed (use True in simp)
  next
    case False
    then have "trim_size m rs = rs" by (subst trim_size.simps) auto
    with 1 show ?thesis by simp
  qed
qed

lemma lru_drop_last:
  assumes "distinct (map keyof rs)" and "rs \<noteq> []"
  shows "lru_drop keyof (keyof (last rs)) rs = butlast rs"
proof -
  obtain ys y where rs: "rs = ys @ [y]" using assms(2) by (cases rs rule: rev_cases) auto
  have "filter (\<lambda>v. keyof v \<noteq> keyof y) ys = ys"
    by (rule filter_True) (use assms(1) rs in \<open>auto simp: image_iff\<close>)
  then show ?thesis by (simp add: lru_drop_def rs)
qed

text \<open>The entries that remain keep their content.\<close>

definition shrinks :: "DataCache \<Rightarrow> DataCache \<Rightarrow> bool" where
  "shrinks dc dc' \<longleftrightarrow>
     (\<forall>k. dc_items dc' k \<noteq> None \<longrightarrow> dc_items dc k \<noteq> None \<and> dc_view dc' k = dc_view dc k)"

lemma shrinks_refl [simp]: "shrinks dc dc"
  by (simp add: shrinks_def)

lemma shrinks_trans: "shrinks a b \<Longrightarrow> shrinks b c \<Longrightarrow> shrinks a c"
  by (auto simp: shrinks_def)

lemma shrinks_le: "shrinks dc dc' \<Longrightarrow> dc_view dc' \<subseteq>\<^sub>m dc_view dc"
  by (rule map_leI) (metis shrinks_def dc_view_def option.distinct(1))

text \<open>One turn of either loop.\<close>

lemma evict_one:
  assumes "dc_inv dc" and "Back (dc_order dc) = Some elem" and "entry = val_of (dc_order dc) elem"
  obtains p where "cachePath (dc_config dc) (de_key entry) = Inr p"
    and "dc_inv (dropEntry os p (de_key entry) elem dc)"
    and "dc_recent (dropEntry os p (de_key entry) elem dc) = butlast (dc_recent dc)"
    and "dc_recent dc \<noteq> []" and "entry = last (dc_recent dc)"
    and "shrinks dc (dropEntry os p (de_key entry) elem dc)"
proof -
  note b = lru_Back [OF dc_invD(1) [OF assms(1)] assms(2), folded assms(3)]
  note n = dc_inv_name(1) [OF assms(1) b(1)]
  then have p: "cachePath (dc_config dc) (de_key entry) = Inr (filepath_Join [dcc_Dir (dc_config dc), take 2 (de_key entry), de_key entry])"
    by (simp add: cachePath_ok cache_name_def)
  have "lru_drop de_key (de_key entry) (dc_recent dc) = butlast (dc_recent dc)"
    using lru_drop_last [OF dc_invD(4) [OF assms(1)]] b by simp
  moreover have "shrinks dc (dropEntry os (filepath_Join [dcc_Dir (dc_config dc), take 2 (de_key entry), de_key entry])
      (de_key entry) elem dc)"
    by (simp add: shrinks_def dropEntry_view [OF assms(1) b(1) p])
  ultimately show ?thesis
    using that [OF p] dropEntry_ok [OF assms(1) b(1)] b by simp
qed

lemma evict_ttl_ok:
  assumes "dc_inv dc"
  shows "\<exists>dc'. evict_ttl os now dc = Inr dc' \<and> dc_inv dc' \<and> dc_config dc' = dc_config dc \<and>
     dc_recent dc' = trim_ttl (dcc_DataTTL (dc_config dc)) now (dc_recent dc) \<and> shrinks dc dc'"
  using assms
proof (induction os now dc rule: evict_ttl.induct)
  case (1 os now dc)
  show ?case
  proof (cases "Back (dc_order dc)")
    case None
    with Back_None [of "dc_order dc"] 1(2) show ?thesis
      by (subst evict_ttl.simps) (simp add: trim_ttl_def)
  next
    case (Some elem)
    let ?e = "val_of (dc_order dc) elem"
    obtain p where p: "cachePath (dc_config dc) (de_key ?e) = Inr p"
      and inv: "dc_inv (dropEntry os p (de_key ?e) elem dc)"
      and rec: "dc_recent (dropEntry os p (de_key ?e) elem dc) = butlast (dc_recent dc)"
      and ne: "dc_recent dc \<noteq> []" and last: "?e = last (dc_recent dc)"
      and view: "shrinks dc (dropEntry os p (de_key ?e) elem dc)"
      using evict_one [OF 1(2) Some refl] by blast
    obtain ys y where ys: "dc_recent dc = ys @ [y]" using ne by (cases "dc_recent dc" rule: rev_cases) auto
    show ?thesis
    proof (cases "time_Sub now (de_accessTime ?e) \<le> dcc_DataTTL (dc_config dc)")
      case True
      with Some 1(2) last show ?thesis by (subst evict_ttl.simps) (simp add: trim_ttl_def ys)
    next
      case False
      with 1(1) [OF Some refl False p inv] Some p rec last view show ?thesis
        by (subst evict_ttl.simps) (auto simp: Let_def trim_ttl_def ys intro: shrinks_trans)
    qed
  qed
qed

lemma evict_size_ok:
  assumes "dc_inv dc"
  shows "\<exists>dc'. evict_size os dc = Inr dc' \<and> dc_inv dc' \<and> dc_config dc' = dc_config dc \<and>
     dc_recent dc' = trim_size (dcc_MaxSize (dc_config dc)) (dc_recent dc) \<and> shrinks dc dc'"
  using assms
proof (induction os dc rule: evict_size.induct)
  case (1 os dc)
  note sz = dc_invD(2) [OF 1(2)]
  show ?case
  proof (cases "dc_currentSize dc > dcc_MaxSize (dc_config dc)")
    case big: True
    show ?thesis
    proof (cases "Back (dc_order dc)")
      case None
      with Back_None [of "dc_order dc"] 1(2) show ?thesis
        by (subst evict_size.simps) (simp add: trim_size.simps)
    next
      case (Some elem)
      let ?e = "val_of (dc_order dc) elem"
      obtain p where p: "cachePath (dc_config dc) (de_key ?e) = Inr p"
        and inv: "dc_inv (dropEntry os p (de_key ?e) elem dc)"
        and rec: "dc_recent (dropEntry os p (de_key ?e) elem dc) = butlast (dc_recent dc)"
        and ne: "dc_recent dc \<noteq> []"
        and view: "shrinks dc (dropEntry os p (de_key ?e) elem dc)"
        using evict_one [OF 1(2) Some refl] by blast
      have t: "trim_size (dcc_MaxSize (dc_config dc)) (dc_recent dc) =
               trim_size (dcc_MaxSize (dc_config dc)) (butlast (dc_recent dc))"
        using big ne sz by (subst trim_size.simps) simp
      from 1(1) [OF big Some refl p inv] big Some p rec view t show ?thesis
        by (subst evict_size.simps) (auto simp: Let_def intro: shrinks_trans)
    qed
  next
    case False
    with 1(2) sz show ?thesis by (subst evict_size.simps) (simp add: trim_size_id)
  qed
qed

definition trim :: "DataCacheConfig \<Rightarrow> time \<Rightarrow> dataEntry list \<Rightarrow> dataEntry list" where
  "trim c now rs = trim_size (dcc_MaxSize c) (if dcc_DataTTL c > 0 then trim_ttl (dcc_DataTTL c) now rs else rs)"

lemma evict_ok:
  assumes "dc_inv dc"
  obtains dc' where "evict os now dc = Inr dc'" and "dc_inv dc'" and "dc_config dc' = dc_config dc"
    and "dc_recent dc' = trim (dc_config dc) now (dc_recent dc)" and "shrinks dc dc'" and "dc_view dc' \<subseteq>\<^sub>m dc_view dc"
proof (cases "dcc_DataTTL (dc_config dc) > 0")
  case True
  obtain dc1 where 1: "evict_ttl os now dc = Inr dc1" "dc_inv dc1" "dc_config dc1 = dc_config dc"
      "dc_recent dc1 = trim_ttl (dcc_DataTTL (dc_config dc)) now (dc_recent dc)" "shrinks dc dc1"
    using evict_ttl_ok [OF assms] by blast
  obtain dc' where 2: "evict_size os dc1 = Inr dc'" "dc_inv dc'" "dc_config dc' = dc_config dc1"
      "dc_recent dc' = trim_size (dcc_MaxSize (dc_config dc1)) (dc_recent dc1)" "shrinks dc1 dc'"
    using evict_size_ok [OF 1(2)] by blast
  have "shrinks dc dc'" using 1(5) 2(5) by (rule shrinks_trans)
  then show thesis
    using 1 2 True shrinks_le by (intro that [of dc']) (simp_all add: evict_def trim_def)
next
  case False
  with evict_size_ok [OF assms, of os] show thesis by (auto simp: evict_def trim_def intro: that shrinks_le)
qed

definition dc_bounded :: "DataCache \<Rightarrow> bool" where
  "dc_bounded dc \<longleftrightarrow> 0 \<le> dcc_MaxSize (dc_config dc) \<and> dc_currentSize dc \<le> dcc_MaxSize (dc_config dc)"

lemma evict_bounded:
  assumes "dc_inv dc" and "0 \<le> dcc_MaxSize (dc_config dc)" and "evict os now dc = Inr dc'"
  shows "dc_bounded dc'"
proof -
  from evict_ok [OF assms(1), of os now] assms(3)
  have "dc_inv dc'" "dc_config dc' = dc_config dc" "dc_recent dc' = trim (dc_config dc) now (dc_recent dc)"
    by (metis sum.inject(2))+
  with assms(2) show ?thesis by (simp add: dc_bounded_def dc_invD(2) trim_def trim_size_bound)
qed

subsection \<open>Get\<close>

lemma entry_total:
  assumes "dc_inv dc" and "dc_items dc k = Some e"
  shows "total_size (lru_drop de_key k (dc_recent dc)) = dc_currentSize dc - de_size (val_of (dc_order dc) e)"
  using total_size_filter [OF dc_invD(4) [OF assms(1)] dc_inv_name(2) [OF assms]] dc_inv_name(3) [OF assms]
    dc_invD(2) [OF assms(1)]
  by (simp add: lru_drop_def)

lemma lru_drop_entry_ok: "list_all entry_ok rs \<Longrightarrow> list_all entry_ok (lru_drop de_key k rs)"
  by (auto simp: list_all_iff lru_drop_def)

lemma touch_ok:
  assumes "dc_inv dc" and "dc_items dc k = Some e" and "de_key v = k" and "0 \<le> de_size v"
  shows "dc_inv (dc\<lparr>dc_currentSize := dc_currentSize dc - de_size (val_of (dc_order dc) e) + de_size v,
                    dc_order := MoveToFront e (set_val e v (dc_order dc))\<rparr>)"
    and "recency (MoveToFront e (set_val e v (dc_order dc))) = v # lru_drop de_key k (dc_recent dc)"
proof -
  note up = lru_update [OF dc_invD(1) [OF assms(1)] assms(2,3)]
  show r: "recency (MoveToFront e (set_val e v (dc_order dc))) = v # lru_drop de_key k (dc_recent dc)"
    using up(2) by (simp add: lru_drop_def)
  have "entry_ok v" using dc_inv_name(1) [OF assms(1,2)] assms(3,4) by (simp add: entry_ok_def)
  then show "dc_inv (dc\<lparr>dc_currentSize := dc_currentSize dc - de_size (val_of (dc_order dc) e) + de_size v,
                    dc_order := MoveToFront e (set_val e v (dc_order dc))\<rparr>)"
    using up(1) entry_total [OF assms(1,2)] lru_drop_entry_ok [OF dc_invD(3) [OF assms(1)]]
    by (simp add: dc_inv_def r)
qed

lemma cachePath_key [simp]:
  "cachePath c (cacheKey s3Key etag) = Inr (filepath_Join [dcc_Dir c, take 2 (cacheKey s3Key etag), cacheKey s3Key etag])"
  using cacheKey_name [of s3Key etag] by (simp add: cachePath_ok cache_name_def)

lemma counters_irrelevant [simp]:
  "dc_inv (dc\<lparr>dc_misses := m\<rparr>) = dc_inv dc" "dc_inv (dc\<lparr>dc_hits := m\<rparr>) = dc_inv dc"
  "dc_view (dc\<lparr>dc_misses := m\<rparr>) = dc_view dc" "dc_view (dc\<lparr>dc_hits := m\<rparr>) = dc_view dc"
  by (simp_all add: dc_inv_def dc_view_def fun_eq_iff split: sum.split)

text \<open>
  The first section either misses, with the entry absent or expired and dropped, or moves the
  live entry to the front and leaves everything else alone.
\<close>

lemma get_lookup_ok:
  assumes "dc_inv dc"
  obtains st dc' where "get_lookup os now s3Key etag dc = Inr (st, dc')" and "dc_inv dc'"
    and "dc_config dc' = dc_config dc" and "dc_currentSize dc' \<le> dc_currentSize dc"
    and "dc_view dc' \<subseteq>\<^sub>m dc_view dc"
    and "\<And>p k e. st = GetOpen p k e \<Longrightarrow> k = cacheKey s3Key etag \<and> cachePath (dc_config dc) k = Inr p \<and>
           dc_items dc' k = Some e \<and> dc_items dc k = Some e \<and> dc_disk dc' = dc_disk dc \<and> dc_view dc' = dc_view dc"
    and "st = GetMiss \<Longrightarrow> (case dc_items dc (cacheKey s3Key etag) of None \<Rightarrow> True
           | Some e \<Rightarrow> dcc_DataTTL (dc_config dc) > 0 \<and>
               time_Since now (de_accessTime (val_of (dc_order dc) e)) > dcc_DataTTL (dc_config dc))"
proof (cases "dc_items dc (cacheKey s3Key etag)")
  case None
  with assms show thesis
    by (intro that [of GetMiss "dc\<lparr>dc_misses := dc_misses dc + 1\<rparr>"]) (auto simp: get_lookup_def Let_def)
next
  case (Some e)
  let ?k = "cacheKey s3Key etag" and ?v = "val_of (dc_order dc) e"
  let ?p = "filepath_Join [dcc_Dir (dc_config dc), take 2 ?k, ?k]"
  note n = dc_inv_name [OF assms Some]
  have pos: "0 \<le> de_size ?v" using n(2) dc_invD(3) [OF assms] by (auto simp: list_all_iff entry_ok_def)
  show thesis
  proof (cases "dcc_DataTTL (dc_config dc) > 0 \<and> time_Since now (de_accessTime ?v) > dcc_DataTTL (dc_config dc)")
    case True
    have "dc_view (dropEntry os ?p ?k e dc) \<subseteq>\<^sub>m dc_view dc"
      by (rule map_leI) (simp add: dropEntry_view [OF assms Some cachePath_key] split: if_splits)
    with True Some dropEntry_ok(1) [OF assms Some, of os ?p] pos show thesis
      by (intro that [of GetMiss "(dropEntry os ?p ?k e dc)\<lparr>dc_misses := dc_misses (dropEntry os ?p ?k e dc) + 1\<rparr>"])
         (auto simp: get_lookup_def Let_def)
  next
    case False
    let ?dc = "dc\<lparr>dc_order := MoveToFront e (set_val e (?v\<lparr>de_accessTime := now\<rparr>) (dc_order dc))\<rparr>"
    have "dc_inv ?dc"
      using touch_ok(1) [OF assms Some, of "?v\<lparr>de_accessTime := now\<rparr>"] n(3) pos by simp
    moreover have "dc_view ?dc = dc_view dc" by (simp add: dc_view_def fun_eq_iff split: sum.split)
    ultimately show thesis
      using False Some by (intro that [of "GetOpen ?p ?k e" ?dc]) (auto simp: get_lookup_def Let_def)
  qed
qed

lemma get_open_ok:
  assumes "dc_inv dc" and "dc_items dc k = Some e" and "cachePath (dc_config dc) k = Inr p"
  shows "dc_inv (snd (get_open os p k e dc))" and "dc_config (snd (get_open os p k e dc)) = dc_config dc"
    and "dc_currentSize (snd (get_open os p k e dc)) \<le> dc_currentSize dc"
    and "dc_view (snd (get_open os p k e dc)) \<subseteq>\<^sub>m dc_view dc"
    and "fst (get_open os p k e dc) = (if os_open_ok os p then dc_view dc k else None)"
proof -
  have o: "os_Open os p dc = (if os_open_ok os p then dc_view dc k else None)"
    using assms(2,3) by (simp add: os_Open_def dc_view_def)
  then show "fst (get_open os p k e dc) = (if os_open_ok os p then dc_view dc k else None)"
    by (simp add: get_open_def split: option.split)
  \<comment> \<open>the miss branch is a removal whose file deletion does nothing\<close>
  let ?os = "\<lparr>os_remove_ok = \<lambda>_. False, os_open_ok = \<lambda>_. False\<rparr>"
  define dc1 where "dc1 = dropEntry ?os p k e dc"
  have d: "get_open os p k e dc = (case os_Open os p dc of Some f \<Rightarrow> (Some f, dc\<lparr>dc_hits := dc_hits dc + 1\<rparr>)
      | None \<Rightarrow> (None, dc1\<lparr>dc_misses := dc_misses dc1 + 1\<rparr>))"
    by (simp add: get_open_def dc1_def dropEntry_def os_Remove_def Let_def split: option.split)
  have i: "dc_inv dc1" unfolding dc1_def by (rule dropEntry_ok(1) [OF assms(1,2)])
  have v: "dc_view dc1 \<subseteq>\<^sub>m dc_view dc"
    by (rule map_leI) (simp add: dc1_def dropEntry_view [OF assms] split: if_splits)
  have c: "dc_config dc1 = dc_config dc" "dc_currentSize dc1 \<le> dc_currentSize dc"
    using dc_invD(3) [OF assms(1)] dc_inv_name(2) [OF assms(1,2)]
    by (auto simp: dc1_def list_all_iff entry_ok_def)
  show "dc_inv (snd (get_open os p k e dc))" "dc_config (snd (get_open os p k e dc)) = dc_config dc"
    "dc_currentSize (snd (get_open os p k e dc)) \<le> dc_currentSize dc"
    "dc_view (snd (get_open os p k e dc)) \<subseteq>\<^sub>m dc_view dc"
    using assms(1) i v c by (simp_all add: d split: option.split)
qed

lemma dc_Get_ok:
  assumes "dc_inv dc"
  obtains r dc' where "dc_Get os now s3Key etag dc = Inr (r, dc')" and "dc_inv dc'"
    and "dc_config dc' = dc_config dc" and "dc_currentSize dc' \<le> dc_currentSize dc"
    and "dc_view dc' \<subseteq>\<^sub>m dc_view dc" and "r = None \<or> r = dc_view dc (cacheKey s3Key etag)"
proof -
  obtain st dc1 where g: "get_lookup os now s3Key etag dc = Inr (st, dc1)" "dc_inv dc1"
      "dc_config dc1 = dc_config dc" "dc_currentSize dc1 \<le> dc_currentSize dc" "dc_view dc1 \<subseteq>\<^sub>m dc_view dc"
    and st: "\<And>p k e. st = GetOpen p k e \<Longrightarrow> k = cacheKey s3Key etag \<and> cachePath (dc_config dc) k = Inr p \<and>
           dc_items dc1 k = Some e \<and> dc_items dc k = Some e \<and> dc_disk dc1 = dc_disk dc \<and> dc_view dc1 = dc_view dc"
    by (rule get_lookup_ok [OF assms, of os now s3Key etag], rule that) simp_all
  show thesis
  proof (cases st)
    case GetMiss
    with g show thesis by (intro that [of None dc1]) (simp_all add: dc_Get_def)
  next
    case (GetOpen p k e)
    note s = st [OF GetOpen]
    with g(3) have "cachePath (dc_config dc1) k = Inr p" by metis
    note o = get_open_ok [OF g(2) _ this, of e os]
    from g GetOpen s o show thesis
      by (intro that [of "fst (get_open os p k e dc1)" "snd (get_open os p k e dc1)"])
         (auto simp: dc_Get_def)
  qed
qed

text \<open>An entry that does not expire and whose file opens is a hit, and stays one.\<close>

lemma dc_Get_hit:
  assumes "dc_inv dc" and "dc_view dc (cacheKey s3Key etag) = Some x" and "dcc_DataTTL (dc_config dc) \<le> 0" and "\<forall>p. os_open_ok os p"
  obtains dc' where "dc_Get os now s3Key etag dc = Inr (Some x, dc')" and "dc_inv dc'" and "dc_config dc' = dc_config dc"
    and "dc_view dc' = dc_view dc"
proof -
  obtain st dc1 where g: "get_lookup os now s3Key etag dc = Inr (st, dc1)" "dc_inv dc1"
      "dc_config dc1 = dc_config dc" "dc_currentSize dc1 \<le> dc_currentSize dc" "dc_view dc1 \<subseteq>\<^sub>m dc_view dc"
    and st: "\<And>p k e. st = GetOpen p k e \<Longrightarrow> k = cacheKey s3Key etag \<and> cachePath (dc_config dc) k = Inr p \<and>
           dc_items dc1 k = Some e \<and> dc_items dc k = Some e \<and> dc_disk dc1 = dc_disk dc \<and> dc_view dc1 = dc_view dc"
    by (rule get_lookup_ok [OF assms(1), of os now s3Key etag], rule that) simp_all
  obtain e where e: "dc_items dc (cacheKey s3Key etag) = Some e" using assms(2) by (cases "dc_items dc (cacheKey s3Key etag)") (auto simp: dc_view_def)
  obtain p where p: "st = GetOpen p (cacheKey s3Key etag) e"
    using g(1) e assms(3) by (auto simp: get_lookup_def Let_def)
  note s = st [OF p]
  then have "os_Open os p dc1 = Some x" using assms(2,4) by (simp add: dc_view_def os_Open_def)
  with g p s show thesis
    by (intro that [of "dc1\<lparr>dc_hits := dc_hits dc1 + 1\<rparr>"]) (simp_all add: dc_Get_def get_open_def dc_inv_def dc_view_def)
qed

subsection \<open>Put\<close>

lemma putLocked_ok:
  assumes "dc_inv dc" and "cache_name k" and "0 \<le> n"
  shows "dc_inv (putLocked now k s3Key n dc)" and "dc_config (putLocked now k s3Key n dc) = dc_config dc"
    and "dc_disk (putLocked now k s3Key n dc) = dc_disk dc"
    and "dc_items (putLocked now k s3Key n dc) k' = None \<longleftrightarrow> k' \<noteq> k \<and> dc_items dc k' = None"
    and "\<exists>v. dc_recent (putLocked now k s3Key n dc) = v # lru_drop de_key k (dc_recent dc) \<and>
           de_key v = k \<and> de_size v = n \<and> de_accessTime v = now"
proof -
  note lru = dc_invD(1) [OF assms(1)]
  have *: "dc_inv (putLocked now k s3Key n dc) \<and> dc_config (putLocked now k s3Key n dc) = dc_config dc \<and>
     dc_disk (putLocked now k s3Key n dc) = dc_disk dc \<and>
     (\<forall>k'. dc_items (putLocked now k s3Key n dc) k' = None \<longleftrightarrow> k' \<noteq> k \<and> dc_items dc k' = None) \<and>
     (\<exists>v. dc_recent (putLocked now k s3Key n dc) = v # lru_drop de_key k (dc_recent dc) \<and>
           de_key v = k \<and> de_size v = n \<and> de_accessTime v = now)"
  proof (cases "dc_items dc k")
    case None
    let ?v = "\<lparr>de_key = k, de_s3Key = s3Key, de_size = n, de_accessTime = now\<rparr>"
    obtain e l where pf: "PushFront ?v (dc_order dc) = (e, l)" by (cases "PushFront ?v (dc_order dc)")
    have "dc_items dc (de_key ?v) = None" using None by simp
    note pu = lru_PushFront [OF lru this pf]
    have "lru_drop de_key k (dc_recent dc) = dc_recent dc"
      using None lru_find_recency [OF lru, of k] by (simp add: lru_drop_id)
    with pu None assms dc_invD(2,3) [OF assms(1)] show ?thesis
      by (auto simp: putLocked_def pf dc_inv_def entry_ok_def)
  next
    case (Some e)
    let ?v = "(val_of (dc_order dc) e)\<lparr>de_size := n, de_accessTime := now\<rparr>"
    have k: "de_key ?v = k" using dc_inv_name(3) [OF assms(1) Some] by simp
    with touch_ok [OF assms(1) Some, of ?v] assms(3) Some show ?thesis
      by (auto simp: putLocked_def Let_def)
  qed
  then show "dc_inv (putLocked now k s3Key n dc)" "dc_config (putLocked now k s3Key n dc) = dc_config dc"
    "dc_disk (putLocked now k s3Key n dc) = dc_disk dc"
    "dc_items (putLocked now k s3Key n dc) k' = None \<longleftrightarrow> k' \<noteq> k \<and> dc_items dc k' = None"
    "\<exists>v. dc_recent (putLocked now k s3Key n dc) = v # lru_drop de_key k (dc_recent dc) \<and>
           de_key v = k \<and> de_size v = n \<and> de_accessTime v = now"
    by simp_all
qed

text \<open>Writing a file that no indexed digest names leaves the content of every digest.\<close>

lemma dc_view_disk:
  assumes "dc_inv dc" and "\<And>k. cache_name k \<Longrightarrow> dc_items dc k \<noteq> None \<Longrightarrow> cachePath (dc_config dc) k \<noteq> Inr p"
  shows "dc_view (dc\<lparr>dc_disk := (dc_disk dc)(p := x)\<rparr>) = dc_view dc"
proof
  fix k
  show "dc_view (dc\<lparr>dc_disk := (dc_disk dc)(p := x)\<rparr>) k = dc_view dc k"
    using assms(2) [of k] dc_inv_name(1) [OF assms(1), of k]
    by (cases "dc_items dc k") (auto simp: dc_view_def split: sum.split)
qed

definition put_io_ok :: "put_io \<Rightarrow> bool" where
  "put_io_ok io \<longleftrightarrow> pio_mkdir io = None \<and> pio_create io = None \<and> pio_copy io = None \<and>
     pio_close io = None \<and> pio_rename io = None"

lemma disk_irrelevant [simp]: "dc_inv (dc\<lparr>dc_disk := d\<rparr>) = dc_inv dc"
  by (simp add: dc_inv_def)

lemma put_commit_view:
  assumes "dc_inv dc" and "cachePath (dc_config dc) k = Inr p" and "cache_name k" and "0 \<le> n"
  shows "dc_view (putLocked now k s3Key n (dc\<lparr>dc_disk := (dc_disk dc)(p \<mapsto> data, tmp_path p r := None)\<rparr>)) =
         (dc_view dc)(k \<mapsto> data)"
proof
  fix k'
  let ?d = "(dc_disk dc)(p \<mapsto> data, tmp_path p r := None)"
  note pl = putLocked_ok [of "dc\<lparr>dc_disk := ?d\<rparr>" k n now s3Key, OF _ assms(3,4)]
  have v: "dc_view (putLocked now k s3Key n (dc\<lparr>dc_disk := ?d\<rparr>)) k' =
      (if k' \<noteq> k \<and> dc_items dc k' = None then None
       else case cachePath (dc_config dc) k' of Inl _ \<Rightarrow> None | Inr q \<Rightarrow> ?d q)"
    using pl(2,3) pl(4) [of k'] assms(1) by (simp add: dc_view_def split: sum.split)
  show "dc_view (putLocked now k s3Key n (dc\<lparr>dc_disk := ?d\<rparr>)) k' = ((dc_view dc)(k \<mapsto> data)) k'"
  proof (cases "k' = k")
    case True
    with cachePath_not_tmp [OF assms(3,2), of p r] assms(2) v show ?thesis by simp
  next
    case False
    show ?thesis
    proof (cases "dc_items dc k'")
      case (Some e)
      note n = dc_inv_name(1) [OF assms(1) Some]
      have "q \<noteq> p \<and> q \<noteq> tmp_path p r" if "cachePath (dc_config dc) k' = Inr q" for q
        using that cachePath_inj [OF n assms(3)] assms(2) False cachePath_not_tmp [OF n that] by auto
      with False Some show ?thesis unfolding v by (simp add: dc_view_def split: sum.split)
    next
      case None
      with False show ?thesis unfolding v by (simp add: dc_view_def)
    qed
  qed
qed

text \<open>A failed \<open>Put\<close> changes no content; a successful one adds its content and evicts.\<close>

lemma dc_Put_failed:
  assumes "dc_inv dc" and "\<not> put_io_ok io"
  shows "fst (dc_Put os io now s3Key etag data dc) \<noteq> None"
    and "dc_inv (snd (dc_Put os io now s3Key etag data dc))"
    and "dc_config (snd (dc_Put os io now s3Key etag data dc)) = dc_config dc"
    and "dc_currentSize (snd (dc_Put os io now s3Key etag data dc)) = dc_currentSize dc"
    and "dc_view (snd (dc_Put os io now s3Key etag data dc)) = dc_view dc"
proof -
  let ?p = "filepath_Join [dcc_Dir (dc_config dc), take 2 (cacheKey s3Key etag), cacheKey s3Key etag]"
  let ?t = "tmp_path ?p (pio_random io)"
  let ?dc1 = "dc\<lparr>dc_disk := (dc_disk dc)(?t \<mapsto> data)\<rparr>"
  have v1: "dc_view ?dc1 = dc_view dc"
    by (rule dc_view_disk [OF assms(1)]) (use cachePath_not_tmp in blast)
  have "dc_view (dc\<lparr>dc_disk := (dc_disk dc)(?t := None)\<rparr>) = dc_view dc"
    by (rule dc_view_disk [OF assms(1)]) (use cachePath_not_tmp in blast)
  with v1 have v2: "dc_view (os_Remove os ?t ?dc1) = dc_view dc" by (simp add: os_Remove_def)
  have i2: "dc_inv (os_Remove os ?t ?dc1)" using assms(1) by (simp add: os_Remove_def)
  show "fst (dc_Put os io now s3Key etag data dc) \<noteq> None"
    "dc_inv (snd (dc_Put os io now s3Key etag data dc))"
    "dc_config (snd (dc_Put os io now s3Key etag data dc)) = dc_config dc"
    "dc_currentSize (snd (dc_Put os io now s3Key etag data dc)) = dc_currentSize dc"
    "dc_view (snd (dc_Put os io now s3Key etag data dc)) = dc_view dc"
    using assms v2 i2 by (auto simp: dc_Put_def put_io_ok_def Let_def split: option.split)
qed

lemma dc_Put_success:
  assumes "dc_inv dc" and "put_io_ok io" and "0 \<le> dcc_MaxSize (dc_config dc)"
  obtains dc' v where "dc_Put os io now s3Key etag data dc = (None, dc')" and "dc_inv dc'" and "dc_bounded dc'"
    and "dc_config dc' = dc_config dc" and "dc_view dc' \<subseteq>\<^sub>m (dc_view dc)(cacheKey s3Key etag \<mapsto> data)"
    and "\<And>k. dc_items dc' k \<noteq> None \<Longrightarrow> dc_view dc' k = ((dc_view dc)(cacheKey s3Key etag \<mapsto> data)) k"
    and "dc_recent dc' = trim (dc_config dc) now (v # lru_drop de_key (cacheKey s3Key etag) (dc_recent dc))"
    and "de_key v = cacheKey s3Key etag" and "de_size v = int (length data)" and "de_accessTime v = now"
proof -
  let ?k = "cacheKey s3Key etag"
  let ?p = "filepath_Join [dcc_Dir (dc_config dc), take 2 ?k, ?k]"
  let ?dc2 = "dc\<lparr>dc_disk := (dc_disk dc)(?p \<mapsto> data, tmp_path ?p (pio_random io) := None)\<rparr>"
  define dc3 where "dc3 = putLocked now ?k s3Key (int (length data)) ?dc2"
  have i2: "dc_inv ?dc2" using assms(1) by simp
  note pl = putLocked_ok [OF i2 cacheKey_name, of "int (length data)" now s3Key etag s3Key, folded dc3_def]
  obtain v where v: "dc_recent dc3 = v # lru_drop de_key ?k (dc_recent dc)" "de_key v = ?k"
      "de_size v = int (length data)" "de_accessTime v = now"
    using pl(5) by auto
  have view: "dc_view dc3 = (dc_view dc)(?k \<mapsto> data)"
    unfolding dc3_def by (rule put_commit_view [OF assms(1)]) simp_all
  obtain dc' where e: "evict os now dc3 = Inr dc'" "dc_inv dc'" "dc_config dc' = dc_config dc3"
      "dc_recent dc' = trim (dc_config dc3) now (dc_recent dc3)" "shrinks dc3 dc'" "dc_view dc' \<subseteq>\<^sub>m dc_view dc3"
    using evict_ok [of dc3 os now] pl(1) by auto
  have np: "?p \<noteq> tmp_path ?p (pio_random io)" by (rule cachePath_not_tmp [OF cacheKey_name cachePath_key])
  have "(dc_disk dc)(tmp_path ?p (pio_random io) \<mapsto> data, ?p \<mapsto> data, tmp_path ?p (pio_random io) := None) =
        (dc_disk dc)(?p \<mapsto> data, tmp_path ?p (pio_random io) := None)"
    using np by (auto simp: fun_eq_iff)
  then have "dc_Put os io now s3Key etag data dc = (None, dc')"
    using assms(2) e(1) by (simp add: dc_Put_def put_io_ok_def Let_def dc3_def)
  moreover have "dc_bounded dc'" using evict_bounded [OF pl(1) _ e(1)] pl(2) assms(3) by simp
  ultimately show thesis
    using e pl(2) v view by (intro that [of dc' v]) (simp_all add: shrinks_def)
qed

subsection \<open>Invalidate\<close>

lemma invalidate_one_ok:
  assumes "dc_inv dc"
  shows "\<exists>dc'. invalidate_one os s3Key k dc = Inr dc' \<and> dc_inv dc' \<and> dc_config dc' = dc_config dc \<and>
    dc_currentSize dc' \<le> dc_currentSize dc \<and> dc_view dc' \<subseteq>\<^sub>m dc_view dc \<and>
    dc_recent dc' = filter (\<lambda>e. \<not> (de_key e = k \<and> de_s3Key e = s3Key)) (dc_recent dc)"
proof (cases "dc_items dc k")
  case None
  with lru_find_recency [OF dc_invD(1) [OF assms], of k] have "\<forall>e\<in>set (dc_recent dc). de_key e \<noteq> k"
    by (auto simp: lru_find_None)
  with None assms show ?thesis by (simp add: invalidate_one_def)
next
  case (Some e)
  note n = dc_inv_name [OF assms Some]
  let ?p = "filepath_Join [dcc_Dir (dc_config dc), take 2 k, k]"
  have p: "cachePath (dc_config dc) k = Inr ?p" using n(1) by (simp add: cachePath_ok cache_name_def)
  have u: "x = val_of (dc_order dc) e" if "x \<in> set (dc_recent dc)" "de_key x = k" for x
    using that n(2,3) dc_invD(4) [OF assms] by (auto simp: distinct_map inj_on_def)
  show ?thesis
  proof (cases "de_s3Key (val_of (dc_order dc) e) = s3Key")
    case True
    have v: "dc_view (dropEntry os ?p k e dc) \<subseteq>\<^sub>m dc_view dc"
      by (rule map_leI) (simp add: dropEntry_view [OF assms Some p] split: if_splits)
    have s: "0 \<le> de_size (val_of (dc_order dc) e)"
      using n(2) dc_invD(3) [OF assms] by (auto simp: list_all_iff entry_ok_def)
    have "lru_drop de_key k (dc_recent dc) = filter (\<lambda>e. \<not> (de_key e = k \<and> de_s3Key e = s3Key)) (dc_recent dc)"
      unfolding lru_drop_def by (rule filter_cong) (use u True in auto)
    with True Some p v s dropEntry_ok [OF assms Some] show ?thesis by (auto simp: invalidate_one_def)
  next
    case False
    have "filter (\<lambda>e. \<not> (de_key e = k \<and> de_s3Key e = s3Key)) (dc_recent dc) = dc_recent dc"
      by (rule filter_True) (use u False in auto)
    with False Some assms show ?thesis by (simp add: invalidate_one_def)
  qed
qed

lemma invalidate_loop_ok:
  assumes "dc_inv dc"
  shows "\<exists>dc'. invalidate_loop os s3Key ks dc = Inr dc' \<and> dc_inv dc' \<and> dc_config dc' = dc_config dc \<and>
    dc_currentSize dc' \<le> dc_currentSize dc \<and> dc_view dc' \<subseteq>\<^sub>m dc_view dc \<and>
    dc_recent dc' = filter (\<lambda>e. \<not> (de_key e \<in> set ks \<and> de_s3Key e = s3Key)) (dc_recent dc)"
  using assms
proof (induction ks arbitrary: dc)
  case (Cons k ks)
  obtain dc1 where 1: "invalidate_one os s3Key k dc = Inr dc1" "dc_inv dc1" "dc_config dc1 = dc_config dc"
    "dc_currentSize dc1 \<le> dc_currentSize dc" "dc_view dc1 \<subseteq>\<^sub>m dc_view dc"
    "dc_recent dc1 = filter (\<lambda>e. \<not> (de_key e = k \<and> de_s3Key e = s3Key)) (dc_recent dc)"
    using invalidate_one_ok [OF Cons.prems, of os s3Key k] by auto
  obtain dc2 where 2: "invalidate_loop os s3Key ks dc1 = Inr dc2" "dc_inv dc2" "dc_config dc2 = dc_config dc1"
    "dc_currentSize dc2 \<le> dc_currentSize dc1" "dc_view dc2 \<subseteq>\<^sub>m dc_view dc1"
    "dc_recent dc2 = filter (\<lambda>e. \<not> (de_key e \<in> set ks \<and> de_s3Key e = s3Key)) (dc_recent dc1)"
    using Cons.IH [OF 1(2)] by auto
  have "dc_recent dc2 = filter (\<lambda>e. \<not> (de_key e \<in> set (k # ks) \<and> de_s3Key e = s3Key)) (dc_recent dc)"
    by (auto simp: 1(6) 2(6) intro!: filter_cong)
  with 1(1-5) 2(1-5) show ?case by (auto intro: map_le_trans)
qed simp

lemma dc_Invalidate_ok:
  assumes "dc_inv dc" and "range_ok rng"
  obtains dc' where "dc_Invalidate os rng s3Key dc = Inr dc'" and "dc_inv dc'" and "dc_config dc' = dc_config dc"
    and "dc_currentSize dc' \<le> dc_currentSize dc" and "dc_view dc' \<subseteq>\<^sub>m dc_view dc"
    and "dc_recent dc' = filter (\<lambda>e. de_s3Key e \<noteq> s3Key) (dc_recent dc)"
proof -
  obtain dc' where d: "dc_Invalidate os rng s3Key dc = Inr dc'" "dc_inv dc'" "dc_config dc' = dc_config dc"
    "dc_currentSize dc' \<le> dc_currentSize dc" "dc_view dc' \<subseteq>\<^sub>m dc_view dc"
    "dc_recent dc' = filter (\<lambda>e. \<not> (de_key e \<in> set (rng (dom (dc_items dc))) \<and> de_s3Key e = s3Key)) (dc_recent dc)"
    using invalidate_loop_ok [OF assms(1), of os s3Key "rng (dom (dc_items dc))"] by (auto simp: dc_Invalidate_def)
  have "de_key e \<in> dom (dc_items dc)" if "e \<in> set (dc_recent dc)" for e
    using that lru_None [OF dc_invD(1) [OF assms(1)], of "de_key e"] by auto
  then have "dc_recent dc' = filter (\<lambda>e. de_s3Key e \<noteq> s3Key) (dc_recent dc)"
    using range_okD(1) [OF assms(2) dc_invD(5) [OF assms(1)]] by (auto simp: d(6) intro!: filter_cong)
  with d(1-5) show thesis by (rule that)
qed

subsection \<open>Start\<close>

text \<open>The entries a scan finds, in the order it finds them.\<close>

definition file_entry :: "dirent \<Rightarrow> dataEntry list" where
  "file_entry f =
     (if dn_isDir f \<or> HasPrefix (dn_name f) ''.tmp-'' then []
      else case dn_info f of None \<Rightarrow> []
           | Some (sz, mtime) \<Rightarrow> [\<lparr>de_key = dn_name f, de_s3Key = [], de_size = sz, de_accessTime = mtime\<rparr>])"

definition shard_entries :: "(string \<Rightarrow> dirent list option) \<Rightarrow> string \<Rightarrow> dirent \<Rightarrow> dataEntry list" where
  "shard_entries readDir dir shard =
     (if \<not> dn_isDir shard \<or> length (dn_name shard) \<noteq> 2 then []
      else case readDir (filepath_Join [dir, dn_name shard]) of None \<Rightarrow> []
           | Some files \<Rightarrow> concat (map file_entry files))"

definition scanned :: "(string \<Rightarrow> dirent list option) \<Rightarrow> string \<Rightarrow> dataEntry list" where
  "scanned readDir dir =
     (case readDir dir of None \<Rightarrow> [] | Some shards \<Rightarrow> concat (map (shard_entries readDir dir) shards))"

definition push_entry :: "dataEntry \<Rightarrow> DataCache \<Rightarrow> DataCache" where
  "push_entry v dc =
     (let (elem, order') = PushBack v (dc_order dc)
      in dc\<lparr>dc_order := order', dc_items := (dc_items dc)(de_key v \<mapsto> elem),
            dc_currentSize := dc_currentSize dc + de_size v\<rparr>)"

lemma push_entry_config [simp]: "dc_config (push_entry v dc) = dc_config dc"
  by (simp add: push_entry_def case_prod_beta)

lemma fold_push_config [simp]: "dc_config (fold push_entry vs dc) = dc_config dc"
  by (induction vs arbitrary: dc) auto

lemma scan_file_push: "scan_file f = fold push_entry (file_entry f)"
  by (auto simp: fun_eq_iff scan_file_def file_entry_def push_entry_def split: option.split)

lemma fold_scan_file: "fold scan_file files = fold push_entry (concat (map file_entry files))"
  by (induction files) (auto simp: scan_file_push)

lemma scan_shard_push: "scan_shard readDir shard dc = fold push_entry (shard_entries readDir (dcc_Dir (dc_config dc)) shard) dc"
  by (auto simp: scan_shard_def shard_entries_def fold_scan_file split: option.split)

lemma fold_scan_shard:
  "fold (scan_shard readDir) shards dc =
     fold push_entry (concat (map (shard_entries readDir (dcc_Dir (dc_config dc))) shards)) dc"
  by (induction shards arbitrary: dc) (simp_all add: scan_shard_push)

lemma scanDir_push: "scanDir readDir dc = fold push_entry (scanned readDir (dcc_Dir (dc_config dc))) dc"
  by (simp add: scanDir_def scanned_def fold_scan_shard split: option.split)

text \<open>
  A cache directory holds every name once, and only addressable names; a directory that only
  the cache has written to does, because it files each digest under its own first two bytes.
\<close>

definition cache_dir_ok :: "dataEntry list \<Rightarrow> bool" where
  "cache_dir_ok vs \<longleftrightarrow> distinct (map de_key vs) \<and> list_all entry_ok vs"

lemma fold_push_ok:
  assumes "dc_inv dc" and "distinct (map de_key (dc_recent dc @ vs))" and "list_all entry_ok vs"
  shows "dc_inv (fold push_entry vs dc) \<and> dc_recent (fold push_entry vs dc) = dc_recent dc @ vs"
  using assms
proof (induction vs arbitrary: dc)
  case (Cons v vs)
  note lru = dc_invD(1) [OF Cons.prems(1)]
  have "dc_items dc (de_key v) = None"
    using Cons.prems(2) by (auto simp: lru_None [OF lru])
  note pb = lru_PushBack [OF lru this surjective_pairing]
  have r: "dc_recent (push_entry v dc) = dc_recent dc @ [v]"
    using pb(2) by (simp add: push_entry_def case_prod_beta)
  have "dc_inv (push_entry v dc)"
    using pb Cons.prems(1,3) by (simp add: dc_inv_def push_entry_def case_prod_beta)
  from Cons.IH [OF this] Cons.prems r show ?case by simp
qed simp

lemma NewDataCache_ok:
  assumes "mkdirAll = None"
    and "cache_dir_ok (scanned readDir (if dcc_Dir config = [] then defaultDataCacheDir else dcc_Dir config))"
  obtains dc where "NewDataCache os now mkdirAll readDir disk config = Inr dc"
    and "dc_inv dc" and "dc_bounded dc"
    and "dc_config dc = config\<lparr>dcc_Dir := if dcc_Dir config = [] then defaultDataCacheDir else dcc_Dir config,
      dcc_MaxSize := if dcc_MaxSize config \<le> 0 then defaultDataCacheMaxSize else dcc_MaxSize config,
      dcc_EvictionInterval := if dcc_EvictionInterval config \<le> 0 then 30 * second else dcc_EvictionInterval config\<rparr>"
proof -
  define dir where "dir = (if dcc_Dir config = [] then defaultDataCacheDir else dcc_Dir config)"
  define mx where "mx = (if dcc_MaxSize config \<le> 0 then defaultDataCacheMaxSize else dcc_MaxSize config)"
  define iv where "iv = (if dcc_EvictionInterval config \<le> 0 then 30 * second else dcc_EvictionInterval config)"
  define dc0 where "dc0 = \<lparr>dc_config = config\<lparr>dcc_Dir := dir, dcc_MaxSize := mx, dcc_EvictionInterval := iv\<rparr>,
     dc_items = Map.empty, dc_order = list_New, dc_currentSize = 0, dc_hits = 0, dc_misses = 0,
     dc_stopped = False, dc_disk = disk\<rparr>"
  have n: "NewDataCache os now mkdirAll readDir disk config = evict os now (scanDir readDir dc0)"
    by (simp add: NewDataCache_def assms(1) Let_def dc0_def dir_def mx_def iv_def)
  have "dc_inv dc0" by (simp add: dc0_def dc_inv_def)
  moreover have "dc_recent dc0 = []" by (simp add: dc0_def)
  ultimately have i: "dc_inv (scanDir readDir dc0)"
    using fold_push_ok [of dc0 "scanned readDir dir"] assms(2) dir_def
    by (simp add: scanDir_push cache_dir_ok_def) (simp add: dc0_def)
  have "0 \<le> mx" by (simp add: mx_def defaultDataCacheMaxSize_def)
  then have m: "0 \<le> dcc_MaxSize (dc_config (scanDir readDir dc0))"
    by (simp add: scanDir_push) (simp add: dc0_def)
  obtain dc where e: "evict os now (scanDir readDir dc0) = Inr dc" "dc_inv dc" "dc_config dc = dc_config (scanDir readDir dc0)"
    by (rule evict_ok [OF i])
  moreover have "dc_config (scanDir readDir dc0) = config\<lparr>dcc_Dir := dir, dcc_MaxSize := mx, dcc_EvictionInterval := iv\<rparr>"
    by (simp add: scanDir_push) (simp add: dc0_def)
  ultimately show thesis using n evict_bounded [OF i m e(1)] by (intro that [of dc]) (simp_all add: dir_def mx_def iv_def)
qed

subsection \<open>Runs of the cache\<close>

text \<open>
  \<open>DcVanish\<close> is somebody else deleting a file below the cache directory.
\<close>

datatype dc_op =
    DcGet time string string
  | DcPut put_io time string string bytes
  | DcInvalidate string
  | DcEvict time
  | DcVanish string

fun dc_result :: "osenv \<Rightarrow> rangeorder \<Rightarrow> dc_op \<Rightarrow> DataCache \<Rightarrow> DataCache result" where
  "dc_result os rng (DcGet now k etag) dc = res_bind (dc_Get os now k etag dc) (\<lambda>(r, dc'). Inr dc')"
| "dc_result os rng (DcPut io now k etag data) dc =
     (case dc_Put os io now k etag data dc of (Some (Panic m), dc') \<Rightarrow> Inl (Panic m) | (_, dc') \<Rightarrow> Inr dc')"
| "dc_result os rng (DcInvalidate k) dc = dc_Invalidate os rng k dc"
| "dc_result os rng (DcEvict now) dc = evict os now dc"
| "dc_result os rng (DcVanish p) dc = Inr (dc\<lparr>dc_disk := (dc_disk dc)(p := None)\<rparr>)"

definition dc_step :: "osenv \<Rightarrow> rangeorder \<Rightarrow> dc_op \<Rightarrow> DataCache \<Rightarrow> DataCache" where
  "dc_step os rng x dc = (case dc_result os rng x dc of Inl _ \<Rightarrow> dc | Inr dc' \<Rightarrow> dc')"

fun content_effect :: "dc_op \<Rightarrow> (string, bytes) map_op" where
  "content_effect (DcPut io now k etag data) = (if put_io_ok io then MPut (cacheKey k etag) data else MNop)"
| "content_effect _ = MNop"

lemma dc_Put_failed_shape:
  "\<not> put_io_ok io \<Longrightarrow> \<exists>m e. fst (dc_Put os io now k etag data dc) = Some (Wrap m e)"
  by (auto simp: dc_Put_def put_io_ok_def Let_def split: option.split)

lemma dc_result_ok:
  assumes "dc_inv dc" and "dc_bounded dc" and "range_ok rng"
  shows "\<exists>dc'. dc_result os rng x dc = Inr dc' \<and> dc_inv dc' \<and> dc_bounded dc' \<and> dc_config dc' = dc_config dc \<and>
     dc_view dc' \<subseteq>\<^sub>m map_apply (content_effect x) (dc_view dc)"
proof (cases x)
  case (DcGet now k etag)
  show ?thesis
    by (rule dc_Get_ok [OF assms(1), of os now k etag])
       (use assms(2) in \<open>auto simp: DcGet dc_bounded_def\<close>)
next
  case (DcPut io now k etag data)
  show ?thesis
  proof (cases "put_io_ok io")
    case True
    show ?thesis
      by (rule dc_Put_success [OF assms(1) True, of os now k etag data])
         (use assms(2) True in \<open>auto simp: DcPut dc_bounded_def\<close>)
  next
    case False
    note f = dc_Put_failed [OF assms(1) False, of os now k etag data]
    obtain m e where "fst (dc_Put os io now k etag data dc) = Some (Wrap m e)"
      using dc_Put_failed_shape [OF False] by blast
    with f assms(2) False show ?thesis
      by (cases "dc_Put os io now k etag data dc") (auto simp: DcPut dc_bounded_def)
  qed
next
  case (DcInvalidate k)
  show ?thesis
    by (rule dc_Invalidate_ok [OF assms(1,3), of os k]) (use assms(2) in \<open>auto simp: DcInvalidate dc_bounded_def\<close>)
next
  case (DcEvict now)
  obtain dc' where e: "evict os now dc = Inr dc'" "dc_inv dc'" "dc_config dc' = dc_config dc" "dc_view dc' \<subseteq>\<^sub>m dc_view dc"
    by (rule evict_ok [OF assms(1), of os now])
  with evict_bounded [OF assms(1) _ e(1)] assms(2) show ?thesis by (simp add: DcEvict dc_bounded_def)
next
  case (DcVanish p)
  have "dc_view (dc\<lparr>dc_disk := (dc_disk dc)(p := None)\<rparr>) \<subseteq>\<^sub>m dc_view dc"
    by (rule map_leI) (auto simp: dc_view_def split: if_splits sum.splits)
  with assms DcVanish show ?thesis by (simp add: dc_bounded_def)
qed

lemma dc_step_ok:
  assumes "dc_inv dc" and "dc_bounded dc" and "range_ok rng"
  shows "dc_inv (dc_step os rng x dc)" "dc_bounded (dc_step os rng x dc)"
    "dc_view (dc_step os rng x dc) \<subseteq>\<^sub>m map_apply (content_effect x) (dc_view dc)"
    "dc_config (dc_step os rng x dc) = dc_config dc"
  using dc_result_ok [OF assms, of os x] by (auto simp: dc_step_def)

interpretation contents: lossy_cache dc_view "dc_step os rng" content_effect
  "\<lambda>dc. dc_inv dc \<and> dc_bounded dc \<and> range_ok rng" for os rng
  by unfold_locales (auto simp: dc_step_ok)

subsection \<open>Properties\<close>

text \<open>A cache with an empty directory, and system calls that succeed.\<close>

definition empty_dir :: "string \<Rightarrow> dirent list option" where
  "empty_dir p = Some []"

definition os_fine :: osenv where
  "os_fine = \<lparr>os_remove_ok = \<lambda>_. True, os_open_ok = \<lambda>_. True\<rparr>"

definition io_fine :: put_io where
  "io_fine = \<lparr>pio_mkdir = None, pio_create = None, pio_copy = None, pio_close = None, pio_rename = None, pio_random = 7\<rparr>"

lemma io_fine_ok [simp]: "put_io_ok io_fine"
  by (simp add: put_io_ok_def io_fine_def)

lemma empty_dir_ok [simp]: "cache_dir_ok (scanned empty_dir d)"
  by (simp add: scanned_def empty_dir_def cache_dir_ok_def)

definition dc_empty :: DataCache where
  "dc_empty = \<lparr>dc_config = DefaultDataCacheConfig, dc_items = Map.empty, dc_order = list_New, dc_currentSize = 0,
     dc_hits = 0, dc_misses = 0, dc_stopped = False, dc_disk = Map.empty\<rparr>"

lemma dc_empty_New: "NewDataCache os_fine 0 None empty_dir Map.empty DefaultDataCacheConfig = Inr dc_empty"
  by (simp add: NewDataCache_def DefaultDataCacheConfig_def defaultDataCacheDir_def defaultDataCacheMaxSize_def
      scanDir_def empty_dir_def evict_def Let_def evict_size.simps dc_empty_def)

lemma dc_empty_ok: "dc_inv dc_empty" "dc_bounded dc_empty" "dc_view dc_empty = Map.empty"
  by (simp_all add: dc_empty_def dc_inv_def dc_bounded_def DefaultDataCacheConfig_def defaultDataCacheMaxSize_def
      dc_view_def fun_eq_iff)

text \<open>A cache with one entry of five bytes.\<close>

definition dc_one :: DataCache where
  "dc_one = putLocked 0 (cacheKey ''a'' ''e'') ''a'' 5 dc_empty"

lemma dc_one_ok: "dc_inv dc_one" "dc_items dc_one (cacheKey ''a'' ''e'') = Some 0"
    "dc_recent dc_one = [\<lparr>de_key = cacheKey ''a'' ''e'', de_s3Key = ''a'', de_size = 5, de_accessTime = 0\<rparr>]"
    "dc_config dc_one = DefaultDataCacheConfig"
  using putLocked_ok(1) [OF dc_empty_ok(1) cacheKey_name, of 5 0 "''a''" "''e''" "''a''"]
  by (simp_all add: dc_one_def) (simp_all add: putLocked_def dc_empty_def PushFront_def list_New_def recency_def val_of_def)

text \<open>
  C9. The size accounting of the data cache is exact and bounded: after any sequence of
  method calls on a cache started on a well-formed directory, whatever system calls fail,
  \<open>currentSize\<close> is the sum of the sizes of the indexed files and at most \<open>MaxSize\<close>, index and
  list hold the same digests, and the next call does not panic.
\<close>
theorem data_cache_accounting:
  assumes "range_ok rng"
    and "cache_dir_ok (scanned readDir (if dcc_Dir config = [] then defaultDataCacheDir else dcc_Dir config))"
    and "NewDataCache os now None readDir disk config = Inr dc0"
  shows "let dc = fold (dc_step os rng) calls dc0
         in dc_currentSize dc = total_size (dc_recent dc) \<and> dc_currentSize dc \<le> dcc_MaxSize (dc_config dc) \<and>
            dom (dc_items dc) = de_key ` set (dc_recent dc) \<and> distinct (map de_key (dc_recent dc)) \<and>
            is_ok (dc_result os rng call dc)"
proof -
  obtain "dc_inv dc0" "dc_bounded dc0"
    using NewDataCache_ok [OF refl assms(2), of os now disk] assms(3) by (metis sum.inject(2))
  then have "dc_inv (fold (dc_step os rng) calls dc0) \<and> dc_bounded (fold (dc_step os rng) calls dc0) \<and> range_ok rng"
    using assms(1) by (intro contents.run_inv) simp
  then have i: "dc_inv (fold (dc_step os rng) calls dc0)" and b: "dc_bounded (fold (dc_step os rng) calls dc0)"
    by simp_all
  have "is_ok (dc_result os rng call (fold (dc_step os rng) calls dc0))"
    using dc_result_ok [OF i b assms(1), of os call] by auto
  with i b lru_dom [OF dc_invD(1) [OF i]] show ?thesis
    by (simp add: Let_def dc_bounded_def dc_invD(2,4))
qed

theorem data_cache_accounting_witness:
  "let dc = fold (dc_step os_fine sorted_range) [DcPut io_fine 1 ''a'' ''e'' ''hello'', DcGet 2 ''a'' ''e''] dc_empty
   in dc_currentSize dc = total_size (dc_recent dc) \<and> is_ok (dc_result os_fine sorted_range (DcInvalidate ''a'') dc)"
  using data_cache_accounting [OF sorted_range_ok _ dc_empty_New, of "[DcPut io_fine 1 ''a'' ''e'' ''hello'', DcGet 2 ''a'' ''e'']"
      "DcInvalidate ''a''"]
  by (simp add: Let_def)

lemma trim_keeps_head:
  assumes "list_all entry_ok (v # rs)" and "de_size v \<le> dcc_MaxSize c" and "de_accessTime v = now"
  shows "v \<in> set (trim c now (v # rs))"
proof -
  define ws where "ws = (if dcc_DataTTL c > 0 then trim_ttl (dcc_DataTTL c) now (v # rs) else v # rs)"
  have d: "dropWhile P (xs @ [v]) = dropWhile P xs @ [v]" if "\<not> P v" for P xs
    using that by (induction xs) auto
  have "\<exists>us. ws = v # us \<and> set us \<subseteq> set rs"
  proof (cases "dcc_DataTTL c > 0")
    case True
    then have "\<not> time_Sub now (de_accessTime v) > dcc_DataTTL c" by (simp add: assms(3) time_Sub_def)
    then show ?thesis
      using True d [of "\<lambda>e. time_Sub now (de_accessTime e) > dcc_DataTTL c" "rev rs"]
      by (auto simp: ws_def trim_ttl_def dest: set_dropWhileD)
  qed (simp add: ws_def)
  then obtain us where us: "ws = v # us" "set us \<subseteq> set rs" by auto
  then have ok: "list_all entry_ok ws" using assms(1) by (auto simp: list_all_iff)
  have "\<not> length (trim_size (dcc_MaxSize c) ws) < 1"
    using trim_size_maximal [OF ok, of "dcc_MaxSize c" 1] us assms(2) by auto
  with trim_size_prefix [of ws "dcc_MaxSize c"] us(1) have "v \<in> set (trim_size (dcc_MaxSize c) ws)"
    by (auto simp: take_Cons' split: if_splits)
  then show ?thesis by (simp add: trim_def ws_def)
qed

lemma put_then_get:
  assumes "dc_inv dc" and "put_io_ok io" and "int (length data) \<le> dcc_MaxSize (dc_config dc)"
    and "dcc_DataTTL (dc_config dc) \<le> 0 \<or> time_Since now' now \<le> dcc_DataTTL (dc_config dc)"
    and "\<forall>p. os_open_ok os p"
  shows "\<exists>dc' dc''. dc_Put os io now k etag data dc = (None, dc') \<and>
           dc_Get os now' k etag dc' = Inr (Some data, dc'')"
proof -
  let ?k = "cacheKey k etag"
  have "0 \<le> dcc_MaxSize (dc_config dc)" using assms(3) by simp
  then obtain dc' v where p: "dc_Put os io now k etag data dc = (None, dc')" "dc_inv dc'" "dc_config dc' = dc_config dc"
    and view: "\<And>k'. dc_items dc' k' \<noteq> None \<Longrightarrow> dc_view dc' k' = ((dc_view dc)(?k \<mapsto> data)) k'"
    and r: "dc_recent dc' = trim (dc_config dc) now (v # lru_drop de_key ?k (dc_recent dc))"
    and v: "de_key v = ?k" "de_size v = int (length data)" "de_accessTime v = now"
    by (rule dc_Put_success [OF assms(1,2), of os now k etag data]) simp_all
  have "list_all entry_ok (v # lru_drop de_key ?k (dc_recent dc))"
    using v lru_drop_entry_ok [OF dc_invD(3) [OF assms(1)]] by (simp add: entry_ok_def)
  then have mem: "v \<in> set (dc_recent dc')" unfolding r using v assms(3) by (intro trim_keeps_head) simp_all
  then obtain e where e: "dc_items dc' ?k = Some e"
    using lru_dom [OF dc_invD(1) [OF p(2)]] v(1) by (metis domD image_eqI)
  then have "val_of (dc_order dc') e = v"
    using dc_inv_name(2,3) [OF p(2) e] mem v(1) dc_invD(4) [OF p(2)] by (auto simp: distinct_map inj_on_def)
  with e assms(4) v(3) p(3)
  have l: "get_lookup os now' k etag dc' = Inr (GetOpen (filepath_Join [dcc_Dir (dc_config dc), take 2 ?k, ?k]) ?k e,
      dc'\<lparr>dc_order := MoveToFront e (set_val e (v\<lparr>de_accessTime := now'\<rparr>) (dc_order dc'))\<rparr>)"
    by (auto simp: get_lookup_def Let_def)
  have "dc_view dc' ?k = Some data" using view [of ?k] e by simp
  then have "dc_disk dc' (filepath_Join [dcc_Dir (dc_config dc), take 2 ?k, ?k]) = Some data"
    using e p(3) by (simp add: dc_view_def)
  with l p(1) assms(5) show ?thesis
    by (simp add: dc_Get_def get_open_def os_Open_def)
qed

text \<open>
  C18. The data cache never invents content: bytes that \<open>Get\<close> returns after any sequence of
  calls on a cache that started empty, with files vanishing and system calls failing
  arbitrarily, are the bytes of the last successful \<open>Put\<close> under the same digest of key and
  entity tag.
\<close>
theorem data_cache_never_invents:
  assumes "range_ok rng"
    and "NewDataCache os now None empty_dir disk config = Inr dc0"
    and "dc_Get os now' k etag (fold (dc_step os rng) calls dc0) = Inr (Some data, dc')"
  shows "fold (\<lambda>x. map_apply (content_effect x)) calls Map.empty (cacheKey k etag) = Some data"
proof -
  obtain i0: "dc_inv dc0" "dc_bounded dc0"
    using NewDataCache_ok [OF refl empty_dir_ok, of os now disk config] assms(2) by (metis sum.inject(2))
  have "dc_recent dc0 = []"
    using assms(2) by (auto simp: NewDataCache_def Let_def scanDir_def empty_dir_def evict_def evict_ttl.simps
        evict_size.simps Back_def list_New_def recency_def split: if_splits)
  then have "dc_items dc0 k = None" for k
    using lru_None [OF dc_invD(1) [OF i0(1)]] by auto
  then have e: "dc_view dc0 = Map.empty" by (auto simp: dc_view_def)
  let ?dc = "fold (dc_step os rng) calls dc0"
  have run: "dc_inv ?dc \<and> dc_bounded ?dc \<and> range_ok rng"
    using i0 assms(1) by (intro contents.run_inv) simp
  have "dc_view ?dc \<subseteq>\<^sub>m fold (\<lambda>x. map_apply (content_effect x)) calls Map.empty"
    using i0 assms(1) e by (intro contents.run_view) simp_all
  moreover have "dc_view ?dc (cacheKey k etag) = Some data"
    by (rule dc_Get_ok [of ?dc os now' k etag]) (use run assms(3) in auto)
  ultimately show ?thesis by (rule map_leD)
qed

theorem data_cache_never_invents_witness:
  "fold (\<lambda>x. map_apply (content_effect x)) [DcPut io_fine 1 ''a'' ''e'' ''hello''] Map.empty (cacheKey ''a'' ''e'') = Some ''hello''"
proof -
  obtain dc' dc'' where "dc_Put os_fine io_fine 1 ''a'' ''e'' ''hello'' dc_empty = (None, dc')"
    and g: "dc_Get os_fine 2 ''a'' ''e'' dc' = Inr (Some ''hello'', dc'')"
    using put_then_get [OF dc_empty_ok(1) io_fine_ok, of "''hello''" 2 1 os_fine "''a''" "''e''"]
    by (auto simp: dc_empty_def DefaultDataCacheConfig_def defaultDataCacheMaxSize_def os_fine_def)
  then have "fold (dc_step os_fine sorted_range) [DcPut io_fine 1 ''a'' ''e'' ''hello''] dc_empty = dc'"
    by (simp add: dc_step_def)
  with data_cache_never_invents [OF sorted_range_ok dc_empty_New, of 2 "''a''" "''e''" "[DcPut io_fine 1 ''a'' ''e'' ''hello'']"] g
  show ?thesis by blast
qed

text \<open>
  C20. Read after write: a \<open>Put\<close> that succeeds, of content that fits the cache, is found by a
  \<open>Get\<close> of the same key and entity tag, byte for byte, as long as the entry has not expired
  and the file can be opened.
\<close>
theorem data_cache_read_after_write:
  assumes "dc_inv dc" and "put_io_ok io" and "int (length data) \<le> dcc_MaxSize (dc_config dc)"
    and "dcc_DataTTL (dc_config dc) \<le> 0 \<or> time_Since now' now \<le> dcc_DataTTL (dc_config dc)"
    and "\<forall>p. os_open_ok os p"
  shows "\<exists>dc' dc''. dc_Put os io now k etag data dc = (None, dc') \<and>
           dc_Get os now' k etag dc' = Inr (Some data, dc'')"
  using assms by (rule put_then_get)

theorem data_cache_read_after_write_witness:
  "\<exists>dc' dc''. dc_Put os_fine io_fine 1 ''a'' ''e'' ''hello'' dc_empty = (None, dc') \<and>
     dc_Get os_fine 2 ''a'' ''e'' dc' = Inr (Some ''hello'', dc'')"
  by (rule data_cache_read_after_write [OF dc_empty_ok(1) io_fine_ok])
     (simp_all add: dc_empty_def DefaultDataCacheConfig_def defaultDataCacheMaxSize_def os_fine_def)

text \<open>
  C22. Eviction keeps the most recently used entries: from any well-formed state \<open>evict\<close>
  terminates without panicking, what remains is a prefix of the recency order with its content
  unchanged, it fits \<open>MaxSize\<close>, and without a time-to-live no longer prefix would fit.
\<close>
theorem evict_keeps_recent_prefix:
  assumes "dc_inv dc" and "0 \<le> dcc_MaxSize (dc_config dc)"
  shows "\<exists>dc' n. evict os now dc = Inr dc' \<and> dc_inv dc' \<and> dc_recent dc' = take n (dc_recent dc) \<and> n \<le> length (dc_recent dc) \<and>
           dc_currentSize dc' \<le> dcc_MaxSize (dc_config dc) \<and> shrinks dc dc' \<and>
           (dcc_DataTTL (dc_config dc) \<le> 0 \<longrightarrow>
              (\<forall>m. n < m \<and> m \<le> length (dc_recent dc) \<longrightarrow> total_size (take m (dc_recent dc)) > dcc_MaxSize (dc_config dc)))"
proof -
  let ?rs = "dc_recent dc" and ?c = "dc_config dc"
  obtain dc' where e: "evict os now dc = Inr dc'" "dc_inv dc'" "dc_config dc' = ?c" "dc_recent dc' = trim ?c now ?rs" "shrinks dc dc'"
    by (rule evict_ok [OF assms(1), of os now])
  have b: "dc_currentSize dc' \<le> dcc_MaxSize ?c" using evict_bounded [OF assms e(1)] e(3) by (simp add: dc_bounded_def)
  define ws where "ws = (if dcc_DataTTL ?c > 0 then trim_ttl (dcc_DataTTL ?c) now ?rs else ?rs)"
  obtain j where j: "ws = take j ?rs"
  proof (cases "dcc_DataTTL ?c > 0")
    case True
    have "prefix (rev (dropWhile P (rev ?rs))) ?rs" for P
      using suffix_dropWhile [of P "rev ?rs"] by (simp add: suffix_to_prefix)
    with True have "prefix ws ?rs" by (simp add: ws_def trim_ttl_def)
    then show thesis by (intro that [of "length ws"]) (auto simp: prefix_def)
  qed (use that [of "length ?rs"] in \<open>simp add: ws_def\<close>)
  obtain i where i: "i \<le> length ws" "trim_size (dcc_MaxSize ?c) ws = take i ws"
    using trim_size_prefix by blast
  have t: "trim ?c now ?rs = take i ws" by (simp add: trim_def ws_def [symmetric] i(2))
  have n: "i \<le> length ?rs" "take i ws = take i ?rs" using i(1) j by (auto simp: min_def split: if_splits)
  have "total_size (take m ?rs) > dcc_MaxSize ?c" if "dcc_DataTTL ?c \<le> 0" "i < m" "m \<le> length ?rs" for m
  proof -
    have "ws = ?rs" using that(1) by (simp add: ws_def)
    with trim_size_maximal [OF dc_invD(3) [OF assms(1)], of "dcc_MaxSize ?c" m] i that show ?thesis by simp
  qed
  with e b t n show ?thesis by (intro exI [of _ dc'] exI [of _ i]) simp
qed

theorem evict_keeps_recent_prefix_witness:
  "\<exists>dc' n. evict os_fine 5 dc_one = Inr dc' \<and> dc_recent dc' = take n (dc_recent dc_one) \<and>
     dc_currentSize dc' \<le> dcc_MaxSize (dc_config dc_one)"
proof -
  have "0 \<le> dcc_MaxSize (dc_config dc_one)"
    by (simp add: dc_one_ok DefaultDataCacheConfig_def defaultDataCacheMaxSize_def)
  from evict_keeps_recent_prefix [OF dc_one_ok(1) this, of os_fine 5] show ?thesis by blast
qed

text \<open>
  \<open>Invalidate\<close> removes exactly the versions of the key it was given: the remaining
  entries are those stored for other keys, in the same order and with the same content, and
  no \<open>Get\<close> serves a removed digest.
\<close>
theorem data_cache_invalidate_exact:
  assumes "dc_inv dc" and "range_ok rng"
  shows "\<exists>dc'. dc_Invalidate os rng s3Key dc = Inr dc' \<and> dc_inv dc' \<and>
           dc_recent dc' = filter (\<lambda>e. de_s3Key e \<noteq> s3Key) (dc_recent dc) \<and>
           (\<forall>v\<in>set (dc_recent dc). de_s3Key v = s3Key \<longrightarrow> dc_view dc' (de_key v) = None) \<and>
           dc_view dc' \<subseteq>\<^sub>m dc_view dc"
proof -
  obtain dc' where d: "dc_Invalidate os rng s3Key dc = Inr dc'" "dc_inv dc'" "dc_view dc' \<subseteq>\<^sub>m dc_view dc"
    "dc_recent dc' = filter (\<lambda>e. de_s3Key e \<noteq> s3Key) (dc_recent dc)"
    by (rule dc_Invalidate_ok [OF assms, of os s3Key])
  have "dc_view dc' (de_key v) = None" if "v \<in> set (dc_recent dc)" "de_s3Key v = s3Key" for v
  proof -
    have "de_key v \<notin> de_key ` set (dc_recent dc')"
      using that dc_invD(4) [OF assms(1)] by (auto simp: d(4) distinct_map inj_on_def)
    then have "dc_items dc' (de_key v) = None" using lru_dom [OF dc_invD(1) [OF d(2)]] by auto
    then show ?thesis by (simp add: dc_view_def)
  qed
  with d show ?thesis by blast
qed

theorem data_cache_invalidate_exact_witness:
  "\<exists>dc'. dc_Invalidate os_fine sorted_range ''a'' dc_one = Inr dc' \<and> dc_recent dc' = []"
  using data_cache_invalidate_exact [OF dc_one_ok(1) sorted_range_ok, of os_fine "''a''"]
  by (auto simp: dc_one_ok)

text \<open>
  C38. The window between the two critical sections of \<open>Get\<close> loses size accounting: when two
  calls look up the same entry before either opens its file, and the file is gone, each gives
  the entry's size back, so \<open>currentSize\<close> ends below the sum of the indexed sizes by the size
  of the entry.
\<close>
theorem concurrent_get_subtracts_twice:
  assumes "dc_inv dc" and "dc_items dc (cacheKey k etag) = Some e"
    and "dcc_DataTTL (dc_config dc) \<le> 0" and "\<forall>p. \<not> os_open_ok os p"
  shows "\<exists>p dc1 dc2. get_lookup os t1 k etag dc = Inr (GetOpen p (cacheKey k etag) e, dc1) \<and>
           get_lookup os t2 k etag dc1 = Inr (GetOpen p (cacheKey k etag) e, dc2) \<and>
           (let dc3 = snd (get_open os p (cacheKey k etag) e dc2); dc4 = snd (get_open os p (cacheKey k etag) e dc3)
            in dc_currentSize dc4 = total_size (dc_recent dc4) - de_size (val_of (dc_order dc) e))"
proof -
  let ?k = "cacheKey k etag" and ?v = "val_of (dc_order dc) e"
  let ?p = "filepath_Join [dcc_Dir (dc_config dc), take 2 ?k, ?k]"
  define w1 where "w1 = ?v\<lparr>de_accessTime := t1\<rparr>"
  define w2 where "w2 = w1\<lparr>de_accessTime := t2\<rparr>"
  define dc1 where "dc1 = dc\<lparr>dc_order := MoveToFront e (set_val e w1 (dc_order dc))\<rparr>"
  have n: "de_key ?v = ?k" "0 \<le> de_size ?v"
    using dc_inv_name [OF assms(1,2)] dc_invD(3) [OF assms(1)] by (auto simp: list_all_iff entry_ok_def)
  have i1: "dc_inv dc1"
    using touch_ok(1) [OF assms(1,2), of w1] n by (simp add: dc1_def w1_def)
  have e1: "dc_items dc1 ?k = Some e" "val_of (dc_order dc1) e = w1"
    using assms(2) by (simp_all add: dc1_def val_of_def MoveToFront_def set_val_def)
  define dc2 where "dc2 = dc1\<lparr>dc_order := MoveToFront e (set_val e w2 (dc_order dc1))\<rparr>"
  have i2: "dc_inv dc2"
    using touch_ok(1) [OF i1 e1(1), of w2] n e1(2) by (simp add: dc2_def w1_def w2_def)
  have e2: "dc_items dc2 ?k = Some e" "val_of (dc_order dc2) e = w2"
    using e1(1) by (simp_all add: dc2_def val_of_def MoveToFront_def set_val_def)
  have l: "get_lookup os t1 k etag dc = Inr (GetOpen ?p ?k e, dc1)" "get_lookup os t2 k etag dc1 = Inr (GetOpen ?p ?k e, dc2)"
    using assms(2,3) e1 by (simp_all add: get_lookup_def Let_def dc1_def dc2_def w1_def w2_def)
  define dc3 where "dc3 = snd (get_open os ?p ?k e dc2)"
  have cfg: "cachePath (dc_config dc2) ?k = Inr ?p" by (simp add: dc2_def dc1_def)
  have i3: "dc_inv dc3" unfolding dc3_def by (rule get_open_ok(1) [OF i2 e2(1) cfg])
  have o3: "dc_order dc3 = list_Remove e (dc_order dc2)"
    using assms(4) by (simp add: dc3_def get_open_def os_Open_def)
  define dc4 where "dc4 = snd (get_open os ?p ?k e dc3)"
  have "dc_order dc4 = dc_order dc3" "dc_currentSize dc4 = dc_currentSize dc3 - de_size (val_of (dc_order dc3) e)"
    using assms(4) by (simp_all add: dc4_def get_open_def os_Open_def o3 list_Remove_def)
  moreover have "val_of (dc_order dc3) e = w2" using e2(2) by (simp add: o3 val_of_def list_Remove_def)
  ultimately have "dc_currentSize dc4 = total_size (dc_recent dc4) - de_size ?v"
    using dc_invD(2) [OF i3] by (simp add: w2_def w1_def)
  with l show ?thesis by (auto simp: dc3_def dc4_def Let_def)
qed

theorem concurrent_get_subtracts_twice_witness:
  "\<exists>p dc1 dc2. get_lookup (os_fine\<lparr>os_open_ok := \<lambda>_. False\<rparr>) 1 ''a'' ''e'' dc_one = Inr (GetOpen p (cacheKey ''a'' ''e'') 0, dc1) \<and>
     get_lookup (os_fine\<lparr>os_open_ok := \<lambda>_. False\<rparr>) 2 ''a'' ''e'' dc1 = Inr (GetOpen p (cacheKey ''a'' ''e'') 0, dc2)"
  using concurrent_get_subtracts_twice [OF dc_one_ok(1,2), of "os_fine\<lparr>os_open_ok := \<lambda>_. False\<rparr>" 1 2]
  by (auto simp: dc_one_ok DefaultDataCacheConfig_def)

text \<open>
  A stray file crashes the start: when the cache directory has a two-letter subdirectory
  holding a single file whose name has one character and whose size exceeds \<open>MaxSize\<close>, the
  eviction that \<open>NewDataCache\<close> runs after its scan panics slicing the name.
\<close>
theorem stray_file_panics_start:
  assumes "dcc_Dir config \<noteq> []" and "0 < dcc_MaxSize config" and "dcc_DataTTL config \<le> 0"
    and "readDir (dcc_Dir config) = Some [shard]" and "dn_isDir shard" and "length (dn_name shard) = 2"
    and "readDir (filepath_Join [dcc_Dir config, dn_name shard]) = Some [f]"
    and "\<not> dn_isDir f" and "length (dn_name f) = 1" and "dn_info f = Some (sz, mtime)" and "dcc_MaxSize config < sz"
  shows "NewDataCache os now None readDir disk config = Inl (Panic ''slice bounds out of range'')"
proof -
  have "\<not> HasPrefix (dn_name f) ''.tmp-''"
    using assms(9) by (auto simp: HasPrefix_def dest: prefix_length_le)
  with assms show ?thesis
    by (simp add: NewDataCache_def Let_def scanDir_def scan_shard_def scan_file_def evict_def evict_size.simps
        PushBack_def list_New_def Back_def val_of_def cachePath_def)
qed

theorem stray_file_panics_start_witness:
  "NewDataCache os_fine 0 None
     (\<lambda>p. if p = ''/c'' then Some [\<lparr>dn_name = ''ab'', dn_isDir = True, dn_info = None\<rparr>]
          else Some [\<lparr>dn_name = ''x'', dn_isDir = False, dn_info = Some (200, 0)\<rparr>]) Map.empty
     \<lparr>dcc_Dir = ''/c'', dcc_MaxSize = 100, dcc_EvictionInterval = 0, dcc_DataTTL = 0\<rparr> = Inl (Panic ''slice bounds out of range'')"
proof -
  have "filepath_Join [''/c'', ''ab''] = ''/c/ab''" by code_simp
  then show ?thesis
    by (intro stray_file_panics_start [where shard = "\<lparr>dn_name = ''ab'', dn_isDir = True, dn_info = None\<rparr>"
          and f = "\<lparr>dn_name = ''x'', dn_isDir = False, dn_info = Some (200, 0)\<rparr>" and sz = 200 and mtime = 0]) simp_all
qed

end
