(* ===== verification/Paths.thy ===== *)
theory Paths
  imports GoStrings
begin

text \<open>
  The translation between POSIX paths and S3 keys: \<open>s3KeyFromPath\<close>, \<open>s3DirKey\<close> and
  \<open>nameFromPath\<close> of \<^verbatim>\<open>internal/s3fs/file.go\<close>, \<open>parentPrefix\<close> and \<open>nameFromS3Key\<close> of
  \<^verbatim>\<open>internal/s3fs/cache_integration.go\<close>, and the copy of \<open>parentPrefix\<close> in
  \<^verbatim>\<open>internal/cache/metadata.go\<close>. The lemmas characterise the keys that come out of a path:
  plain components joined by single slashes, so that no path reaches outside the bucket
  and every such key is its own path again.
\<close>

definition s3KeyFromPath :: "string \<Rightarrow> string" where
  "s3KeyFromPath path =
     (let cleaned = TrimPrefix (Clean path) ''/''
      in if cleaned = ''.'' then []
         else if list_ex (\<lambda>part. part = ''..'') (Split cleaned (CHR ''/'')) then []
         else cleaned)"

definition s3DirKey :: "string \<Rightarrow> string" where
  "s3DirKey key =
     (if key = [] then []
      else if list_ex (\<lambda>part. part = ''..'') (Split key (CHR ''/'')) then []
      else if \<not> HasSuffix key ''/'' then key @ ''/'' else key)"

definition nameFromPath :: "string \<Rightarrow> string" where
  "nameFromPath path =
     (let path' = TrimSuffix path ''/''; idx = LastIndex path' (CHR ''/'')
      in if idx \<ge> 0 then drop (nat (idx + 1)) path' else path')"

definition nameFromS3Key :: "string \<Rightarrow> string" where
  "nameFromS3Key s3Key =
     (let key = TrimSuffix s3Key ''/''; idx = LastIndex key (CHR ''/'')
      in if idx \<ge> 0 then drop (nat (idx + 1)) key else key)"

definition parentPrefix :: "string \<Rightarrow> string" where
  "parentPrefix s3Key =
     (let key = TrimSuffix s3Key ''/''; idx = LastIndex key (CHR ''/'')
      in if idx < 0 then [] else take (nat (idx + 1)) key)"

text \<open>The same function in package \<open>cache\<close>.\<close>

definition cache_parentPrefix :: "string \<Rightarrow> string" where
  "cache_parentPrefix s3Key =
     (let key = TrimSuffix s3Key ''/''; idx = LastIndex key (CHR ''/'')
      in if idx < 0 then [] else take (nat (idx + 1)) key)"

subsection \<open>Canonical keys\<close>

text \<open>
  A canonical key is a non-empty sequence of plain components (not empty, not \<open>.\<close>, not
  \<open>..\<close>) separated by single slashes.
\<close>

definition canon_key :: "string \<Rightarrow> bool" where
  "canon_key k \<longleftrightarrow> list_all plain_comp (Split k (CHR ''/''))"

lemma cache_parentPrefix_eq: "cache_parentPrefix = parentPrefix"
  by (rule ext) (simp add: cache_parentPrefix_def parentPrefix_def)

lemma canon_key_Nil [simp]: "\<not> canon_key []"
  by (simp add: canon_key_def plain_comp_def)

lemma canon_key_Split: "canon_key k \<Longrightarrow> k \<noteq> [] \<and> [] \<notin> set (Split k (CHR ''/''))"
  by (cases "k = []") (auto simp: canon_key_def list_all_iff plain_comp_def)

lemma canon_key_last: "canon_key k \<Longrightarrow> last k \<noteq> CHR ''/''"
  using canon_key_Split Split_last_sep by blast

lemma canon_key_no_suffix [simp]: "canon_key k \<Longrightarrow> \<not> HasSuffix k ''/''"
  using canon_key_last by (auto simp: HasSuffix_byte)

lemma canon_key_hd: "canon_key k \<Longrightarrow> hd k \<noteq> CHR ''/''"
  using canon_key_Split Split_hd_sep by blast

lemma canon_key_no_dots: "canon_key k \<Longrightarrow> \<not> list_ex (\<lambda>p. p = ''..'') (Split k (CHR ''/''))"
  by (auto simp: canon_key_def list_all_iff list_ex_iff plain_comp_def)

lemma canon_key_neq_dot: "canon_key k \<Longrightarrow> k \<noteq> ''.''"
  by (auto simp: canon_key_def plain_comp_def)

lemma canon_key_Join:
  assumes "cs \<noteq> []" and "list_all plain_comp cs"
  shows "canon_key (Join cs ''/'')"
  using assms by (auto simp: canon_key_def Split_Join plain_comp_def list_all_iff)

lemma s3DirKey_canon [simp]: "canon_key k \<Longrightarrow> s3DirKey k = k @ ''/''"
  by (auto simp: s3DirKey_def canon_key_no_dots)

lemma TrimSuffix_s3DirKey [simp]: "canon_key k \<Longrightarrow> TrimSuffix (s3DirKey k) ''/'' = k"
  by simp

lemma Clean_canon:
  assumes "canon_key k"
  shows "Clean (CHR ''/'' # k) = CHR ''/'' # k" and "Clean k = k"
proof -
  have plain: "clean_comps r [] (Split k (CHR ''/'')) = Split k (CHR ''/'')" for r
    using assms by (simp add: clean_comps_plain canon_key_def)
  then show "Clean (CHR ''/'' # k) = CHR ''/'' # k"
    by (simp add: Clean_def HasPrefix_byte Let_def)
  show "Clean k = k"
    using assms plain canon_key_hd [OF assms]
    by (auto simp: Clean_def HasPrefix_byte Let_def)
qed

lemma s3KeyFromPath_canon_id:
  assumes "canon_key k"
  shows "s3KeyFromPath (CHR ''/'' # k) = k" and "s3KeyFromPath k = k"
proof -
  have "TrimPrefix k ''/'' = k"
    using canon_key_hd [OF assms] by (auto intro: TrimPrefix_id simp: HasPrefix_byte)
  with assms show "s3KeyFromPath (CHR ''/'' # k) = k" and "s3KeyFromPath k = k"
    by (simp_all add: s3KeyFromPath_def Clean_canon canon_key_no_dots canon_key_neq_dot)
qed

lemma Join_cases:
  assumes ne: "cs \<noteq> []" and all: "list_all rel_comp cs"
  shows "TrimPrefix (Join cs ''/'') ''/'' = Join cs ''/''"
    and "canon_key (Join cs ''/'') \<or> list_ex (\<lambda>c. c = ''..'') (Split (Join cs ''/'') (CHR ''/''))"
proof -
  have good: "c \<noteq> []" "CHR ''/'' \<notin> set c" if "c \<in> set cs" for c
    using all that by (auto simp: list_all_iff dest: rel_compD)
  have split: "Split (Join cs ''/'') (CHR ''/'') = cs"
    using ne good(2) by (intro Split_Join) auto
  then have "\<not> HasPrefix (Join cs ''/'') ''/''"
    using good(1) Split_hd_sep [of "Join cs ''/''" "CHR ''/''"] by (auto simp: HasPrefix_byte)
  then show "TrimPrefix (Join cs ''/'') ''/'' = Join cs ''/''"
    by (rule TrimPrefix_id)
  have "list_all plain_comp cs" if "''..'' \<notin> set cs"
    using all that by (metis list_all_iff rel_comp_def)
  then have "canon_key (Join cs ''/'')" if "''..'' \<notin> set cs"
    using ne that by (simp add: canon_key_Join)
  then show "canon_key (Join cs ''/'') \<or> list_ex (\<lambda>c. c = ''..'') (Split (Join cs ''/'') (CHR ''/''))"
    by (auto simp: split list_ex_iff)
qed

lemma Clean_cases:
  "TrimPrefix (Clean p) ''/'' \<in> {[], ''.''} \<or> canon_key (TrimPrefix (Clean p) ''/'')
   \<or> list_ex (\<lambda>c. c = ''..'') (Split (TrimPrefix (Clean p) ''/'') (CHR ''/''))"
proof -
  define cs where "cs = clean_comps (HasPrefix p ''/'') [] (Split p (CHR ''/''))"
  have clean: "Clean p = (if HasPrefix p ''/'' then ''/'' @ Join cs ''/''
      else if cs = [] then ''.'' else Join cs ''/'')"
    by (simp add: Clean_def cs_def Let_def)
  have all: "list_all rel_comp cs"
    unfolding cs_def by (rule clean_comps_relative) (rule Split_list_all_no_sep)
  show ?thesis
  proof (cases "cs = []")
    case True
    then show ?thesis by (simp add: clean TrimPrefix_def HasPrefix_def)
  next
    case False
    from Join_cases(1) [OF False all] have "TrimPrefix (Clean p) ''/'' = Join cs ''/''"
      using False by (simp add: clean)
    with Join_cases(2) [OF False all] show ?thesis by simp
  qed
qed

lemma s3KeyFromPath_cases: "s3KeyFromPath p = [] \<or> canon_key (s3KeyFromPath p)"
  using Clean_cases [of p] by (auto simp: s3KeyFromPath_def Let_def)

subsection \<open>Parent and base name\<close>

lemma parentPrefix_append_name:
  "parentPrefix k @ nameFromS3Key k = TrimSuffix k ''/''"
  by (auto simp: parentPrefix_def nameFromS3Key_def Let_def)

lemma nameFromS3Key_no_slash: "CHR ''/'' \<notin> set (nameFromS3Key k)"
proof (cases "CHR ''/'' \<in> set (TrimSuffix k ''/'')")
  case True
  then obtain s t where "TrimSuffix k ''/'' = s @ CHR ''/'' # t" "CHR ''/'' \<notin> set t"
    by (blast dest: split_list_last)
  then show ?thesis by (simp add: nameFromS3Key_def)
qed (simp add: nameFromS3Key_def)

lemma parentPrefix_shape: "parentPrefix k = [] \<or> HasSuffix (parentPrefix k) ''/''"
proof (cases "CHR ''/'' \<in> set (TrimSuffix k ''/'')")
  case True
  then obtain s t where "TrimSuffix k ''/'' = s @ CHR ''/'' # t" "CHR ''/'' \<notin> set t"
    by (blast dest: split_list_last)
  then show ?thesis by (simp add: parentPrefix_def HasSuffix_byte)
qed (simp add: parentPrefix_def)

lemma parentPrefix_dir [simp]: "\<not> HasSuffix k ''/'' \<Longrightarrow> parentPrefix (k @ ''/'') = parentPrefix k"
  by (simp add: parentPrefix_def TrimSuffix_id)

lemma nameFromS3Key_dir [simp]:
  "\<not> HasSuffix k ''/'' \<Longrightarrow> nameFromS3Key (k @ ''/'') = nameFromS3Key k"
  by (simp add: nameFromS3Key_def TrimSuffix_id)

text \<open>A child directly below a directory prefix has that prefix as its parent.\<close>

lemma child_decomp:
  assumes "d = [] \<or> HasSuffix d ''/''" and "n \<noteq> []" and "CHR ''/'' \<notin> set n"
  shows "parentPrefix (d @ n) = d" and "nameFromS3Key (d @ n) = n"
    and "parentPrefix (d @ n @ ''/'') = d" and "nameFromS3Key (d @ n @ ''/'') = n"
proof -
  have ns: "\<not> HasSuffix (d @ n) ''/''"
    using assms(2,3) by (cases n rule: rev_cases) (auto simp: HasSuffix_byte)
  show p: "parentPrefix (d @ n) = d" and m: "nameFromS3Key (d @ n) = n"
  proof (atomize (full), cases "d = []")
    case True
    with ns assms(3) show "parentPrefix (d @ n) = d \<and> nameFromS3Key (d @ n) = n"
      by (simp add: parentPrefix_def nameFromS3Key_def TrimSuffix_id)
  next
    case False
    with assms(1) obtain e where d: "d = e @ ''/''"
      by (metis HasSuffix_byte append_butlast_last_id)
    with ns assms(3) show "parentPrefix (d @ n) = d \<and> nameFromS3Key (d @ n) = n"
      by (simp add: parentPrefix_def nameFromS3Key_def TrimSuffix_id nat_add_distrib)
  qed
  show "parentPrefix (d @ n @ ''/'') = d" "nameFromS3Key (d @ n @ ''/'') = n"
    using parentPrefix_dir [OF ns] nameFromS3Key_dir [OF ns] p m by simp_all
qed

subsection \<open>Properties\<close>

text \<open>
  C32. Whatever path a client sends, the S3 key derived from it is either the root or a
  canonical key: it has no empty, \<open>.\<close> or \<open>..\<close> component, no leading and no trailing slash,
  so no path reaches outside the bucket's key space.
\<close>

theorem path_key_canonical:
  "s3KeyFromPath p = [] \<or> canon_key (s3KeyFromPath p)"
  by (rule s3KeyFromPath_cases)

text \<open>
  A canonical key is recovered from the absolute path that names it, whether the handle
  layer stored the file key or the directory key with its trailing slash.
\<close>

theorem path_key_roundtrip:
  assumes "canon_key k"
  shows "s3KeyFromPath (''/'' @ k) = k
    \<and> s3KeyFromPath (''/'' @ TrimSuffix (s3DirKey k) ''/'') = k
    \<and> s3DirKey (s3KeyFromPath (''/'' @ k)) = k @ ''/''"
  using assms by (simp_all add: s3KeyFromPath_canon_id)

theorem path_key_roundtrip_witness:
  "canon_key ''docs/a.txt'' \<and> s3KeyFromPath ''/docs/a.txt'' = ''docs/a.txt''
   \<and> s3DirKey (s3KeyFromPath ''/docs/a.txt'') = ''docs/a.txt/''"
proof -
  have h: "canon_key ''docs/a.txt''" by (simp add: canon_key_def plain_comp_def)
  show ?thesis using h path_key_roundtrip [OF h] by simp
qed

end
