(* ===== verification/MetaCache.thy ===== *)
theory MetaCache
  imports CacheSpec Paths
begin

text \<open>
  The metadata cache of \<^verbatim>\<open>internal/cache/metadata.go\<close>: an LRU list of entries with an
  index beside it, per-kind time-to-live, negative entries, and a map of directory
  listings. Every method takes the mutex for its whole body, so a method is one atomic
  function of the state; the clock reading a method makes is its argument \<open>now\<close>.

  The invariant \<open>mc_inv\<close> is that index and list agree and that the list does not exceed
  \<open>MaxEntries\<close>. The methods refine operations on recency lists (\<open>mc_abs\<close>), and the cache
  is a \<open>lossy_cache\<close> for its entries and for its listings.
\<close>

subsection \<open>State\<close>

record CacheEntry =
  ce_S3Key :: string
  ce_Size :: int
  ce_ModTime :: time
  ce_Mode :: uint32
  ce_UID :: int
  ce_GID :: int
  ce_IsDir :: bool
  ce_ETag :: string
  ce_Inode :: uint64
  ce_CachedAt :: time
  ce_negative :: bool

record dirListingEntry =
  dl_entries :: "CacheEntry list"
  dl_cachedAt :: time

record CacheConfig =
  cc_MaxEntries :: int
  cc_FileTTL :: time
  cc_DirTTL :: time
  cc_NegativeTTL :: time
  cc_EvictionInterval :: time

definition DefaultCacheConfig :: CacheConfig where
  "DefaultCacheConfig = \<lparr>cc_MaxEntries = 10000, cc_FileTTL = 300 * second, cc_DirTTL = 60 * second,
     cc_NegativeTTL = 10 * second, cc_EvictionInterval = 30 * second\<rparr>"

record lruItem =
  li_key :: string
  li_entry :: CacheEntry

record MetadataCache =
  mc_config :: CacheConfig
  mc_items :: "nat strmap"
  mc_order :: "lruItem golist"
  mc_dirListings :: "dirListingEntry strmap"
  mc_stopped :: bool          \<comment> \<open>\<open>stopCh\<close> has been closed\<close>

text \<open>The zero value of the struct, which a composite literal fills up from.\<close>

definition CacheEntry_zero :: CacheEntry where
  "CacheEntry_zero = \<lparr>ce_S3Key = [], ce_Size = 0, ce_ModTime = 0, ce_Mode = 0, ce_UID = 0, ce_GID = 0,
     ce_IsDir = False, ce_ETag = [], ce_Inode = 0, ce_CachedAt = 0, ce_negative = False\<rparr>"

definition NewMetadataCache :: "CacheConfig \<Rightarrow> MetadataCache" where
  "NewMetadataCache config =
     (let c1 = (if cc_MaxEntries config \<le> 0 then config\<lparr>cc_MaxEntries := 10000\<rparr> else config);
          c2 = (if cc_FileTTL c1 \<le> 0 then c1\<lparr>cc_FileTTL := 300 * second\<rparr> else c1);
          c3 = (if cc_DirTTL c2 \<le> 0 then c2\<lparr>cc_DirTTL := 60 * second\<rparr> else c2);
          c4 = (if cc_NegativeTTL c3 \<le> 0 then c3\<lparr>cc_NegativeTTL := 10 * second\<rparr> else c3);
          c5 = (if cc_EvictionInterval c4 \<le> 0 then c4\<lparr>cc_EvictionInterval := 30 * second\<rparr> else c4)
      in \<lparr>mc_config = c5, mc_items = Map.empty, mc_order = list_New, mc_dirListings = Map.empty,
          mc_stopped = False\<rparr>)"

subsection \<open>Internal helpers\<close>

definition isExpired :: "CacheConfig \<Rightarrow> time \<Rightarrow> CacheEntry \<Rightarrow> bool" where
  "isExpired config now entry =
     (let age = time_Since now (ce_CachedAt entry)
      in if ce_negative entry then age > cc_NegativeTTL config
         else if ce_IsDir entry then age > cc_DirTTL config
         else age > cc_FileTTL config)"

definition removeLocked :: "string \<Rightarrow> nat \<Rightarrow> MetadataCache \<Rightarrow> MetadataCache" where
  "removeLocked key elem mc =
     mc\<lparr>mc_order := list_Remove elem (mc_order mc), mc_items := (mc_items mc)(key := None)\<rparr>"

definition evictOldestLocked :: "MetadataCache \<Rightarrow> MetadataCache" where
  "evictOldestLocked mc =
     (case Back (mc_order mc) of
        None \<Rightarrow> mc
      | Some elem \<Rightarrow> removeLocked (li_key (val_of (mc_order mc) elem)) elem mc)"

subsection \<open>Entries\<close>

definition GetEntry :: "time \<Rightarrow> string \<Rightarrow> MetadataCache \<Rightarrow> CacheEntry option \<times> MetadataCache" where
  "GetEntry now s3Key mc =
     (case mc_items mc s3Key of
        None \<Rightarrow> (None, mc)
      | Some elem \<Rightarrow>
          let item = val_of (mc_order mc) elem
          in if isExpired (mc_config mc) now (li_entry item) then (None, removeLocked s3Key elem mc)
             else (Some (li_entry item), mc\<lparr>mc_order := MoveToFront elem (mc_order mc)\<rparr>))"

text \<open>
  The common tail of \<open>PutEntry\<close> and \<open>PutNegative\<close>: overwrite the entry in place and move it
  to the front, or evict at capacity and push a new element.
\<close>

definition storeLocked :: "string \<Rightarrow> CacheEntry \<Rightarrow> MetadataCache \<Rightarrow> MetadataCache" where
  "storeLocked s3Key entry mc =
     (case mc_items mc s3Key of
        Some elem \<Rightarrow>
          let item = val_of (mc_order mc) elem
          in mc\<lparr>mc_order := MoveToFront elem (set_val elem (item\<lparr>li_entry := entry\<rparr>) (mc_order mc))\<rparr>
      | None \<Rightarrow>
          let mc' = (if int (list_Len (mc_order mc)) \<ge> cc_MaxEntries (mc_config mc)
                     then evictOldestLocked mc else mc);
              (elem, order') = PushFront \<lparr>li_key = s3Key, li_entry = entry\<rparr> (mc_order mc')
          in mc'\<lparr>mc_order := order', mc_items := (mc_items mc')(s3Key \<mapsto> elem)\<rparr>)"

definition PutEntry :: "time \<Rightarrow> string \<Rightarrow> CacheEntry \<Rightarrow> MetadataCache \<Rightarrow> MetadataCache" where
  "PutEntry now s3Key entry mc = storeLocked s3Key (entry\<lparr>ce_CachedAt := now, ce_negative := False\<rparr>) mc"

definition PutNegative :: "time \<Rightarrow> string \<Rightarrow> MetadataCache \<Rightarrow> MetadataCache" where
  "PutNegative now s3Key mc =
     storeLocked s3Key (CacheEntry_zero\<lparr>ce_S3Key := s3Key, ce_CachedAt := now, ce_negative := True\<rparr>) mc"

definition IsNegative :: "CacheEntry \<Rightarrow> bool" where
  "IsNegative e = ce_negative e"

subsection \<open>Directory listings\<close>

definition GetDirListing :: "time \<Rightarrow> string \<Rightarrow> MetadataCache \<Rightarrow> CacheEntry list option" where
  "GetDirListing now pfx mc =
     (case mc_dirListings mc pfx of
        None \<Rightarrow> None
      | Some dl \<Rightarrow> if time_Since now (dl_cachedAt dl) > cc_DirTTL (mc_config mc) then None
                  else Some (dl_entries dl))"

definition PutDirListing :: "time \<Rightarrow> string \<Rightarrow> CacheEntry list \<Rightarrow> MetadataCache \<Rightarrow> MetadataCache" where
  "PutDirListing now pfx entries mc =
     mc\<lparr>mc_dirListings := (mc_dirListings mc)(pfx \<mapsto> \<lparr>dl_entries = entries, dl_cachedAt = now\<rparr>)\<rparr>"

subsection \<open>Invalidation and background eviction\<close>

definition mc_Invalidate :: "string \<Rightarrow> MetadataCache \<Rightarrow> MetadataCache" where
  "mc_Invalidate s3Key mc =
     (let mc' = (case mc_items mc s3Key of Some elem \<Rightarrow> removeLocked s3Key elem mc | None \<Rightarrow> mc)
      in mc'\<lparr>mc_dirListings := (mc_dirListings mc')(cache_parentPrefix s3Key := None)\<rparr>)"

text \<open>
  One iteration of a \<open>range\<close> over the index: the loop body runs for a key still present.
\<close>

definition remove_if :: "(string \<Rightarrow> CacheEntry \<Rightarrow> bool) \<Rightarrow> string \<Rightarrow> MetadataCache \<Rightarrow> MetadataCache" where
  "remove_if P key mc =
     (case mc_items mc key of
        None \<Rightarrow> mc
      | Some elem \<Rightarrow> if P key (li_entry (val_of (mc_order mc) elem)) then removeLocked key elem mc else mc)"

definition remove_listing_if ::
  "(string \<Rightarrow> dirListingEntry \<Rightarrow> bool) \<Rightarrow> string \<Rightarrow> MetadataCache \<Rightarrow> MetadataCache" where
  "remove_listing_if P pfx mc =
     (case mc_dirListings mc pfx of
        None \<Rightarrow> mc
      | Some dl \<Rightarrow> if P pfx dl then mc\<lparr>mc_dirListings := (mc_dirListings mc)(pfx := None)\<rparr> else mc)"

definition InvalidatePrefix :: "rangeorder \<Rightarrow> string \<Rightarrow> MetadataCache \<Rightarrow> MetadataCache" where
  "InvalidatePrefix rng pfx mc =
     (let mc1 = fold (remove_if (\<lambda>key _. HasPrefix key pfx)) (rng (dom (mc_items mc))) mc
      in fold (remove_listing_if (\<lambda>p _. HasPrefix p pfx \<or> p = pfx)) (rng (dom (mc_dirListings mc1))) mc1)"

definition evictExpired :: "rangeorder \<Rightarrow> time \<Rightarrow> MetadataCache \<Rightarrow> MetadataCache" where
  "evictExpired rng now mc =
     (let mc1 = fold (remove_if (\<lambda>_ entry. isExpired (mc_config mc) now entry)) (rng (dom (mc_items mc))) mc
      in fold (remove_listing_if (\<lambda>_ dl. time_Sub now (dl_cachedAt dl) > cc_DirTTL (mc_config mc)))
           (rng (dom (mc_dirListings mc1))) mc1)"

text \<open>
  The background goroutine waits for the ticker or for \<open>stopCh\<close>; its input is the sequence
  of events it is woken by, and it has returned (closed \<open>done\<close>) when the flag is set.
\<close>

datatype loop_event = Tick time | StopSignal

fun evictionLoop :: "rangeorder \<Rightarrow> loop_event list \<Rightarrow> MetadataCache \<Rightarrow> MetadataCache \<times> bool" where
  "evictionLoop rng [] mc = (mc, False)"
| "evictionLoop rng (StopSignal # evs) mc = (mc, True)"
| "evictionLoop rng (Tick now # evs) mc = evictionLoop rng evs (evictExpired rng now mc)"

definition mc_Stop :: "MetadataCache \<Rightarrow> MetadataCache result" where
  "mc_Stop mc = (if mc_stopped mc then Inl (Panic ''close of closed channel'')
                 else Inr (mc\<lparr>mc_stopped := True\<rparr>))"

subsection \<open>Invariant and abstract content\<close>

definition mc_inv :: "MetadataCache \<Rightarrow> bool" where
  "mc_inv mc \<longleftrightarrow> lru_ok li_key (mc_items mc) (mc_order mc) \<and>
     int (list_Len (mc_order mc)) \<le> cc_MaxEntries (mc_config mc) \<and> 0 < cc_MaxEntries (mc_config mc) \<and>
     finite (dom (mc_dirListings mc))"

abbreviation mc_recent :: "MetadataCache \<Rightarrow> lruItem list" where
  "mc_recent mc \<equiv> recency (mc_order mc)"

abbreviation mc_cap :: "MetadataCache \<Rightarrow> nat" where
  "mc_cap mc \<equiv> nat (cc_MaxEntries (mc_config mc))"

definition mc_view :: "MetadataCache \<Rightarrow> string \<Rightarrow> CacheEntry option" where
  "mc_view mc k = map_option (\<lambda>e. li_entry (val_of (mc_order mc) e)) (mc_items mc k)"

lemma mc_invD:
  assumes "mc_inv mc"
  shows "lru_ok li_key (mc_items mc) (mc_order mc)" "length (mc_recent mc) \<le> mc_cap mc" "0 < mc_cap mc"
    "finite (dom (mc_dirListings mc))" "finite (dom (mc_items mc))" "distinct (map li_key (mc_recent mc))"
  using assms lru_finite [of li_key "mc_items mc"] lru_distinct [of li_key "mc_items mc"]
  by (auto simp: mc_inv_def)

lemma mc_view_find:
  assumes "mc_inv mc"
  shows "mc_view mc k = map_option li_entry (lru_find li_key k (mc_recent mc))"
  by (simp add: lru_find_recency [OF mc_invD(1) [OF assms]] mc_view_def option.map_comp comp_def)

lemma NewMetadataCache_inv: "mc_inv (NewMetadataCache config)"
  by (simp add: NewMetadataCache_def mc_inv_def Let_def list_Len_def list_New_def)
     (simp add: lru_New [unfolded list_New_def])

lemma removeLocked_simps [simp]:
  "mc_config (removeLocked k e mc) = mc_config mc"
  "mc_dirListings (removeLocked k e mc) = mc_dirListings mc"
  by (simp_all add: removeLocked_def)

lemma removeLocked_ok:
  assumes "mc_inv mc" and "mc_items mc k = Some e"
  shows "mc_inv (removeLocked k e mc)" and "mc_recent (removeLocked k e mc) = lru_drop li_key k (mc_recent mc)"
proof -
  note r = lru_Remove [OF mc_invD(1) [OF assms(1)] assms(2)]
  show "mc_recent (removeLocked k e mc) = lru_drop li_key k (mc_recent mc)"
    by (simp add: removeLocked_def r lru_drop_def)
  have "list_Len (list_Remove e (mc_order mc)) \<le> list_Len (mc_order mc)"
    by (simp add: list_Len_def list_Remove_def length_removeAll_less_eq)
  with assms(1) r(1) show "mc_inv (removeLocked k e mc)"
    by (auto simp: mc_inv_def removeLocked_def)
qed

lemma evictOldestLocked_ok:
  assumes "mc_inv mc"
  shows "mc_inv (evictOldestLocked mc)" and "mc_recent (evictOldestLocked mc) = butlast (mc_recent mc)"
    and "mc_config (evictOldestLocked mc) = mc_config mc"
    and "mc_dirListings (evictOldestLocked mc) = mc_dirListings mc"
proof -
  note lru = mc_invD(1) [OF assms]
  show "mc_inv (evictOldestLocked mc)"
    using assms lru_Back(1) [OF lru]
    by (auto simp: evictOldestLocked_def removeLocked_ok(1) split: option.split)
  show "mc_recent (evictOldestLocked mc) = butlast (mc_recent mc)"
    using lru_Back(4) [OF lru] Back_None [of "mc_order mc"]
    by (auto simp: evictOldestLocked_def removeLocked_def split: option.split)
qed (simp_all add: evictOldestLocked_def split: option.split)

lemma storeLocked_config [simp]: "mc_config (storeLocked k e mc) = mc_config mc"
  by (auto simp: storeLocked_def evictOldestLocked_def Let_def PushFront_def split: option.split)

lemma storeLocked_listings [simp]: "mc_dirListings (storeLocked k e mc) = mc_dirListings mc"
  by (auto simp: storeLocked_def evictOldestLocked_def Let_def PushFront_def split: option.split)

lemma storeLocked_hit:
  assumes "mc_inv mc" and "mc_items mc k = Some e"
  shows "lru_ok li_key (mc_items (storeLocked k entry mc)) (mc_order (storeLocked k entry mc))"
    and "mc_recent (storeLocked k entry mc) = \<lparr>li_key = k, li_entry = entry\<rparr> # lru_drop li_key k (mc_recent mc)"
proof -
  let ?v = "(val_of (mc_order mc) e)\<lparr>li_entry := entry\<rparr>"
  have k: "li_key (val_of (mc_order mc) e) = k"
    using lru_val [OF mc_invD(1) [OF assms(1)] assms(2)] by simp
  then have v: "?v = \<lparr>li_key = k, li_entry = entry\<rparr>" by simp
  note up = lru_update [OF mc_invD(1) [OF assms(1)] assms(2), of ?v]
  show "lru_ok li_key (mc_items (storeLocked k entry mc)) (mc_order (storeLocked k entry mc))"
    "mc_recent (storeLocked k entry mc) = \<lparr>li_key = k, li_entry = entry\<rparr> # lru_drop li_key k (mc_recent mc)"
    using up k by (simp_all add: storeLocked_def assms(2) Let_def v lru_drop_def)
qed

lemma storeLocked_miss:
  assumes "mc_inv mc" and "mc_items mc k = None"
  shows "lru_ok li_key (mc_items (storeLocked k entry mc)) (mc_order (storeLocked k entry mc))"
    and "mc_recent (storeLocked k entry mc) = \<lparr>li_key = k, li_entry = entry\<rparr> #
           (if length (mc_recent mc) \<ge> mc_cap mc then butlast (mc_recent mc) else mc_recent mc)"
proof -
  let ?v = "\<lparr>li_key = k, li_entry = entry\<rparr>"
  define mc' where "mc' = (if int (list_Len (mc_order mc)) \<ge> cc_MaxEntries (mc_config mc)
                           then evictOldestLocked mc else mc)"
  have inv': "mc_inv mc'" using assms(1) evictOldestLocked_ok(1) by (simp add: mc'_def)
  have r': "mc_recent mc' = (if length (mc_recent mc) \<ge> mc_cap mc then butlast (mc_recent mc) else mc_recent mc)"
    using evictOldestLocked_ok(2) [OF assms(1)] by (simp add: mc'_def nat_le_iff)
  have "k \<notin> li_key ` set (mc_recent mc)"
    using lru_None [OF mc_invD(1) [OF assms(1)]] assms(2) by blast
  then have "mc_items mc' (li_key ?v) = None"
    by (auto simp: lru_None [OF mc_invD(1) [OF inv']] r' dest: in_set_butlastD)
  note pf = lru_PushFront [OF mc_invD(1) [OF inv'] this surjective_pairing]
  have s: "storeLocked k entry mc = mc'\<lparr>mc_order := snd (PushFront ?v (mc_order mc')),
      mc_items := (mc_items mc')(k \<mapsto> fst (PushFront ?v (mc_order mc')))\<rparr>"
    by (simp add: storeLocked_def assms(2) mc'_def [symmetric] case_prod_beta)
  show "lru_ok li_key (mc_items (storeLocked k entry mc)) (mc_order (storeLocked k entry mc))"
    using pf(1) by (simp add: s)
  show "mc_recent (storeLocked k entry mc) = ?v #
           (if length (mc_recent mc) \<ge> mc_cap mc then butlast (mc_recent mc) else mc_recent mc)"
    using pf(2) by (simp add: s r')
qed

lemma storeLocked_ok:
  assumes "mc_inv mc"
  shows "mc_inv (storeLocked k entry mc)"
    and "mc_recent (storeLocked k entry mc) = lru_put li_key (mc_cap mc) \<lparr>li_key = k, li_entry = entry\<rparr> (mc_recent mc)"
proof -
  have f: "lru_find li_key k (mc_recent mc) = None \<longleftrightarrow> mc_items mc k = None"
    by (simp add: lru_find_recency [OF mc_invD(1) [OF assms]])
  show r: "mc_recent (storeLocked k entry mc) = lru_put li_key (mc_cap mc) \<lparr>li_key = k, li_entry = entry\<rparr> (mc_recent mc)"
    using f storeLocked_hit(2) [OF assms] storeLocked_miss(2) [OF assms]
    by (cases "mc_items mc k") (auto simp: lru_put_def)
  have "length (mc_recent (storeLocked k entry mc)) \<le> mc_cap mc"
    unfolding r using mc_invD [OF assms] by (intro length_lru_put)
  with assms storeLocked_hit(1) [OF assms] storeLocked_miss(1) [OF assms] show "mc_inv (storeLocked k entry mc)"
    by (cases "mc_items mc k") (auto simp: mc_inv_def)
qed

text \<open>\<open>GetEntry\<close> on recency lists.\<close>

definition lru_get :: "CacheConfig \<Rightarrow> time \<Rightarrow> string \<Rightarrow> lruItem list \<Rightarrow> CacheEntry option \<times> lruItem list" where
  "lru_get config now k rs =
     (case lru_find li_key k rs of
        None \<Rightarrow> (None, rs)
      | Some it \<Rightarrow> if isExpired config now (li_entry it) then (None, lru_drop li_key k rs)
                   else (Some (li_entry it), it # lru_drop li_key k rs))"

lemma GetEntry_ok:
  assumes "mc_inv mc"
  shows "mc_inv (snd (GetEntry now k mc))"
    and "fst (GetEntry now k mc) = fst (lru_get (mc_config mc) now k (mc_recent mc))"
    and "mc_recent (snd (GetEntry now k mc)) = snd (lru_get (mc_config mc) now k (mc_recent mc))"
proof -
  note lru = mc_invD(1) [OF assms]
  note find = lru_find_recency [OF lru, of k]
  show "mc_inv (snd (GetEntry now k mc))"
  proof (cases "mc_items mc k")
    case (Some e)
    note mf = lru_MoveToFront [OF lru Some]
    with mf(1) assms removeLocked_ok(1) [OF assms Some] lru_wf [OF lru] show ?thesis
      by (auto simp: GetEntry_def Some Let_def mc_inv_def)
  qed (simp add: GetEntry_def assms)
  show "fst (GetEntry now k mc) = fst (lru_get (mc_config mc) now k (mc_recent mc))"
    using find by (auto simp: GetEntry_def lru_get_def Let_def split: option.split)
  show "mc_recent (snd (GetEntry now k mc)) = snd (lru_get (mc_config mc) now k (mc_recent mc))"
  proof (cases "mc_items mc k")
    case (Some e)
    with find lru_MoveToFront(2) [OF lru Some] removeLocked_ok(2) [OF assms Some] show ?thesis
      by (auto simp: GetEntry_def lru_get_def Let_def lru_drop_def)
  qed (use find in \<open>simp add: GetEntry_def lru_get_def\<close>)
qed

lemma GetEntry_frame [simp]:
  "mc_config (snd (GetEntry now k mc)) = mc_config mc"
  "mc_dirListings (snd (GetEntry now k mc)) = mc_dirListings mc"
  by (auto simp: GetEntry_def Let_def split: option.split)

lemma mc_Invalidate_ok:
  assumes "mc_inv mc"
  shows "mc_inv (mc_Invalidate k mc)" and "mc_recent (mc_Invalidate k mc) = lru_drop li_key k (mc_recent mc)"
    and "mc_config (mc_Invalidate k mc) = mc_config mc"
    and "mc_dirListings (mc_Invalidate k mc) = (mc_dirListings mc)(parentPrefix k := None)"
proof -
  define mc' where "mc' = (case mc_items mc k of Some elem \<Rightarrow> removeLocked k elem mc | None \<Rightarrow> mc)"
  have d: "mc_Invalidate k mc = mc'\<lparr>mc_dirListings := (mc_dirListings mc')(parentPrefix k := None)\<rparr>"
    by (simp add: mc_Invalidate_def mc'_def cache_parentPrefix_eq Let_def)
  have i: "mc_inv mc'"
    using assms removeLocked_ok(1) [OF assms] by (simp add: mc'_def split: option.split)
  have l: "mc_dirListings mc' = mc_dirListings mc" "mc_config mc' = mc_config mc"
    by (simp_all add: mc'_def split: option.split)
  show "mc_inv (mc_Invalidate k mc)" using i by (simp add: d mc_inv_def)
  show "mc_recent (mc_Invalidate k mc) = lru_drop li_key k (mc_recent mc)"
    using removeLocked_ok(2) [OF assms] lru_find_recency [OF mc_invD(1) [OF assms], of k]
    by (auto simp: d mc'_def lru_drop_id split: option.split)
  show "mc_config (mc_Invalidate k mc) = mc_config mc"
    "mc_dirListings (mc_Invalidate k mc) = (mc_dirListings mc)(parentPrefix k := None)"
    by (simp_all add: d l)
qed

lemma remove_if_ok:
  assumes "mc_inv mc"
  shows "mc_inv (remove_if P k mc)"
    and "mc_recent (remove_if P k mc) = filter (\<lambda>it. \<not> (li_key it = k \<and> P k (li_entry it))) (mc_recent mc)"
    and "mc_config (remove_if P k mc) = mc_config mc" "mc_dirListings (remove_if P k mc) = mc_dirListings mc"
proof -
  note find = lru_find_recency [OF mc_invD(1) [OF assms], of k]
  note iff = lru_find_iff [OF mc_invD(6) [OF assms], of k]
  show "mc_inv (remove_if P k mc)"
    using assms removeLocked_ok(1) [OF assms] by (auto simp: remove_if_def split: option.split)
  show "mc_recent (remove_if P k mc) = filter (\<lambda>it. \<not> (li_key it = k \<and> P k (li_entry it))) (mc_recent mc)"
  proof (cases "mc_items mc k")
    case None
    with find have "\<forall>it\<in>set (mc_recent mc). li_key it \<noteq> k" by (auto simp: lru_find_None)
    then show ?thesis by (simp add: remove_if_def None)
  next
    case (Some e)
    with find iff have "li_key it = k \<longleftrightarrow> it = val_of (mc_order mc) e" if "it \<in> set (mc_recent mc)" for it
      using that by (metis option.inject option.simps(9))
    then have "\<forall>it\<in>set (mc_recent mc). li_key it = k \<longrightarrow> li_entry it = li_entry (val_of (mc_order mc) e)" by auto
    then show ?thesis
      using removeLocked_ok(2) [OF assms Some]
      by (auto simp: remove_if_def Some lru_drop_def intro!: filter_cong filter_True [symmetric])
  qed
qed (simp_all add: remove_if_def split: option.split)

lemma fold_remove_if_ok:
  assumes "mc_inv mc"
  shows "mc_inv (fold (remove_if P) ks mc) \<and>
    mc_recent (fold (remove_if P) ks mc) =
      filter (\<lambda>it. \<not> (li_key it \<in> set ks \<and> P (li_key it) (li_entry it))) (mc_recent mc) \<and>
    mc_config (fold (remove_if P) ks mc) = mc_config mc \<and>
    mc_dirListings (fold (remove_if P) ks mc) = mc_dirListings mc"
  using assms
proof (induction ks arbitrary: mc)
  case (Cons k ks)
  note r = remove_if_ok [OF Cons.prems, of P k]
  from Cons.IH [OF r(1)] r show ?case by (auto intro!: filter_cong)
qed simp

lemma fold_remove_listing:
  "mc_dirListings (fold (remove_listing_if P) ps mc) p =
     (case mc_dirListings mc p of None \<Rightarrow> None
      | Some dl \<Rightarrow> if p \<in> set ps \<and> P p dl then None else Some dl)"
  "mc_items (fold (remove_listing_if P) ps mc) = mc_items mc"
  "mc_order (fold (remove_listing_if P) ps mc) = mc_order mc"
  "mc_config (fold (remove_listing_if P) ps mc) = mc_config mc"
  by (induction ps arbitrary: mc) (auto simp: remove_listing_if_def split: option.splits)

text \<open>
  Both sweeps: the entries for which one predicate holds go, then the listings for which
  another does, whatever the iteration order.
\<close>

definition sweep ::
  "rangeorder \<Rightarrow> (string \<Rightarrow> CacheEntry \<Rightarrow> bool) \<Rightarrow> (string \<Rightarrow> dirListingEntry \<Rightarrow> bool) \<Rightarrow> MetadataCache \<Rightarrow> MetadataCache" where
  "sweep rng P Q mc =
     (let mc1 = fold (remove_if P) (rng (dom (mc_items mc))) mc
      in fold (remove_listing_if Q) (rng (dom (mc_dirListings mc1))) mc1)"

lemma sweep_ok:
  assumes "mc_inv mc" and "range_ok rng"
  shows "mc_inv (sweep rng P Q mc)"
    and "mc_recent (sweep rng P Q mc) = filter (\<lambda>it. \<not> P (li_key it) (li_entry it)) (mc_recent mc)"
    and "mc_config (sweep rng P Q mc) = mc_config mc"
    and "mc_dirListings (sweep rng P Q mc) p =
      (case mc_dirListings mc p of None \<Rightarrow> None | Some dl \<Rightarrow> if Q p dl then None else Some dl)"
proof -
  define mc1 where "mc1 = fold (remove_if P) (rng (dom (mc_items mc))) mc"
  note f = fold_remove_if_ok [OF assms(1), of P "rng (dom (mc_items mc))", folded mc1_def]
  then have dl: "mc_dirListings mc1 = mc_dirListings mc" and inv1: "mc_inv mc1" by simp_all
  have ks: "set (rng (dom (mc_items mc))) = dom (mc_items mc)" "set (rng (dom (mc_dirListings mc))) = dom (mc_dirListings mc)"
    using range_okD(1) [OF assms(2)] mc_invD(4,5) [OF assms(1)] by auto
  have d: "sweep rng P Q mc = fold (remove_listing_if Q) (rng (dom (mc_dirListings mc))) mc1"
    by (simp add: sweep_def mc1_def [symmetric] Let_def dl)
  show L: "mc_dirListings (sweep rng P Q mc) p =
      (case mc_dirListings mc p of None \<Rightarrow> None | Some dl \<Rightarrow> if Q p dl then None else Some dl)" for p
    by (auto simp: d fold_remove_listing ks(2) dl split: option.split)
  have "li_key it \<in> dom (mc_items mc)" if "it \<in> set (mc_recent mc)" for it
    using that lru_None [OF mc_invD(1) [OF assms(1)], of "li_key it"] by auto
  with f ks(1) show "mc_recent (sweep rng P Q mc) = filter (\<lambda>it. \<not> P (li_key it) (li_entry it)) (mc_recent mc)"
    by (auto simp: d fold_remove_listing intro!: filter_cong)
  have "finite (dom (mc_dirListings (sweep rng P Q mc)))"
    by (rule finite_subset [OF _ mc_invD(4) [OF assms(1)]]) (auto simp: dom_def L split: option.splits)
  with inv1 show "mc_inv (sweep rng P Q mc)" by (simp add: mc_inv_def d fold_remove_listing)
  show "mc_config (sweep rng P Q mc) = mc_config mc" using f by (simp add: d fold_remove_listing)
qed

lemma InvalidatePrefix_sweep:
  "InvalidatePrefix rng p = sweep rng (\<lambda>key _. HasPrefix key p) (\<lambda>q _. HasPrefix q p)"
proof -
  have "(\<lambda>q (_::dirListingEntry). HasPrefix q p \<or> q = p) = (\<lambda>q _. HasPrefix q p)"
    by (auto simp: fun_eq_iff HasPrefix_def)
  then show ?thesis by (simp add: fun_eq_iff InvalidatePrefix_def sweep_def)
qed

lemma evictExpired_sweep:
  "evictExpired rng now mc = sweep rng (\<lambda>_ entry. isExpired (mc_config mc) now entry)
     (\<lambda>_ dl. time_Sub now (dl_cachedAt dl) > cc_DirTTL (mc_config mc)) mc"
  by (simp add: evictExpired_def sweep_def)

subsection \<open>Runs of the cache\<close>

datatype mc_op =
    McGet time string | McPut time string CacheEntry | McPutNegative time string
  | McPutDir time string "CacheEntry list"
  | McInvalidate string | McInvalidatePrefix string | McEvict time

fun mc_step :: "rangeorder \<Rightarrow> mc_op \<Rightarrow> MetadataCache \<Rightarrow> MetadataCache" where
  "mc_step rng (McGet now k) mc = snd (GetEntry now k mc)"
| "mc_step rng (McPut now k e) mc = PutEntry now k e mc"
| "mc_step rng (McPutNegative now k) mc = PutNegative now k mc"
| "mc_step rng (McPutDir now p es) mc = PutDirListing now p es mc"
| "mc_step rng (McInvalidate k) mc = mc_Invalidate k mc"
| "mc_step rng (McInvalidatePrefix p) mc = InvalidatePrefix rng p mc"
| "mc_step rng (McEvict now) mc = evictExpired rng now mc"

text \<open>The entries \<open>PutEntry\<close> and \<open>PutNegative\<close> store.\<close>

abbreviation stamped :: "time \<Rightarrow> CacheEntry \<Rightarrow> CacheEntry" where
  "stamped now e \<equiv> e\<lparr>ce_CachedAt := now, ce_negative := False\<rparr>"

abbreviation negative_entry :: "time \<Rightarrow> string \<Rightarrow> CacheEntry" where
  "negative_entry now k \<equiv> CacheEntry_zero\<lparr>ce_S3Key := k, ce_CachedAt := now, ce_negative := True\<rparr>"

text \<open>The same operations on a recency list of capacity \<open>MaxEntries\<close>: the specification of an LRU cache with expiry.\<close>

fun lru_step :: "CacheConfig \<Rightarrow> mc_op \<Rightarrow> lruItem list \<Rightarrow> lruItem list" where
  "lru_step c (McGet now k) rs = snd (lru_get c now k rs)"
| "lru_step c (McPut now k e) rs =
     lru_put li_key (nat (cc_MaxEntries c)) \<lparr>li_key = k, li_entry = stamped now e\<rparr> rs"
| "lru_step c (McPutNegative now k) rs =
     lru_put li_key (nat (cc_MaxEntries c)) \<lparr>li_key = k, li_entry = negative_entry now k\<rparr> rs"
| "lru_step c (McPutDir now p es) rs = rs"
| "lru_step c (McInvalidate k) rs = lru_drop li_key k rs"
| "lru_step c (McInvalidatePrefix p) rs = filter (\<lambda>it. \<not> HasPrefix (li_key it) p) rs"
| "lru_step c (McEvict now) rs = filter (\<lambda>it. \<not> isExpired c now (li_entry it)) rs"

lemma mc_step_ok:
  assumes "mc_inv mc" and "range_ok rng"
  shows "mc_inv (mc_step rng x mc)" and "mc_recent (mc_step rng x mc) = lru_step (mc_config mc) x (mc_recent mc)"
    and "mc_config (mc_step rng x mc) = mc_config mc"
  using assms
  by (cases x; auto simp: GetEntry_ok PutEntry_def PutNegative_def storeLocked_ok PutDirListing_def mc_Invalidate_ok
      InvalidatePrefix_sweep evictExpired_sweep sweep_ok; simp add: mc_inv_def)+

lemma mc_run_ok:
  assumes "mc_inv mc" and "range_ok rng"
  shows "mc_inv (fold (mc_step rng) xs mc) \<and>
    mc_recent (fold (mc_step rng) xs mc) = fold (lru_step (mc_config mc)) xs (mc_recent mc) \<and>
    mc_config (fold (mc_step rng) xs mc) = mc_config mc"
  using assms(1)
proof (induction xs arbitrary: mc)
  case (Cons x xs)
  note st = mc_step_ok [OF Cons.prems assms(2), of x]
  from Cons.IH [OF st(1)] st show ?case by simp
qed simp

text \<open>What an operation does to an unbounded map of entries, and to one of listings.\<close>

fun entry_effect :: "mc_op \<Rightarrow> (string, CacheEntry) map_op" where
  "entry_effect (McPut now k e) = MPut k (stamped now e)"
| "entry_effect (McPutNegative now k) = MPut k (negative_entry now k)"
| "entry_effect (McInvalidate k) = MDrop (\<lambda>k'. k' = k)"
| "entry_effect (McInvalidatePrefix p) = MDrop (\<lambda>k'. HasPrefix k' p)"
| "entry_effect _ = MNop"

fun listing_effect :: "mc_op \<Rightarrow> (string, dirListingEntry) map_op" where
  "listing_effect (McPutDir now p es) = MPut p \<lparr>dl_entries = es, dl_cachedAt = now\<rparr>"
| "listing_effect (McInvalidate k) = MDrop (\<lambda>p. p = parentPrefix k)"
| "listing_effect (McInvalidatePrefix q) = MDrop (\<lambda>p. HasPrefix p q)"
| "listing_effect _ = MNop"

lemma lru_step_effect:
  assumes "distinct (map li_key rs)" and "lru_find li_key k (lru_step c x rs) = Some it"
  shows "map_apply (entry_effect x) (\<lambda>k. map_option li_entry (lru_find li_key k rs)) k = Some (li_entry it)"
proof -
  have F: "lru_find li_key k (filter P rs) = Some it \<Longrightarrow> P it \<and> lru_find li_key k rs = Some it \<and> li_key it = k" for P
    using assms(1) by (simp add: lru_find_iff distinct_map_filter)
  have P: "lru_find li_key k (lru_put li_key cap u rs) = Some it \<Longrightarrow>
      if k = li_key u then it = u else lru_find li_key k rs = Some it" for cap u
    using lru_find_put [of li_key k cap u rs it] lru_find_iff [OF assms(1)] by (auto split: if_splits)
  show ?thesis
  proof (cases x)
    case (McGet now k')
    with assms(2) F [of "\<lambda>v. li_key v \<noteq> k'"] show ?thesis
      by (auto simp: lru_get_def lru_drop_def split: option.splits if_splits dest: lru_find_SomeD)
  next
    case (McPut now k' e)
    with assms(2) show ?thesis by (auto dest!: P split: if_splits)
  next
    case (McPutNegative now k')
    with assms(2) show ?thesis by (auto dest!: P split: if_splits)
  qed (use assms(2) F in \<open>auto simp: lru_drop_def\<close>)
qed

lemma mc_entry_step:
  assumes "mc_inv mc" and "range_ok rng"
  shows "mc_view (mc_step rng x mc) \<subseteq>\<^sub>m map_apply (entry_effect x) (mc_view mc)"
proof (rule map_leI)
  fix k e assume "mc_view (mc_step rng x mc) k = Some e"
  then obtain it where "lru_find li_key k (lru_step (mc_config mc) x (mc_recent mc)) = Some it" "e = li_entry it"
    using mc_view_find [OF mc_step_ok(1) [OF assms]] mc_step_ok(2) [OF assms] by auto
  moreover have "mc_view mc = (\<lambda>k. map_option li_entry (lru_find li_key k (mc_recent mc)))"
    using mc_view_find [OF assms(1)] by auto
  ultimately show "map_apply (entry_effect x) (mc_view mc) k = Some e"
    using lru_step_effect [OF mc_invD(6) [OF assms(1)]] by simp
qed

lemma mc_listing_step:
  assumes "mc_inv mc" and "range_ok rng"
  shows "mc_dirListings (mc_step rng x mc) \<subseteq>\<^sub>m map_apply (listing_effect x) (mc_dirListings mc)"
  using assms
  by (intro map_leI, cases x)
     (auto simp: PutEntry_def PutNegative_def PutDirListing_def mc_Invalidate_ok InvalidatePrefix_sweep
        evictExpired_sweep sweep_ok split: option.splits if_splits)

interpretation entries: lossy_cache mc_view "mc_step rng" entry_effect "\<lambda>mc. mc_inv mc \<and> range_ok rng" for rng
  by unfold_locales (auto simp: mc_step_ok intro: mc_entry_step)

interpretation listings: lossy_cache mc_dirListings "mc_step rng" listing_effect "\<lambda>mc. mc_inv mc \<and> range_ok rng" for rng
  by unfold_locales (auto simp: mc_step_ok intro: mc_listing_step)

lemma GetEntry_view:
  assumes "mc_inv mc"
  shows "fst (GetEntry now k mc) = (case mc_view mc k of None \<Rightarrow> None
    | Some e \<Rightarrow> if isExpired (mc_config mc) now e then None else Some e)"
  by (auto simp: GetEntry_def mc_view_def Let_def split: option.split)

subsection \<open>How long an entry survives\<close>

text \<open>An operation that neither overwrites, invalidates nor outlives the entry \<open>e\<close> of key \<open>k\<close>.\<close>

fun spares :: "CacheConfig \<Rightarrow> string \<Rightarrow> CacheEntry \<Rightarrow> mc_op \<Rightarrow> bool" where
  "spares c k e (McGet now k') = (k' = k \<longrightarrow> \<not> isExpired c now e)"
| "spares c k e (McPut now k' e') = (k' \<noteq> k)"
| "spares c k e (McPutNegative now k') = (k' \<noteq> k)"
| "spares c k e (McPutDir now p es) = True"
| "spares c k e (McInvalidate k') = (k' \<noteq> k)"
| "spares c k e (McInvalidatePrefix p) = (\<not> HasPrefix k p)"
| "spares c k e (McEvict now) = (\<not> isExpired c now e)"

lemma lru_step_keeps:
  assumes "lru_find li_key k rs = Some it" and "spares c k (li_entry it) x" and "distinct (map li_key rs)"
    and "length rs \<le> nat (cc_MaxEntries c)" and "Suc (lru_pos li_key k rs) < nat (cc_MaxEntries c)"
  shows "lru_find li_key k (lru_step c x rs) = Some it \<and> lru_pos li_key k (lru_step c x rs) \<le> Suc (lru_pos li_key k rs)"
proof -
  note it = lru_find_SomeD [OF assms(1)]
  have F: "lru_find li_key k (filter P rs) = Some it \<and> lru_pos li_key k (filter P rs) \<le> Suc (lru_pos li_key k rs)" if "P it" for P
    using that it lru_pos_filter [of it rs li_key k P] assms(3) by (simp add: lru_find_iff distinct_map_filter)
  show ?thesis
  proof (cases x)
    case (McGet now k')
    show ?thesis
    proof (cases "k' = k")
      case True
      with McGet assms(1,2) it show ?thesis by (simp add: lru_get_def)
    next
      case False
      with McGet assms(1) it F [of "\<lambda>v. li_key v \<noteq> k'"] lru_pos_drop [of k k' li_key rs]
      show ?thesis
        by (auto simp: lru_get_def lru_drop_def split: option.split dest!: lru_find_SomeD)
    qed
  qed (use assms(1,2,4,5) it F lru_put_keeps [OF assms(1) _ assms(4,5)] in \<open>auto simp: lru_drop_def\<close>)
qed

lemma lru_run_keeps:
  assumes "lru_find li_key k (mc_recent mc) = Some it" and "mc_inv mc" and "range_ok rng"
    and "list_all (spares (mc_config mc) k (li_entry it)) xs"
    and "lru_pos li_key k (mc_recent mc) + length xs < mc_cap mc"
  shows "lru_find li_key k (mc_recent (fold (mc_step rng) xs mc)) = Some it"
  using assms(1,2,4,5)
proof (induction xs arbitrary: mc)
  case (Cons x xs)
  note st = mc_step_ok [OF Cons.prems(2) assms(3), of x]
  have "lru_find li_key k (mc_recent (mc_step rng x mc)) = Some it \<and>
        lru_pos li_key k (mc_recent (mc_step rng x mc)) \<le> Suc (lru_pos li_key k (mc_recent mc))"
    unfolding st(2) using Cons.prems mc_invD(2,6) [OF Cons.prems(2)] by (intro lru_step_keeps) auto
  with Cons st show ?case by simp
qed simp

subsection \<open>Properties\<close>

lemma NewMetadataCache_simps [simp]:
  "mc_recent (NewMetadataCache config) = []" "mc_dirListings (NewMetadataCache config) = Map.empty"
  "mc_view (NewMetadataCache config) = Map.empty"
  by (simp_all add: NewMetadataCache_def Let_def mc_view_def fun_eq_iff)

text \<open>
  C6. The metadata cache is an LRU cache: after any sequence of method calls on a new cache,
  its entries in recency order are those of the list specification run over the same calls,
  never more than \<open>MaxEntries\<close> of them, and a lookup returns what the specification returns.
\<close>
theorem metadata_cache_refines_lru:
  assumes "range_ok rng"
  shows "let mc0 = NewMetadataCache config; c = mc_config mc0;
             mc = fold (mc_step rng) calls mc0; rs = fold (lru_step c) calls []
         in mc_recent mc = rs \<and> int (length rs) \<le> cc_MaxEntries c \<and> distinct (map li_key rs) \<and>
            (\<forall>now k. fst (GetEntry now k mc) = fst (lru_get c now k rs))"
proof -
  note r = mc_run_ok [OF NewMetadataCache_inv [of config] assms, of calls]
  then have inv: "mc_inv (fold (mc_step rng) calls (NewMetadataCache config))" by simp
  from r mc_invD(2,3,6) [OF inv] GetEntry_ok(2) [OF inv] show ?thesis
    by (auto simp: Let_def)
qed

text \<open>Calls that fill a cache of two entries, touch the older one and insert a third.\<close>

definition tiny_config :: CacheConfig where
  "tiny_config = DefaultCacheConfig\<lparr>cc_MaxEntries := 2\<rparr>"

definition tiny_calls :: "mc_op list" where
  "tiny_calls = [McPut 0 ''a'' CacheEntry_zero, McPut 0 ''b'' CacheEntry_zero, McGet 1 ''a'',
                 McPutNegative 2 ''c'', McInvalidate ''x'']"

lemmas tiny_defs = tiny_config_def tiny_calls_def DefaultCacheConfig_def NewMetadataCache_def CacheEntry_zero_def

theorem metadata_cache_refines_lru_witness:
  "let mc = fold (mc_step sorted_range) tiny_calls (NewMetadataCache tiny_config)
   in map li_key (mc_recent mc) = [''c'', ''a''] \<and> fst (GetEntry 3 ''b'' mc) = None"
  using metadata_cache_refines_lru [OF sorted_range_ok, of tiny_config tiny_calls]
  by (simp add: Let_def)
     (simp add: tiny_defs Let_def lru_put_def lru_get_def lru_drop_def isExpired_def time_Sub_def)

text \<open>
  C14. The cache never invents metadata: after any sequence of calls on a new cache, an entry
  that a lookup returns is the one last stored under that key and not invalidated since, and
  it has not outlived its time-to-live.
\<close>
theorem metadata_cache_never_invents:
  assumes "range_ok rng"
    and "fst (GetEntry now k (fold (mc_step rng) calls (NewMetadataCache config))) = Some e"
  shows "fold (\<lambda>x. map_apply (entry_effect x)) calls Map.empty k = Some e \<and>
         \<not> isExpired (mc_config (NewMetadataCache config)) now e"
proof -
  note r = mc_run_ok [OF NewMetadataCache_inv [of config] assms(1), of calls]
  then have inv: "mc_inv (fold (mc_step rng) calls (NewMetadataCache config))" by simp
  have "mc_view (fold (mc_step rng) calls (NewMetadataCache config)) \<subseteq>\<^sub>m
        fold (\<lambda>x. map_apply (entry_effect x)) calls Map.empty"
    using NewMetadataCache_inv assms(1) by (intro entries.run_view) auto
  then show ?thesis
    using assms(2) r unfolding GetEntry_view [OF inv]
    by (auto split: option.splits if_splits dest: map_leD)
qed

theorem metadata_cache_never_invents_witness:
  "fst (GetEntry 3 ''c'' (fold (mc_step sorted_range) tiny_calls (NewMetadataCache tiny_config)))
     = Some (negative_entry 2 ''c'') \<and>
   \<not> isExpired (mc_config (NewMetadataCache tiny_config)) 3 (negative_entry 2 ''c'')"
proof -
  let ?mc = "fold (mc_step sorted_range) tiny_calls (NewMetadataCache tiny_config)"
  have r: "mc_inv ?mc" "mc_recent ?mc = fold (lru_step (mc_config (NewMetadataCache tiny_config))) tiny_calls []"
    "mc_config ?mc = mc_config (NewMetadataCache tiny_config)"
    using mc_run_ok [OF NewMetadataCache_inv [of tiny_config] sorted_range_ok, of tiny_calls] by auto
  have g: "fst (GetEntry 3 ''c'' ?mc) = Some (negative_entry 2 ''c'')"
    by (simp add: GetEntry_ok(2) [OF r(1)] r(2,3))
       (simp add: tiny_defs Let_def lru_put_def lru_get_def lru_drop_def isExpired_def time_Sub_def)
  with metadata_cache_never_invents [OF sorted_range_ok g] show ?thesis by simp
qed

text \<open>
  C17. An entry survives until its time-to-live ends as long as the cache is not under
  pressure: after \<open>PutEntry\<close>, any run of fewer than \<open>MaxEntries\<close> calls that do not overwrite
  or invalidate the key and happen before its expiry leaves it retrievable, unchanged.
\<close>
theorem put_entry_survives:
  assumes "mc_inv mc" and "range_ok rng" and "int (length calls) < cc_MaxEntries (mc_config mc)"
    and "list_all (spares (mc_config mc) k (stamped t0 e)) calls"
    and "\<not> isExpired (mc_config mc) now (stamped t0 e)"
  shows "fst (GetEntry now k (fold (mc_step rng) calls (PutEntry t0 k e mc))) = Some (stamped t0 e)"
proof -
  let ?it = "\<lparr>li_key = k, li_entry = stamped t0 e\<rparr>"
  let ?mc = "PutEntry t0 k e mc"
  have inv: "mc_inv ?mc" and cfg: "mc_config ?mc = mc_config mc"
    by (simp_all add: PutEntry_def storeLocked_ok assms(1))
  have "lru_find li_key k (mc_recent ?mc) = Some ?it" "lru_pos li_key k (mc_recent ?mc) = 0"
    by (simp_all add: PutEntry_def storeLocked_ok(2) [OF assms(1)] lru_put_def)
  with assms inv cfg have "lru_find li_key k (mc_recent (fold (mc_step rng) calls ?mc)) = Some ?it"
    by (intro lru_run_keeps) auto
  moreover have "mc_inv (fold (mc_step rng) calls ?mc)" "mc_config (fold (mc_step rng) calls ?mc) = mc_config mc"
    using mc_run_ok [OF inv assms(2)] cfg by auto
  ultimately show ?thesis using assms(5) by (simp add: GetEntry_ok(2) lru_get_def)
qed

theorem put_entry_survives_witness:
  "fst (GetEntry (299 * second) ''a'' (fold (mc_step sorted_range) [McPutNegative 5 ''b'']
     (PutEntry 0 ''a'' CacheEntry_zero (NewMetadataCache tiny_config)))) = Some (stamped 0 CacheEntry_zero)"
  by (rule put_entry_survives [OF NewMetadataCache_inv sorted_range_ok])
     (simp_all add: tiny_defs Let_def isExpired_def time_Sub_def)

text \<open>
  Invalidation is exact: after \<open>Invalidate k\<close> neither \<open>k\<close> nor the listing of its
  parent directory is found, and every other key and every other listing is answered as before.
\<close>
theorem invalidate_exact:
  assumes "mc_inv mc"
  shows "fst (GetEntry now k' (mc_Invalidate k mc)) = (if k' = k then None else fst (GetEntry now k' mc)) \<and>
         GetDirListing now p (mc_Invalidate k mc) = (if p = parentPrefix k then None else GetDirListing now p mc)"
proof -
  note i = mc_Invalidate_ok [OF assms, of k]
  have "fst (GetEntry now k' (mc_Invalidate k mc)) = (if k' = k then None else fst (GetEntry now k' mc))"
    by (simp add: GetEntry_ok(2) [OF i(1)] GetEntry_ok(2) [OF assms] i(2,3) lru_get_def lru_find_drop split: option.split)
  then show ?thesis by (simp add: GetDirListing_def i(3,4) split: option.split)
qed

theorem invalidate_exact_witness:
  "fst (GetEntry 1 ''d/a'' (mc_Invalidate ''d/a''
     (PutDirListing 0 ''d/'' [] (PutEntry 0 ''d/a'' CacheEntry_zero (NewMetadataCache tiny_config))))) = None"
proof -
  have "mc_inv (PutDirListing 0 ''d/'' [] (PutEntry 0 ''d/a'' CacheEntry_zero (NewMetadataCache tiny_config)))"
    using mc_step_ok(1) [OF mc_step_ok(1) [OF NewMetadataCache_inv sorted_range_ok] sorted_range_ok,
        of "McPutDir 0 ''d/'' []" "McPut 0 ''d/a'' CacheEntry_zero" tiny_config] by simp
  from invalidate_exact [OF this] show ?thesis by simp
qed

text \<open>
  A directory listing the cache returns is the one last stored for that prefix since any
  call that invalidated it (\<open>Invalidate\<close> of a direct child, or \<open>InvalidatePrefix\<close> of an
  enclosing prefix), and is at most \<open>DirTTL\<close> old.
\<close>
theorem dir_listing_never_invents:
  assumes "range_ok rng"
    and "GetDirListing now p (fold (mc_step rng) calls (NewMetadataCache config)) = Some es"
  shows "\<exists>dl. fold (\<lambda>x. map_apply (listing_effect x)) calls Map.empty p = Some dl \<and> dl_entries dl = es \<and>
         time_Since now (dl_cachedAt dl) \<le> cc_DirTTL (mc_config (NewMetadataCache config))"
proof -
  have "mc_dirListings (fold (mc_step rng) calls (NewMetadataCache config)) \<subseteq>\<^sub>m
        fold (\<lambda>x. map_apply (listing_effect x)) calls Map.empty"
    using NewMetadataCache_inv assms(1) by (intro listings.run_view) auto
  moreover have "mc_config (fold (mc_step rng) calls (NewMetadataCache config)) = mc_config (NewMetadataCache config)"
    using mc_run_ok [OF NewMetadataCache_inv assms(1)] by auto
  ultimately show ?thesis
    using assms(2) by (auto simp: GetDirListing_def split: option.splits if_splits dest: map_leD)
qed

theorem dir_listing_never_invents_witness:
  "\<exists>dl. fold (\<lambda>x. map_apply (listing_effect x)) [McPutDir 0 ''d/'' [CacheEntry_zero], McInvalidate ''e/f''] Map.empty ''d/'' = Some dl \<and>
        dl_entries dl = [CacheEntry_zero] \<and> time_Since second (dl_cachedAt dl) \<le> cc_DirTTL (mc_config (NewMetadataCache tiny_config))"
proof (rule dir_listing_never_invents [OF sorted_range_ok])
  have "mc_inv (PutDirListing 0 ''d/'' [CacheEntry_zero] (NewMetadataCache tiny_config))"
    using mc_step_ok(1) [OF NewMetadataCache_inv sorted_range_ok, of "McPutDir 0 ''d/'' [CacheEntry_zero]" tiny_config] by simp
  moreover have "parentPrefix ''e/f'' = ''e/''" by code_simp
  ultimately show "GetDirListing second ''d/'' (fold (mc_step sorted_range) [McPutDir 0 ''d/'' [CacheEntry_zero], McInvalidate ''e/f'']
      (NewMetadataCache tiny_config)) = Some [CacheEntry_zero]"
    by (simp add: GetDirListing_def mc_Invalidate_ok split: option.split) (auto simp: PutDirListing_def tiny_defs Let_def time_Sub_def)
qed

end
