(* ===== verification/S3Store.thy ===== *)
theory S3Store
  imports GoStrings
begin

text \<open>
  The object-store layer of \<^verbatim>\<open>internal/s3\<close>: the interface \<open>S3API\<close> the filesystem is written
  against (\<^verbatim>\<open>interface.go\<close>), the client that implements it over minio-go (\<^verbatim>\<open>client.go\<close>) and
  the start-up checks (\<^verbatim>\<open>compat.go\<close>).

  minio-go is not part of the repository: it is the record \<open>minio\<close> of the calls the client
  makes, over an abstract type \<open>'w\<close> of states of the remote store. \<open>minio_ok\<close> states the
  documented behaviour the gateway relies on, relative to the objects a state holds, and
  \<open>s3_ok\<close> is the same contract for \<open>S3API\<close>. Calls may fail at any point; a failed write has
  either happened or not. The locale \<open>object_store\<close> derives what the filesystem uses, and the
  client provides it.
\<close>

subsection \<open>Types\<close>

type_synonym meta = "string strmap"

record ObjectInfo =
  oi_Key :: string
  oi_Size :: int
  oi_LastModified :: time
  oi_ETag :: string
  oi_ContentType :: string
  oi_IsDir :: bool
  oi_UserMetadata :: meta

record ListEntry =
  le_Key :: string
  le_Size :: int
  le_LastModified :: time
  le_ETag :: string
  le_IsDir :: bool

text \<open>
  An \<open>io.ReadCloser\<close> over the network: the bytes it will yield, and the error it ends with
  (\<^term>\<open>None\<close> for \<open>io.EOF\<close>).
\<close>

record reader =
  rd_data :: bytes
  rd_err :: "err option"

text \<open>The interface \<open>S3API\<close>. Reads look at the state of the store, writes change it.\<close>

record 'w S3API =
  HeadObject :: "string \<Rightarrow> 'w \<Rightarrow> ObjectInfo result"
  GetObject :: "string \<Rightarrow> 'w \<Rightarrow> (reader \<times> ObjectInfo) result"
  GetObjectRange :: "string \<Rightarrow> int \<Rightarrow> int \<Rightarrow> 'w \<Rightarrow> reader result"
  ListObjects :: "string \<Rightarrow> 'w \<Rightarrow> ListEntry list result"
  PutObject :: "string \<Rightarrow> bytes \<Rightarrow> int \<Rightarrow> meta \<Rightarrow> 'w \<Rightarrow> err option \<times> 'w"
  DeleteObject :: "string \<Rightarrow> 'w \<Rightarrow> err option \<times> 'w"
  CopyObject :: "string \<Rightarrow> string \<Rightarrow> 'w \<Rightarrow> err option \<times> 'w"
  CopyObjectWithMetadata :: "string \<Rightarrow> meta \<Rightarrow> 'w \<Rightarrow> err option \<times> 'w"
  CreateDirMarker :: "string \<Rightarrow> 'w \<Rightarrow> err option \<times> 'w"

subsection \<open>Backend detection\<close>

datatype S3Backend = BackendMinIO | BackendAWS | BackendObjectScale

fun backend_name :: "S3Backend \<Rightarrow> string" where
  "backend_name BackendMinIO = ''minio''"
| "backend_name BackendAWS = ''aws''"
| "backend_name BackendObjectScale = ''objectscale''"

definition DetectBackend :: "string \<Rightarrow> S3Backend" where
  "DetectBackend endpoint =
     (let host = fold (\<lambda>p h. TrimPrefix h p) [''http://'', ''https://''] endpoint
      in if HasSuffix host '':9020'' \<or> HasSuffix host '':9021'' then BackendObjectScale
         else if HasSuffix host '':9000'' then BackendMinIO
         else let lower = ToLower host
              in if Contains lower ''objectscale'' \<or> Contains lower ''dell'' then BackendObjectScale
                 else if Contains lower ''minio'' then BackendMinIO
                 else if Contains lower ''amazonaws.com'' \<or> Contains lower ''s3.'' then BackendAWS
                 else BackendAWS)"

text \<open>\<open>err.Error()\<close>.\<close>

fun Error :: "err \<Rightarrow> string" where
  "Error ErrNotExist = ''file does not exist''"
| "Error ErrExist = ''file already exists''"
| "Error ErrInvalid = ''invalid argument''"
| "Error ErrClosed = ''file already closed''"
| "Error EOF = ''EOF''"
| "Error ErrUnexpectedEOF = ''unexpected EOF''"
| "Error (Errorf m) = m"
| "Error (Wrap m e) = m @ '': '' @ Error e"
| "Error (Panic m) = m"

definition newline :: string where
  "newline = [char_of (10::nat)]"

definition hint_list :: "string \<Rightarrow> string \<Rightarrow> string list \<Rightarrow> err" where
  "hint_list base title hints =
     Errorf (base @ newline @ title @ newline @ ''  - '' @ Join hints (newline @ ''  - ''))"

definition wrapConnectionError :: "err \<Rightarrow> S3Backend \<Rightarrow> err" where
  "wrapConnectionError e backend =
     (let base = ''S3 connection error ('' @ backend_name backend @ '' backend): '' @ Error e
      in case backend of
           BackendObjectScale \<Rightarrow> hint_list base ''ObjectScale troubleshooting hints:''
             [''verify the endpoint uses port 9020 (HTTP) or 9021 (HTTPS)'',
              ''ensure path-style addressing is enabled (S3_PATH_STYLE=true)'',
              ''check that the ObjectScale namespace and bucket exist'',
              ''if using HTTPS, verify the TLS certificate is trusted or set S3_USE_SSL=false for testing'']
         | BackendMinIO \<Rightarrow> hint_list base ''MinIO troubleshooting hints:''
             [''verify MinIO is running and reachable at the configured endpoint'',
              ''check that access key and secret key are correct'']
         | BackendAWS \<Rightarrow> Errorf base)"

subsection \<open>The client\<close>

text \<open>The result of \<open>StatObject\<close>, and one element of a listing.\<close>

record mobj =
  mb_Key :: string
  mb_Size :: int
  mb_LastModified :: time
  mb_ETag :: string
  mb_ContentType :: string
  mb_UserMetadata :: meta

text \<open>
  The calls of minio-go the client makes. \<open>GetObject\<close> is lazy: it returns an object whose
  \<open>Stat\<close> and whose reads may still fail. A byte range is a value \<open>SetRange\<close> accepts.
\<close>

record 'w minio =
  mo_StatObject :: "string \<Rightarrow> string \<Rightarrow> 'w \<Rightarrow> mobj result"
  mo_SetRange :: "int \<Rightarrow> int \<Rightarrow> (int \<times> int) result"
  mo_GetObject :: "string \<Rightarrow> string \<Rightarrow> (int \<times> int) option \<Rightarrow> 'w \<Rightarrow> (reader \<times> mobj result) result"
  mo_ListObjects :: "string \<Rightarrow> string \<Rightarrow> 'w \<Rightarrow> mobj result list"
  mo_PutObject :: "string \<Rightarrow> string \<Rightarrow> bytes \<Rightarrow> int \<Rightarrow> meta \<Rightarrow> 'w \<Rightarrow> err option \<times> 'w"
  mo_RemoveObject :: "string \<Rightarrow> string \<Rightarrow> 'w \<Rightarrow> err option \<times> 'w"
  mo_CopyObject :: "string \<Rightarrow> string \<Rightarrow> meta option \<Rightarrow> string \<Rightarrow> 'w \<Rightarrow> err option \<times> 'w"
  mo_BucketExists :: "string \<Rightarrow> 'w \<Rightarrow> bool result"

definition object_info :: "mobj \<Rightarrow> ObjectInfo" where
  "object_info info = \<lparr>oi_Key = mb_Key info, oi_Size = mb_Size info, oi_LastModified = mb_LastModified info,
     oi_ETag = mb_ETag info, oi_ContentType = mb_ContentType info, oi_IsDir = False,
     oi_UserMetadata = mb_UserMetadata info\<rparr>"

definition client_HeadObject :: "'w minio \<Rightarrow> string \<Rightarrow> string \<Rightarrow> 'w \<Rightarrow> ObjectInfo result" where
  "client_HeadObject mo bucket key w =
     res_bind (mo_StatObject mo bucket key w) (\<lambda>info. Inr (object_info info))"

definition client_GetObject :: "'w minio \<Rightarrow> string \<Rightarrow> string \<Rightarrow> 'w \<Rightarrow> (reader \<times> ObjectInfo) result" where
  "client_GetObject mo bucket key w =
     res_bind (mo_GetObject mo bucket key None w) (\<lambda>(obj, st).
     res_bind st (\<lambda>info. Inr (obj, object_info info)))"

definition client_GetObjectRange :: "'w minio \<Rightarrow> string \<Rightarrow> string \<Rightarrow> int \<Rightarrow> int \<Rightarrow> 'w \<Rightarrow> reader result" where
  "client_GetObjectRange mo bucket key offset len w =
     (case mo_SetRange mo offset (offset + len - 1) of
        Inl e \<Rightarrow> Inl (Wrap ''set range'' e)
      | Inr rng \<Rightarrow> res_bind (mo_GetObject mo bucket key (Some rng) w) (\<lambda>(obj, st). Inr obj))"

definition list_entry :: "mobj \<Rightarrow> ListEntry" where
  "list_entry obj = \<lparr>le_Key = mb_Key obj, le_Size = mb_Size obj, le_LastModified = mb_LastModified obj,
     le_ETag = mb_ETag obj,
     le_IsDir = (mb_Size obj = 0 \<and> mb_Key obj \<noteq> [] \<and> last (mb_Key obj) = CHR ''/'')\<rparr>"

fun list_loop :: "mobj result list \<Rightarrow> ListEntry list \<Rightarrow> ListEntry list result" where
  "list_loop [] entries = Inr entries"
| "list_loop (Inl e # objs) entries = Inl e"
| "list_loop (Inr obj # objs) entries = list_loop objs (entries @ [list_entry obj])"

definition client_ListObjects :: "'w minio \<Rightarrow> string \<Rightarrow> string \<Rightarrow> 'w \<Rightarrow> ListEntry list result" where
  "client_ListObjects mo bucket pfx w = list_loop (mo_ListObjects mo bucket pfx w) []"

definition client_PutObject ::
  "'w minio \<Rightarrow> string \<Rightarrow> string \<Rightarrow> bytes \<Rightarrow> int \<Rightarrow> meta \<Rightarrow> 'w \<Rightarrow> err option \<times> 'w" where
  "client_PutObject mo bucket key data sz metadata w = mo_PutObject mo bucket key data sz metadata w"

definition client_DeleteObject :: "'w minio \<Rightarrow> string \<Rightarrow> string \<Rightarrow> 'w \<Rightarrow> err option \<times> 'w" where
  "client_DeleteObject mo bucket key w = mo_RemoveObject mo bucket key w"

definition client_CopyObject :: "'w minio \<Rightarrow> string \<Rightarrow> string \<Rightarrow> string \<Rightarrow> 'w \<Rightarrow> err option \<times> 'w" where
  "client_CopyObject mo bucket srcKey dstKey w = mo_CopyObject mo bucket dstKey None srcKey w"

definition client_CopyObjectWithMetadata :: "'w minio \<Rightarrow> string \<Rightarrow> string \<Rightarrow> meta \<Rightarrow> 'w \<Rightarrow> err option \<times> 'w" where
  "client_CopyObjectWithMetadata mo bucket key metadata w = mo_CopyObject mo bucket key (Some metadata) key w"

definition client_CreateDirMarker :: "'w minio \<Rightarrow> string \<Rightarrow> string \<Rightarrow> 'w \<Rightarrow> err option \<times> 'w" where
  "client_CreateDirMarker mo bucket key w = mo_PutObject mo bucket key [] 0 Map.empty w"

definition client_BucketExists :: "'w minio \<Rightarrow> string \<Rightarrow> 'w \<Rightarrow> bool result" where
  "client_BucketExists mo bucket w = mo_BucketExists mo bucket w"

text \<open>\<open>*Client\<close> as a value of the interface.\<close>

definition Client :: "'w minio \<Rightarrow> string \<Rightarrow> 'w S3API" where
  "Client mo bucket = \<lparr>
     HeadObject = client_HeadObject mo bucket,
     GetObject = client_GetObject mo bucket,
     GetObjectRange = client_GetObjectRange mo bucket,
     ListObjects = client_ListObjects mo bucket,
     PutObject = client_PutObject mo bucket,
     DeleteObject = client_DeleteObject mo bucket,
     CopyObject = client_CopyObject mo bucket,
     CopyObjectWithMetadata = client_CopyObjectWithMetadata mo bucket,
     CreateDirMarker = client_CreateDirMarker mo bucket\<rparr>"

subsection \<open>Connecting\<close>

definition ValidateConnection :: "'w minio \<Rightarrow> string \<Rightarrow> S3Backend \<Rightarrow> 'w \<Rightarrow> err option" where
  "ValidateConnection mo bucket backend w =
     (case mo_BucketExists mo bucket w of
        Inl e \<Rightarrow> Some (wrapConnectionError e backend)
      | Inr False \<Rightarrow> Some (Errorf (''bucket '' @ quoted bucket @ '' does not exist on '' @ backend_name backend @ '' backend''))
      | Inr True \<Rightarrow> None)"

record ClientConfig =
  cl_Endpoint :: string
  cl_AccessKey :: string
  cl_SecretKey :: string
  cl_Bucket :: string
  cl_Region :: string
  cl_UseSSL :: bool
  cl_PathStyle :: bool
  cl_SignatureVersion :: string

datatype credentials = StaticV2 string string | StaticV4 string string
datatype bucketLookup = BucketLookupAuto | BucketLookupPath

record minio_options =
  op_Creds :: credentials
  op_Secure :: bool
  op_Region :: string
  op_BucketLookup :: bucketLookup

definition client_options :: "ClientConfig \<Rightarrow> minio_options" where
  "client_options cfg = \<lparr>
     op_Creds = (if cl_SignatureVersion cfg = ''v2'' then StaticV2 (cl_AccessKey cfg) (cl_SecretKey cfg)
                 else StaticV4 (cl_AccessKey cfg) (cl_SecretKey cfg)),
     op_Secure = cl_UseSSL cfg,
     op_Region = cl_Region cfg,
     op_BucketLookup = (if cl_PathStyle cfg then BucketLookupPath else BucketLookupAuto)\<rparr>"

text \<open>The fields of a \<open>*Client\<close>: the minio-go client and the bucket.\<close>

type_synonym 'w client = "'w minio \<times> string"

definition NewClient ::
  "(string \<Rightarrow> minio_options \<Rightarrow> 'w minio result) \<Rightarrow> ClientConfig \<Rightarrow> 'w \<Rightarrow> 'w client result" where
  "NewClient minio_New cfg w =
     (case minio_New (cl_Endpoint cfg) (client_options cfg) of
        Inl e \<Rightarrow> Inl (Wrap ''create minio client'' e)
      | Inr mc \<Rightarrow>
          case ValidateConnection mc (cl_Bucket cfg) (DetectBackend (cl_Endpoint cfg)) w of
            Some e \<Rightarrow> Inl e
          | None \<Rightarrow> Inr (mc, cl_Bucket cfg))"

subsection \<open>What a store promises\<close>

record s3obj =
  so_data :: bytes
  so_mtime :: time
  so_etag :: string
  so_ctype :: string
  so_meta :: meta

type_synonym objects = "s3obj strmap"

definition obj_info :: "string \<Rightarrow> s3obj \<Rightarrow> ObjectInfo" where
  "obj_info k obj = \<lparr>oi_Key = k, oi_Size = int (length (so_data obj)), oi_LastModified = so_mtime obj,
     oi_ETag = so_etag obj, oi_ContentType = so_ctype obj, oi_IsDir = False, oi_UserMetadata = so_meta obj\<rparr>"

text \<open>A write either happened or did not; when it reports success it happened.\<close>

definition outcome :: "err option \<Rightarrow> 'm \<Rightarrow> 'm \<Rightarrow> 'm \<Rightarrow> bool" where
  "outcome r before after m \<longleftrightarrow> (m = before \<or> m = after) \<and> (r = None \<longrightarrow> m = after)"

text \<open>
  A listing with delimiter \<open>/\<close>: the objects directly below the prefix, and one entry for each
  deeper first component.
\<close>

definition directly_below :: "string \<Rightarrow> string \<Rightarrow> bool" where
  "directly_below p k \<longleftrightarrow> HasPrefix k p \<and> CHR ''/'' \<notin> set (drop (length p) k)"

definition common_prefix :: "string \<Rightarrow> string \<Rightarrow> string" where
  "common_prefix p k = p @ takeWhile (\<lambda>c. c \<noteq> CHR ''/'') (drop (length p) k) @ ''/''"

definition listed_keys :: "string \<Rightarrow> objects \<Rightarrow> string set" where
  "listed_keys p m = {k. m k \<noteq> None \<and> directly_below p k} \<union>
     common_prefix p ` {k. m k \<noteq> None \<and> HasPrefix k p \<and> CHR ''/'' \<in> set (drop (length p) k)}"

definition listing_ok :: "string \<Rightarrow> objects \<Rightarrow> ListEntry list \<Rightarrow> bool" where
  "listing_ok p m es \<longleftrightarrow> le_Key ` set es = listed_keys p m \<and> distinct (map le_Key es) \<and>
     (\<forall>e\<in>set es. le_IsDir e \<longrightarrow> HasSuffix (le_Key e) ''/'') \<and> (\<forall>e\<in>set es. if directly_below p (le_Key e) \<and> m (le_Key e) \<noteq> None
        then \<exists>obj. m (le_Key e) = Some obj \<and> le_Size e = int (length (so_data obj)) \<and> le_LastModified e = so_mtime obj
        else le_IsDir e)"

text \<open>The content of a range reader: all of the range, or a part of it and an error.\<close>

definition range_reader :: "bytes option \<Rightarrow> int \<Rightarrow> int \<Rightarrow> reader \<Rightarrow> bool" where
  "range_reader content off len rd \<longleftrightarrow>
     (case content of
        None \<Rightarrow> rd_err rd \<noteq> None
      | Some d \<Rightarrow> let part = take (nat len) (drop (nat off) d)
                  in prefix (rd_data rd) part \<and> (rd_err rd = None \<longrightarrow> rd_data rd = part))"

definition s3_ok :: "'w S3API \<Rightarrow> ('w \<Rightarrow> objects) \<Rightarrow> bool" where
  "s3_ok api objs \<longleftrightarrow>
     (\<forall>k w i. HeadObject api k w = Inr i \<longrightarrow> (\<exists>obj. objs w k = Some obj \<and> i = obj_info k obj)) \<and>
     (\<forall>k w rd i. GetObject api k w = Inr (rd, i) \<longrightarrow>
        (\<exists>obj. objs w k = Some obj \<and> i = obj_info k obj \<and> prefix (rd_data rd) (so_data obj) \<and>
               (rd_err rd = None \<longrightarrow> rd_data rd = so_data obj))) \<and>
     (\<forall>k off len w rd. 0 \<le> off \<longrightarrow> 0 < len \<longrightarrow> GetObjectRange api k off len w = Inr rd \<longrightarrow>
        range_reader (map_option so_data (objs w k)) off len rd) \<and>
     (\<forall>p w es. ListObjects api p w = Inr es \<longrightarrow> listing_ok p (objs w) es) \<and>
     (\<forall>k d m w. \<exists>obj. so_data obj = d \<and> so_meta obj = m \<and>
        (let (r, w') = PutObject api k d (int (length d)) m w
         in outcome r (objs w) ((objs w)(k \<mapsto> obj)) (objs w'))) \<and>
     (\<forall>k w. let (r, w') = DeleteObject api k w in outcome r (objs w) ((objs w)(k := None)) (objs w')) \<and>
     (\<forall>src dst w. let (r, w') = CopyObject api src dst w
        in case objs w src of
             None \<Rightarrow> r \<noteq> None \<and> objs w' = objs w
           | Some obj \<Rightarrow> \<exists>obj'. so_data obj' = so_data obj \<and> so_meta obj' = so_meta obj \<and>
                        outcome r (objs w) ((objs w)(dst \<mapsto> obj')) (objs w')) \<and>
     (\<forall>k m w. let (r, w') = CopyObjectWithMetadata api k m w
        in case objs w k of
             None \<Rightarrow> r \<noteq> None \<and> objs w' = objs w
           | Some obj \<Rightarrow> \<exists>obj'. so_data obj' = so_data obj \<and> so_meta obj' = m \<and>
                        outcome r (objs w) ((objs w)(k \<mapsto> obj')) (objs w')) \<and>
     (\<forall>k w. \<exists>obj. so_data obj = [] \<and> so_meta obj = Map.empty \<and>
        (let (r, w') = CreateDirMarker api k w in outcome r (objs w) ((objs w)(k \<mapsto> obj)) (objs w')))"

text \<open>A store whose reads answer: an object that exists is found and read in full.\<close>

definition s3_reads :: "'w S3API \<Rightarrow> ('w \<Rightarrow> objects) \<Rightarrow> bool" where
  "s3_reads api objs \<longleftrightarrow>
     (\<forall>k w obj. objs w k = Some obj \<longrightarrow>
        HeadObject api k w = Inr (obj_info k obj) \<and>
        GetObject api k w = Inr (\<lparr>rd_data = so_data obj, rd_err = None\<rparr>, obj_info k obj) \<and>
        (\<forall>off len. 0 \<le> off \<longrightarrow> 0 < len \<longrightarrow> GetObjectRange api k off len w =
           Inr \<lparr>rd_data = take (nat len) (drop (nat off) (so_data obj)), rd_err = None\<rparr>)) \<and>
     (\<forall>p w. is_ok (ListObjects api p w))"

text \<open>The same promises for minio-go, per bucket.\<close>

definition mobj_of :: "string \<Rightarrow> s3obj \<Rightarrow> mobj" where
  "mobj_of k obj = \<lparr>mb_Key = k, mb_Size = int (length (so_data obj)), mb_LastModified = so_mtime obj,
     mb_ETag = so_etag obj, mb_ContentType = so_ctype obj, mb_UserMetadata = so_meta obj\<rparr>"

definition mlisting_ok :: "string \<Rightarrow> objects \<Rightarrow> mobj list \<Rightarrow> bool" where
  "mlisting_ok p m es \<longleftrightarrow> mb_Key ` set es = listed_keys p m \<and> distinct (map mb_Key es) \<and>
     (\<forall>e\<in>set es. if directly_below p (mb_Key e) \<and> m (mb_Key e) \<noteq> None
        then \<exists>obj. m (mb_Key e) = Some obj \<and> mb_Size e = int (length (so_data obj)) \<and> mb_LastModified e = so_mtime obj
        else mb_Size e = 0)"

definition minio_ok :: "'w minio \<Rightarrow> ('w \<Rightarrow> string \<Rightarrow> objects) \<Rightarrow> bool" where
  "minio_ok mo objs \<longleftrightarrow>
     (\<forall>b k w i. mo_StatObject mo b k w = Inr i \<longrightarrow> (\<exists>obj. objs w b k = Some obj \<and> i = mobj_of k obj)) \<and>
     (\<forall>s e. 0 \<le> s \<longrightarrow> s \<le> e \<longrightarrow> mo_SetRange mo s e = Inr (s, e)) \<and>
     (\<forall>b k w rd st. mo_GetObject mo b k None w = Inr (rd, st) \<longrightarrow>
        (\<forall>i. st = Inr i \<longrightarrow> (\<exists>obj. objs w b k = Some obj \<and> i = mobj_of k obj \<and> prefix (rd_data rd) (so_data obj) \<and>
               (rd_err rd = None \<longrightarrow> rd_data rd = so_data obj)))) \<and>
     (\<forall>b k s e w rd st. 0 \<le> s \<longrightarrow> s \<le> e \<longrightarrow> mo_GetObject mo b k (Some (s, e)) w = Inr (rd, st) \<longrightarrow>
        range_reader (map_option so_data (objs w b k)) s (e - s + 1) rd) \<and>
     (\<forall>b p w es. mo_ListObjects mo b p w = map Inr es \<longrightarrow> mlisting_ok p (objs w b) es) \<and>
     (\<forall>b k d m w. \<exists>obj. so_data obj = d \<and> so_meta obj = m \<and>
        (let (r, w') = mo_PutObject mo b k d (int (length d)) m w
         in outcome r (objs w b) ((objs w b)(k \<mapsto> obj)) (objs w' b))) \<and>
     (\<forall>b k w. let (r, w') = mo_RemoveObject mo b k w in outcome r (objs w b) ((objs w b)(k := None)) (objs w' b)) \<and>
     (\<forall>b dst m src w. let (r, w') = mo_CopyObject mo b dst m src w
        in case objs w b src of
             None \<Rightarrow> r \<noteq> None \<and> objs w' b = objs w b
           | Some obj \<Rightarrow> \<exists>obj'. so_data obj' = so_data obj \<and>
                        so_meta obj' = (case m of None \<Rightarrow> so_meta obj | Some m' \<Rightarrow> m') \<and>
                        outcome r (objs w b) ((objs w b)(dst \<mapsto> obj')) (objs w' b))"

subsection \<open>The client keeps the promises\<close>

lemma list_loop_Inr:
  "list_loop xs acc = Inr es \<Longrightarrow> \<exists>os. xs = map Inr os \<and> es = acc @ map list_entry os"
proof (induction xs acc rule: list_loop.induct)
  case (3 obj objs entries)
  then obtain os where "objs = map Inr os" "es = (entries @ [list_entry obj]) @ map list_entry os" by auto
  then show ?case by (intro exI [of _ "obj # os"]) simp
qed simp_all

lemma listed_not_direct:
  assumes "k \<in> listed_keys p m" and "\<not> (directly_below p k \<and> m k \<noteq> None)"
  shows "k \<noteq> [] \<and> last k = CHR ''/''"
  using assms by (auto simp: listed_keys_def common_prefix_def)

lemma mlisting_listing:
  assumes "mlisting_ok p m os"
  shows "listing_ok p m (map list_entry os)"
proof -
  have k: "le_Key (list_entry x) = mb_Key x" for x by (simp add: list_entry_def)
  have "if directly_below p (mb_Key x) \<and> m (mb_Key x) \<noteq> None
      then \<exists>obj. m (mb_Key x) = Some obj \<and> le_Size (list_entry x) = int (length (so_data obj)) \<and>
                 le_LastModified (list_entry x) = so_mtime obj
      else le_IsDir (list_entry x)" if "x \<in> set os" for x
  proof -
    have "mb_Key x \<in> listed_keys p m" using assms that by (auto simp: mlisting_ok_def)
    with listed_not_direct [of "mb_Key x" p m] bspec [OF assms [unfolded mlisting_ok_def, THEN conjunct2, THEN conjunct2] that]
    show ?thesis by (simp add: list_entry_def split: if_splits)
  qed
  moreover have "le_IsDir (list_entry x) \<Longrightarrow> HasSuffix (mb_Key x) ''/''" for x by (simp add: list_entry_def HasSuffix_byte)
  ultimately show ?thesis
    using assms by (simp add: listing_ok_def mlisting_ok_def k image_image comp_def)
qed

text \<open>The single promises of \<open>minio_ok\<close>.\<close>

lemma minio_okD:
  assumes "minio_ok mo objs"
  shows "mo_StatObject mo b k w = Inr i \<Longrightarrow> \<exists>obj. objs w b k = Some obj \<and> i = mobj_of k obj"
    and "0 \<le> s \<Longrightarrow> s \<le> e \<Longrightarrow> mo_SetRange mo s e = Inr (s, e)"
    and "mo_GetObject mo b k None w = Inr (rd, Inr i) \<Longrightarrow> \<exists>obj. objs w b k = Some obj \<and> i = mobj_of k obj \<and>
           prefix (rd_data rd) (so_data obj) \<and> (rd_err rd = None \<longrightarrow> rd_data rd = so_data obj)"
    and "0 \<le> s \<Longrightarrow> s \<le> e \<Longrightarrow> mo_GetObject mo b k (Some (s, e)) w = Inr (rd, st) \<Longrightarrow>
           range_reader (map_option so_data (objs w b k)) s (e - s + 1) rd"
    and "mo_ListObjects mo b p w = map Inr es \<Longrightarrow> mlisting_ok p (objs w b) es"
    and "\<exists>obj. so_data obj = d \<and> so_meta obj = m \<and> (let (r, w') = mo_PutObject mo b k d (int (length d)) m w
         in outcome r (objs w b) ((objs w b)(k \<mapsto> obj)) (objs w' b))"
    and "let (r, w') = mo_RemoveObject mo b k w in outcome r (objs w b) ((objs w b)(k := None)) (objs w' b)"
    and "let (r, w') = mo_CopyObject mo b dst om src w
        in case objs w b src of
             None \<Rightarrow> r \<noteq> None \<and> objs w' b = objs w b
           | Some obj \<Rightarrow> \<exists>obj'. so_data obj' = so_data obj \<and>
                        so_meta obj' = (case om of None \<Rightarrow> so_meta obj | Some m' \<Rightarrow> m') \<and>
                        outcome r (objs w b) ((objs w b)(dst \<mapsto> obj')) (objs w' b)"
proof -
  note law = assms [unfolded minio_ok_def]
  note law2 = law [THEN conjunct2]
  note law3 = law2 [THEN conjunct2]
  note law4 = law3 [THEN conjunct2]
  note law5 = law4 [THEN conjunct2]
  note law6 = law5 [THEN conjunct2]
  note law7 = law6 [THEN conjunct2]
  show "mo_StatObject mo b k w = Inr i \<Longrightarrow> \<exists>obj. objs w b k = Some obj \<and> i = mobj_of k obj"
    using law [THEN conjunct1] by blast
  show "0 \<le> s \<Longrightarrow> s \<le> e \<Longrightarrow> mo_SetRange mo s e = Inr (s, e)"
    using law2 [THEN conjunct1] by blast
  show "mo_GetObject mo b k None w = Inr (rd, Inr i) \<Longrightarrow> \<exists>obj. objs w b k = Some obj \<and> i = mobj_of k obj \<and>
           prefix (rd_data rd) (so_data obj) \<and> (rd_err rd = None \<longrightarrow> rd_data rd = so_data obj)"
    using law3 [THEN conjunct1] by blast
  show "0 \<le> s \<Longrightarrow> s \<le> e \<Longrightarrow> mo_GetObject mo b k (Some (s, e)) w = Inr (rd, st) \<Longrightarrow>
           range_reader (map_option so_data (objs w b k)) s (e - s + 1) rd"
    using law4 [THEN conjunct1] by blast
  show "mo_ListObjects mo b p w = map Inr es \<Longrightarrow> mlisting_ok p (objs w b) es"
    using law5 [THEN conjunct1] by blast
  show "\<exists>obj. so_data obj = d \<and> so_meta obj = m \<and> (let (r, w') = mo_PutObject mo b k d (int (length d)) m w
         in outcome r (objs w b) ((objs w b)(k \<mapsto> obj)) (objs w' b))"
    using law6 [THEN conjunct1, rule_format] .
  show "let (r, w') = mo_RemoveObject mo b k w in outcome r (objs w b) ((objs w b)(k := None)) (objs w' b)"
    using law7 [THEN conjunct1, rule_format] .
  show "let (r, w') = mo_CopyObject mo b dst om src w
        in case objs w b src of
             None \<Rightarrow> r \<noteq> None \<and> objs w' b = objs w b
           | Some obj \<Rightarrow> \<exists>obj'. so_data obj' = so_data obj \<and>
                        so_meta obj' = (case om of None \<Rightarrow> so_meta obj | Some m' \<Rightarrow> m') \<and>
                        outcome r (objs w b) ((objs w b)(dst \<mapsto> obj')) (objs w' b)"
    using law7 [THEN conjunct2, rule_format] .
qed

lemma object_info_of [simp]: "object_info (mobj_of k obj) = obj_info k obj"
  by (simp add: object_info_def mobj_of_def obj_info_def)

lemma client_ok:
  assumes "minio_ok mo objs"
  shows "s3_ok (Client mo b) (\<lambda>w. objs w b)"
  unfolding s3_ok_def
proof (intro conjI allI impI, goal_cases)
  case (1 k w i)
  then show ?case
    using minio_okD(1) [OF assms, of b k w] by (auto simp: Client_def client_HeadObject_def)
next
  case (2 k w rd i)
  then show ?case
    using minio_okD(3) [OF assms, of b k w rd] by (auto simp: Client_def client_GetObject_def)
next
  case (3 k off len w rd)
  have r: "0 \<le> off" "off \<le> off + len - 1" using 3 by simp_all
  then obtain st where g: "mo_GetObject mo b k (Some (off, off + len - 1)) w = Inr (rd, st)"
    using 3(3) minio_okD(2) [OF assms r] by (auto simp: Client_def client_GetObjectRange_def)
  from minio_okD(4) [OF assms r g] show ?case by simp
next
  case (4 p w es)
  then obtain os where "mo_ListObjects mo b p w = map Inr os" "es = map list_entry os"
    using list_loop_Inr [of "mo_ListObjects mo b p w" "[]" es] by (auto simp: Client_def client_ListObjects_def)
  with minio_okD(5) [OF assms] show ?case by (auto intro: mlisting_listing)
next
  case (5 k d m w)
  show ?case using minio_okD(6) [OF assms, of d m b k w] by (simp add: Client_def client_PutObject_def)
next
  case (6 k w)
  show ?case using minio_okD(7) [OF assms, of b k w] by (simp add: Client_def client_DeleteObject_def)
next
  case (7 src dst w)
  show ?case using minio_okD(8) [OF assms, of b dst None src w]
    by (auto simp: Client_def client_CopyObject_def split: prod.splits option.splits)
next
  case (8 k m w)
  show ?case using minio_okD(8) [OF assms, of b k "Some m" k w]
    by (auto simp: Client_def client_CopyObjectWithMetadata_def split: prod.splits option.splits)
next
  case (9 k w)
  show ?case using minio_okD(6) [OF assms, of "[]" Map.empty b k w] by (simp add: Client_def client_CreateDirMarker_def)
qed

subsection \<open>The interface of the filesystem\<close>

lemma outcomeD:
  assumes "outcome r m (m(k := ov)) m'"
  shows "k' \<noteq> k \<Longrightarrow> m' k' = m k'" and "r = None \<Longrightarrow> m' = m(k := ov)" and "m' k = m k \<or> m' k = ov"
  using assms by (auto simp: outcome_def)

lemma s3_okD:
  assumes "s3_ok api objs"
  shows "HeadObject api k w = Inr i \<Longrightarrow> \<exists>obj. objs w k = Some obj \<and> i = obj_info k obj"
    and "GetObject api k w = Inr (rd, i) \<Longrightarrow> \<exists>obj. objs w k = Some obj \<and> i = obj_info k obj \<and>
           prefix (rd_data rd) (so_data obj) \<and> (rd_err rd = None \<longrightarrow> rd_data rd = so_data obj)"
    and "0 \<le> off \<Longrightarrow> 0 < len \<Longrightarrow> GetObjectRange api k off len w = Inr rd \<Longrightarrow>
           range_reader (map_option so_data (objs w k)) off len rd"
    and "ListObjects api p w = Inr es \<Longrightarrow> listing_ok p (objs w) es"
    and "PutObject api k d (int (length d)) m w = (r, w') \<Longrightarrow>
           \<exists>obj. so_data obj = d \<and> so_meta obj = m \<and> outcome r (objs w) ((objs w)(k \<mapsto> obj)) (objs w')"
    and "DeleteObject api k w = (r, w') \<Longrightarrow> outcome r (objs w) ((objs w)(k := None)) (objs w')"
    and "CopyObject api src dst w = (r, w') \<Longrightarrow>
           (case objs w src of None \<Rightarrow> r \<noteq> None \<and> objs w' = objs w
            | Some obj \<Rightarrow> \<exists>obj'. so_data obj' = so_data obj \<and> so_meta obj' = so_meta obj \<and>
                         outcome r (objs w) ((objs w)(dst \<mapsto> obj')) (objs w'))"
    and "CopyObjectWithMetadata api k m w = (r, w') \<Longrightarrow>
           (case objs w k of None \<Rightarrow> r \<noteq> None \<and> objs w' = objs w
            | Some obj \<Rightarrow> \<exists>obj'. so_data obj' = so_data obj \<and> so_meta obj' = m \<and>
                         outcome r (objs w) ((objs w)(k \<mapsto> obj')) (objs w'))"
    and "CreateDirMarker api k w = (r, w') \<Longrightarrow>
           \<exists>obj. so_data obj = [] \<and> so_meta obj = Map.empty \<and> outcome r (objs w) ((objs w)(k \<mapsto> obj)) (objs w')"
proof -
  note law = assms [unfolded s3_ok_def]
  note law2 = law [THEN conjunct2]
  note law3 = law2 [THEN conjunct2]
  note law4 = law3 [THEN conjunct2]
  note law5 = law4 [THEN conjunct2]
  note law6 = law5 [THEN conjunct2]
  note law7 = law6 [THEN conjunct2]
  note law8 = law7 [THEN conjunct2]
  show "HeadObject api k w = Inr i \<Longrightarrow> \<exists>obj. objs w k = Some obj \<and> i = obj_info k obj"
    using law [THEN conjunct1] by blast
  show "GetObject api k w = Inr (rd, i) \<Longrightarrow> \<exists>obj. objs w k = Some obj \<and> i = obj_info k obj \<and>
           prefix (rd_data rd) (so_data obj) \<and> (rd_err rd = None \<longrightarrow> rd_data rd = so_data obj)"
    using law2 [THEN conjunct1] by blast
  show "0 \<le> off \<Longrightarrow> 0 < len \<Longrightarrow> GetObjectRange api k off len w = Inr rd \<Longrightarrow>
           range_reader (map_option so_data (objs w k)) off len rd"
    using law3 [THEN conjunct1] by blast
  show "ListObjects api p w = Inr es \<Longrightarrow> listing_ok p (objs w) es"
    using law4 [THEN conjunct1] by blast
  show "PutObject api k d (int (length d)) m w = (r, w') \<Longrightarrow>
           \<exists>obj. so_data obj = d \<and> so_meta obj = m \<and> outcome r (objs w) ((objs w)(k \<mapsto> obj)) (objs w')"
    using law5 [THEN conjunct1, rule_format, of d m k w] by simp
  show "DeleteObject api k w = (r, w') \<Longrightarrow> outcome r (objs w) ((objs w)(k := None)) (objs w')"
    using law6 [THEN conjunct1, rule_format, of k w] by simp
  show "CopyObject api src dst w = (r, w') \<Longrightarrow>
           (case objs w src of None \<Rightarrow> r \<noteq> None \<and> objs w' = objs w
            | Some obj \<Rightarrow> \<exists>obj'. so_data obj' = so_data obj \<and> so_meta obj' = so_meta obj \<and>
                         outcome r (objs w) ((objs w)(dst \<mapsto> obj')) (objs w'))"
    using law7 [THEN conjunct1, rule_format, of src dst w] by simp
  show "CopyObjectWithMetadata api k m w = (r, w') \<Longrightarrow>
           (case objs w k of None \<Rightarrow> r \<noteq> None \<and> objs w' = objs w
            | Some obj \<Rightarrow> \<exists>obj'. so_data obj' = so_data obj \<and> so_meta obj' = m \<and>
                         outcome r (objs w) ((objs w)(k \<mapsto> obj')) (objs w'))"
    using law8 [THEN conjunct1, rule_format, of k m w] by simp
  show "CreateDirMarker api k w = (r, w') \<Longrightarrow>
           \<exists>obj. so_data obj = [] \<and> so_meta obj = Map.empty \<and> outcome r (objs w) ((objs w)(k \<mapsto> obj)) (objs w')"
    using law8 [THEN conjunct2, rule_format, of k w] by simp
qed

locale object_store =
  fixes api :: "'w S3API" and objs :: "'w \<Rightarrow> objects" and inv :: "'w \<Rightarrow> bool"
  assumes head: "inv w \<Longrightarrow> HeadObject api k w = Inr i \<Longrightarrow> \<exists>obj. objs w k = Some obj \<and> i = obj_info k obj"
    and put: "inv w \<Longrightarrow> PutObject api k d (int (length d)) m w = (r, w') \<Longrightarrow>
           inv w' \<and> (\<exists>obj. so_data obj = d \<and> so_meta obj = m \<and> outcome r (objs w) ((objs w)(k \<mapsto> obj)) (objs w'))"
    and delete: "inv w \<Longrightarrow> DeleteObject api k w = (r, w') \<Longrightarrow>
           inv w' \<and> outcome r (objs w) ((objs w)(k := None)) (objs w')"
    and copy: "inv w \<Longrightarrow> objs w src = Some obj \<Longrightarrow> CopyObject api src dst w = (r, w') \<Longrightarrow>
           inv w' \<and> (\<exists>obj'. so_data obj' = so_data obj \<and> so_meta obj' = so_meta obj \<and>
                        outcome r (objs w) ((objs w)(dst \<mapsto> obj')) (objs w'))"
begin

text \<open>A write of one key leaves every other key alone, whether or not it succeeds.\<close>

lemma put_frame:
  assumes "inv w" and "PutObject api k d (int (length d)) m w = (r, w')" and "k' \<noteq> k"
  shows "objs w' k' = objs w k'"
  using put [OF assms(1,2)] assms(3) by (auto simp: outcome_def)

lemma put_ok:
  assumes "inv w" and "PutObject api k d (int (length d)) m w = (None, w')"
  obtains obj where "objs w' = (objs w)(k \<mapsto> obj)" and "so_data obj = d" and "so_meta obj = m"
  using put [OF assms] by (auto simp: outcome_def)

lemma delete_frame:
  assumes "inv w" and "DeleteObject api k w = (r, w')" and "k' \<noteq> k"
  shows "objs w' k' = objs w k'"
  using delete [OF assms(1,2)] assms(3) by (auto simp: outcome_def)

text \<open>
  Copy, then delete the source: at every point of failure the content is under one of the two
  keys, and when both report success it has moved.
\<close>

lemma move_no_loss:
  assumes "inv w" and "objs w src = Some obj" and "src \<noteq> dst"
    and "CopyObject api src dst w = (r1, w1)" and "DeleteObject api src w1 = (r2, w2)"
  shows "objs w1 src = Some obj"
    and "r1 = None \<Longrightarrow> \<exists>obj'. objs w2 dst = Some obj' \<and> so_data obj' = so_data obj \<and> so_meta obj' = so_meta obj"
    and "r1 = None \<Longrightarrow> r2 = None \<Longrightarrow> objs w2 src = None"
    and "k \<noteq> src \<Longrightarrow> k \<noteq> dst \<Longrightarrow> objs w2 k = objs w k"
proof -
  obtain obj' where o: "so_data obj' = so_data obj" "so_meta obj' = so_meta obj"
    "outcome r1 (objs w) ((objs w)(dst \<mapsto> obj')) (objs w1)" and i: "inv w1"
    using copy [OF assms(1,2,4)] by auto
  note d = delete [OF i assms(5), THEN conjunct2]
  show "objs w1 src = Some obj" using outcomeD(1) [OF o(3) assms(3)] assms(2) by simp
  show "r1 = None \<Longrightarrow> \<exists>obj'. objs w2 dst = Some obj' \<and> so_data obj' = so_data obj \<and> so_meta obj' = so_meta obj"
    using outcomeD(2) [OF o(3)] outcomeD(1) [OF d, of dst] assms(3) o(1,2) by auto
  show "r1 = None \<Longrightarrow> r2 = None \<Longrightarrow> objs w2 src = None"
    using outcomeD(2) [OF d] by simp
  show "k \<noteq> src \<Longrightarrow> k \<noteq> dst \<Longrightarrow> objs w2 k = objs w k"
    using outcomeD(1) [OF o(3), of k] outcomeD(1) [OF d, of k] by simp
qed

end

interpretation store: object_store api objs "\<lambda>_. s3_ok api objs" for api objs
  by unfold_locales (auto dest: s3_okD(1,5,6) s3_okD(7) split: option.splits)

interpretation client: object_store "Client mo b" "\<lambda>w. objs w b" "\<lambda>_. minio_ok mo objs" for mo b objs
  by unfold_locales (auto dest: client_ok [of _ _ b] s3_okD(1,5,6) [OF client_ok] s3_okD(7) [OF client_ok])

subsection \<open>A store in memory\<close>

text \<open>
  The smallest store with the documented behaviour, an association list of objects; it shows
  that \<open>minio_ok\<close>, \<open>s3_ok\<close> and \<open>s3_reads\<close> can hold.
\<close>

type_synonym memstore = "(string \<times> s3obj) list"

definition mem_set :: "string \<Rightarrow> s3obj \<Rightarrow> memstore \<Rightarrow> memstore" where
  "mem_set k obj w = (k, obj) # filter (\<lambda>(k', _). k' \<noteq> k) w"

definition mem_del :: "string \<Rightarrow> memstore \<Rightarrow> memstore" where
  "mem_del k w = filter (\<lambda>(k', _). k' \<noteq> k) w"

definition memstore_keys :: "string \<Rightarrow> memstore \<Rightarrow> string list" where
  "memstore_keys p w =
     remdups (map (\<lambda>k. if CHR ''/'' \<in> set (drop (length p) k) then common_prefix p k else k)
       (filter (\<lambda>k. HasPrefix k p) (map fst w)))"

definition mem_entry :: "string \<Rightarrow> memstore \<Rightarrow> string \<Rightarrow> mobj" where
  "mem_entry p w k =
     (case map_of w k of
        Some obj \<Rightarrow> if directly_below p k then mobj_of k obj else (mobj_of k obj)\<lparr>mb_Size := 0\<rparr>
      | None \<Rightarrow> \<lparr>mb_Key = k, mb_Size = 0, mb_LastModified = 0, mb_ETag = [], mb_ContentType = [], mb_UserMetadata = Map.empty\<rparr>)"

definition mem_obj :: "bytes \<Rightarrow> meta \<Rightarrow> s3obj" where
  "mem_obj d m = \<lparr>so_data = d, so_mtime = 0, so_etag = d, so_ctype = [], so_meta = m\<rparr>"

definition mem_minio :: "memstore minio" where
  "mem_minio = \<lparr>
     mo_StatObject = (\<lambda>b k w. case map_of w k of None \<Rightarrow> Inl ErrNotExist | Some obj \<Rightarrow> Inr (mobj_of k obj)),
     mo_SetRange = (\<lambda>s e. if 0 \<le> s \<and> s \<le> e then Inr (s, e) else Inl ErrInvalid),
     mo_GetObject = (\<lambda>b k r w. case map_of w k of
        None \<Rightarrow> Inr (\<lparr>rd_data = [], rd_err = Some ErrNotExist\<rparr>, Inl ErrNotExist)
      | Some obj \<Rightarrow> Inr (\<lparr>rd_data = (case r of None \<Rightarrow> so_data obj
                              | Some (s, e) \<Rightarrow> take (nat (e - s + 1)) (drop (nat s) (so_data obj))), rd_err = None\<rparr>,
                     Inr (mobj_of k obj))),
     mo_ListObjects = (\<lambda>b p w. map (\<lambda>k. Inr (mem_entry p w k)) (memstore_keys p w)),
     mo_PutObject = (\<lambda>b k d n m w. (None, mem_set k (mem_obj d m) w)),
     mo_RemoveObject = (\<lambda>b k w. (None, mem_del k w)),
     mo_CopyObject = (\<lambda>b dst m src w. case map_of w src of
        None \<Rightarrow> (Some ErrNotExist, w)
      | Some obj \<Rightarrow> (None, mem_set dst (case m of None \<Rightarrow> obj | Some m' \<Rightarrow> obj\<lparr>so_meta := m'\<rparr>) w)),
     mo_BucketExists = (\<lambda>b w. Inr True)\<rparr>"

lemma map_of_other_keys: "map_of (filter (\<lambda>(k', _). k' \<noteq> k) w) = (map_of w)(k := None)"
  by (induction w) auto

lemma map_of_mem [simp]:
  "map_of (mem_set k obj w) = (map_of w)(k \<mapsto> obj)" "map_of (mem_del k w) = (map_of w)(k := None)"
  by (simp_all add: mem_set_def mem_del_def map_of_other_keys)

lemma mem_keys_listed: "set (memstore_keys p w) = listed_keys p (map_of w)"
  by (auto simp: memstore_keys_def listed_keys_def directly_below_def map_of_eq_None_iff image_iff)

lemma mem_entry_key [simp]: "mb_Key (mem_entry p w k) = k"
  by (simp add: mem_entry_def mobj_of_def split: option.split)

lemma mem_listing: "mlisting_ok p (map_of w) (map (mem_entry p w) (memstore_keys p w))"
proof -
  have "distinct (memstore_keys p w)" by (simp add: memstore_keys_def)
  then have d: "distinct (map mb_Key (map (mem_entry p w) (memstore_keys p w)))" by (simp add: comp_def)
  have s: "mb_Key ` set (map (mem_entry p w) (memstore_keys p w)) = listed_keys p (map_of w)"
    by (simp add: image_image mem_keys_listed)
  have "if directly_below p k \<and> map_of w k \<noteq> None
        then \<exists>obj. map_of w k = Some obj \<and> mb_Size (mem_entry p w k) = int (length (so_data obj)) \<and>
               mb_LastModified (mem_entry p w k) = so_mtime obj
        else mb_Size (mem_entry p w k) = 0" for k
    by (auto simp: mem_entry_def mobj_of_def split: option.split)
  with d s show ?thesis by (simp add: mlisting_ok_def)
qed

lemma mem_minio_ok: "minio_ok mem_minio (\<lambda>w b. map_of w)"
  unfolding minio_ok_def
proof (intro conjI allI impI, goal_cases)
  case (5 b p w es)
  have "map Inr es = map (\<lambda>k. Inr (mem_entry p w k) :: mobj result) (memstore_keys p w)"
    using 5 by (simp add: mem_minio_def)
  also have "\<dots> = map Inr (map (mem_entry p w) (memstore_keys p w))" by simp
  finally have "es = map (mem_entry p w) (memstore_keys p w)" by (metis inj_Inr list.inj_map inj_eq)
  then show ?case by (simp add: mem_listing)
next
  case (6 b k d m w)
  show ?case by (rule exI [of _ "mem_obj d m"]) (simp add: mem_minio_def mem_obj_def outcome_def)
next
  case (8 b dst m src w)
  show ?case
  proof (cases "map_of w src")
    case (Some obj)
    then show ?thesis
      by (auto simp: mem_minio_def outcome_def
          intro: exI [of _ "case m of None \<Rightarrow> obj | Some m' \<Rightarrow> obj\<lparr>so_meta := m'\<rparr>"] split: option.split)
  qed (simp add: mem_minio_def)
qed (auto simp: mem_minio_def range_reader_def outcome_def Let_def split: option.splits)

definition mem_api :: "memstore S3API" where
  "mem_api = Client mem_minio ''bucket''"

lemma mem_api_ok [simp]: "s3_ok mem_api map_of"
  using client_ok [OF mem_minio_ok, of "''bucket''"] by (simp add: mem_api_def)

lemma list_loop_all: "list_loop (map Inr os) acc = Inr (acc @ map list_entry os)"
  by (induction os arbitrary: acc) auto

lemma mem_api_simps [simp]:
  "HeadObject mem_api k w = (case map_of w k of None \<Rightarrow> Inl ErrNotExist | Some obj \<Rightarrow> Inr (obj_info k obj))"
  "PutObject mem_api k d n m w = (None, mem_set k (mem_obj d m) w)"
  "DeleteObject mem_api k w = (None, mem_del k w)"
  "CopyObject mem_api k k' w = (case map_of w k of None \<Rightarrow> (Some ErrNotExist, w) | Some obj \<Rightarrow> (None, mem_set k' obj w))"
  "CopyObjectWithMetadata mem_api k m w =
     (case map_of w k of None \<Rightarrow> (Some ErrNotExist, w) | Some obj \<Rightarrow> (None, mem_set k (obj\<lparr>so_meta := m\<rparr>) w))"
  "CreateDirMarker mem_api k w = (None, mem_set k (mem_obj [] Map.empty) w)"
  "ListObjects mem_api p w = Inr (map (list_entry \<circ> mem_entry p w) (memstore_keys p w))"
  using list_loop_all [of "map (mem_entry p w) (memstore_keys p w)" "[]"]
  by (simp_all add: mem_api_def Client_def client_HeadObject_def client_PutObject_def client_DeleteObject_def
      client_CopyObject_def client_CopyObjectWithMetadata_def client_CreateDirMarker_def client_ListObjects_def
      mem_minio_def comp_def split: option.split)

lemma mem_api_reads [simp]: "s3_reads mem_api map_of"
  by (auto simp: s3_reads_def)
     (auto simp: mem_api_def Client_def client_GetObject_def client_GetObjectRange_def mem_minio_def)

text \<open>
  C26. The client implements the store the filesystem is written against: whenever minio-go
  behaves as documented, every method of \<open>*Client\<close> has the behaviour \<open>S3API\<close> promises, for
  reads, ranges, listings and writes that may fail.
\<close>
theorem client_implements_store:
  assumes "minio_ok mo objs"
  shows "s3_ok (Client mo bucket) (\<lambda>w. objs w bucket)"
  using assms by (rule client_ok)

theorem client_implements_store_witness:
  "s3_ok (Client mem_minio ''bucket'') map_of \<and> HeadObject (Client mem_minio ''bucket'') ''k'' [(''k'', mem_obj ''v'' Map.empty)]
     = Inr (obj_info ''k'' (mem_obj ''v'' Map.empty))"
  using client_implements_store [OF mem_minio_ok, of "''bucket''"]
  by (simp add: Client_def client_HeadObject_def mem_minio_def)

end
