(* ===== verification/Attrs.thy ===== *)
theory Attrs
  imports MetaCache S3Store
begin

unbundle bit_operations_syntax

text \<open>
  POSIX attributes of S3 objects: \<^verbatim>\<open>internal/s3fs/attrs.go\<close>, the symlink markers of
  \<^verbatim>\<open>internal/s3fs/symlink.go\<close>, and the conversions between \<open>fileInfo\<close> and cache entries of
  \<^verbatim>\<open>internal/s3fs/cache_integration.go\<close>. A mode is Go's \<open>os.FileMode\<close>, a 32-bit word; in S3
  metadata its permission bits are an octal number.
\<close>

subsection \<open>Constants\<close>

definition DefaultUID :: int where "DefaultUID = 1000"
definition DefaultGID :: int where "DefaultGID = 1000"
definition DefaultFileMode :: uint32 where "DefaultFileMode = 420"   \<comment> \<open>octal 644\<close>
definition DefaultDirMode :: uint32 where "DefaultDirMode = 493"     \<comment> \<open>octal 755\<close>

definition MetaKeyUID :: string where "MetaKeyUID = ''Uid''"
definition MetaKeyGID :: string where "MetaKeyGID = ''Gid''"
definition MetaKeyMode :: string where "MetaKeyMode = ''Mode''"
definition MetaKeySymlinkTarget :: string where "MetaKeySymlinkTarget = ''Symlink-Target''"

text \<open>\<open>os.ModeDir\<close> and \<open>FileMode.Perm\<close>.\<close>

definition ModeDir :: uint32 where "ModeDir = push_bit 31 1"
definition Perm :: "uint32 \<Rightarrow> uint32" where "Perm m = m AND 511"

subsection \<open>File information\<close>

record fileInfo =
  fi_name :: string
  fi_size :: int
  fi_mode :: uint32
  fi_modTime :: time
  fi_isDir :: bool
  fi_inode :: uint64
  fi_numLinks :: int
  fi_etag :: string

definition parseMode :: "meta \<Rightarrow> bool \<Rightarrow> uint32" where
  "parseMode meta isDir =
     (let fallback = (if isDir then ModeDir OR DefaultDirMode else DefaultFileMode)
      in case meta MetaKeyMode of
           None \<Rightarrow> fallback
         | Some v \<Rightarrow>
             (case ParseUint v 8 32 of
                Inl e \<Rightarrow> fallback
              | Inr m \<Rightarrow> let mode = word_of_nat m in if isDir then mode OR ModeDir else mode))"

definition posixMetadata :: "int \<Rightarrow> int \<Rightarrow> uint32 \<Rightarrow> meta" where
  "posixMetadata uid gid mode =
     [MetaKeyUID \<mapsto> Itoa uid, MetaKeyGID \<mapsto> Itoa gid, MetaKeyMode \<mapsto> FormatUint (unat (Perm mode)) 8]"

definition newFileInfoFromS3 ::
  "string \<Rightarrow> int \<Rightarrow> time \<Rightarrow> bool \<Rightarrow> uint64 \<Rightarrow> meta \<Rightarrow> fileInfo" where
  "newFileInfoFromS3 name sz lastModified isDir inode userMeta =
     \<lparr>fi_name = name, fi_size = sz, fi_mode = parseMode userMeta isDir, fi_modTime = lastModified,
      fi_isDir = isDir, fi_inode = inode, fi_numLinks = (if isDir then 2 else 1), fi_etag = []\<rparr>"

definition newFileInfoFromS3WithETag ::
  "string \<Rightarrow> int \<Rightarrow> time \<Rightarrow> bool \<Rightarrow> uint64 \<Rightarrow> meta \<Rightarrow> string \<Rightarrow> fileInfo" where
  "newFileInfoFromS3WithETag name sz lastModified isDir inode userMeta etag =
     (newFileInfoFromS3 name sz lastModified isDir inode userMeta)\<lparr>fi_etag := etag\<rparr>"

definition newDirInfo :: "time \<Rightarrow> string \<Rightarrow> uint64 \<Rightarrow> fileInfo" where
  "newDirInfo now name inode =
     \<lparr>fi_name = name, fi_size = 0, fi_mode = ModeDir OR DefaultDirMode, fi_modTime = now,
      fi_isDir = True, fi_inode = inode, fi_numLinks = 2, fi_etag = []\<rparr>"

subsection \<open>Symbolic links\<close>

definition isSymlink :: "meta \<Rightarrow> bool" where
  "isSymlink meta = (meta MetaKeySymlinkTarget \<noteq> None)"

text \<open>Indexing a missing key gives the empty string.\<close>

definition symlinkTarget :: "meta \<Rightarrow> string" where
  "symlinkTarget meta = (case meta MetaKeySymlinkTarget of None \<Rightarrow> [] | Some t \<Rightarrow> t)"

subsection \<open>Cache entries\<close>

text \<open>The entry \<open>cachePut\<close> and \<open>Readdir\<close> build from a \<open>fileInfo\<close>.\<close>

definition infoToCacheEntry :: "string \<Rightarrow> fileInfo \<Rightarrow> CacheEntry" where
  "infoToCacheEntry s3Key info = CacheEntry_zero\<lparr>
     ce_S3Key := s3Key, ce_Size := fi_size info, ce_ModTime := fi_modTime info, ce_Mode := fi_mode info,
     ce_IsDir := fi_isDir info, ce_Inode := fi_inode info\<rparr>"

definition dirListingToCacheEntries :: "time \<Rightarrow> fileInfo list \<Rightarrow> CacheEntry list" where
  "dirListingToCacheEntries now infos =
     map (\<lambda>fi. CacheEntry_zero\<lparr>ce_Size := fi_size fi, ce_ModTime := fi_modTime fi, ce_Mode := fi_mode fi,
        ce_IsDir := fi_isDir fi, ce_Inode := fi_inode fi, ce_CachedAt := now\<rparr>) infos"

definition cacheEntryToFileInfo :: "CacheEntry \<Rightarrow> string \<Rightarrow> uint64 \<Rightarrow> fileInfo" where
  "cacheEntryToFileInfo entry name inode =
     \<lparr>fi_name = name, fi_size = ce_Size entry,
      fi_mode = (if ce_Mode entry = 0 then if ce_IsDir entry then ModeDir OR DefaultDirMode else DefaultFileMode
                 else ce_Mode entry),
      fi_modTime = ce_ModTime entry, fi_isDir = ce_IsDir entry, fi_inode = inode,
      fi_numLinks = (if ce_IsDir entry then 2 else 1), fi_etag = []\<rparr>"

subsection \<open>Round trips\<close>

lemma ParseUint_FormatUint:
  assumes "2 \<le> b" and "b \<le> 10" and "n < 2 ^ bits"
  shows "ParseUint (FormatUint n b) b bits = Inr n"
  using assms by (simp add: ParseUint_def FormatUint_def parse_digits_base)

text \<open>The octal text of a mode is a codec for it.\<close>

interpretation octal_mode: codec "\<lambda>m :: uint32. FormatUint (unat m) 8"
  "\<lambda>s. case ParseUint s 8 32 of Inl _ \<Rightarrow> None | Inr n \<Rightarrow> Some (word_of_nat n)" "\<lambda>_. True"
proof (unfold_locales, goal_cases)
  case (1 x)
  have "unat x < 2 ^ 32" using unsigned_less [of x] by simp
  then show ?case by (simp add: ParseUint_FormatUint)
qed

lemma parse_stored_mode: "ParseUint (FormatUint (unat (m :: uint32)) 8) 8 32 = Inr (unat m)"
  by (rule ParseUint_FormatUint) (use unsigned_less [of m] in simp_all)

lemma parseMode_stored:
  assumes "meta MetaKeyMode = Some (FormatUint (unat m) 8)"
  shows "parseMode meta isDir = (if isDir then m OR ModeDir else m)"
  by (simp add: parseMode_def assms parse_stored_mode Let_def)

lemma parseMode_missing:
  "meta MetaKeyMode = None \<Longrightarrow> parseMode meta isDir = (if isDir then ModeDir OR DefaultDirMode else DefaultFileMode)"
  by (simp add: parseMode_def)

lemma meta_keys_distinct [simp]:
  "MetaKeyUID \<noteq> MetaKeyMode" "MetaKeyGID \<noteq> MetaKeyMode" "MetaKeyUID \<noteq> MetaKeyGID"
  "MetaKeyMode \<noteq> MetaKeyUID" "MetaKeyMode \<noteq> MetaKeyGID" "MetaKeyGID \<noteq> MetaKeyUID"
  "MetaKeySymlinkTarget \<noteq> MetaKeyMode" "MetaKeySymlinkTarget \<noteq> MetaKeyUID" "MetaKeySymlinkTarget \<noteq> MetaKeyGID"
  "MetaKeyMode \<noteq> MetaKeySymlinkTarget" "MetaKeyUID \<noteq> MetaKeySymlinkTarget" "MetaKeyGID \<noteq> MetaKeySymlinkTarget"
  by (simp_all add: MetaKeyUID_def MetaKeyGID_def MetaKeyMode_def MetaKeySymlinkTarget_def)

lemma Perm_less: "unat (Perm m) < 512"
proof -
  have "Perm m = take_bit 9 m" by (simp add: Perm_def take_bit_eq_mask mask_eq_exp_minus_1)
  then have "unat (Perm m) = take_bit 9 (unat m)" by (simp add: unsigned_take_bit_eq)
  then show ?thesis by (simp add: take_bit_eq_mod)
qed

lemma Perm_default [simp]: "Perm DefaultFileMode = DefaultFileMode"
  by (simp add: Perm_def DefaultFileMode_def)

lemma parseMode_posixMetadata [simp]:
  "parseMode (posixMetadata uid gid mode) isDir = (if isDir then Perm mode OR ModeDir else Perm mode)"
  by (rule parseMode_stored) (simp add: posixMetadata_def)

text \<open>
  Permission bits survive the way through S3 metadata: the mode that \<open>parseMode\<close> reads
  back from the headers \<open>posixMetadata\<close> writes is the permission part of the mode, with the
  directory bit added for directories.
\<close>
theorem mode_metadata_roundtrip:
  "parseMode (posixMetadata uid gid mode) isDir = (if isDir then Perm mode OR ModeDir else Perm mode) \<and>
   unat (Perm mode) < 512"
  by (simp add: Perm_less)


end
