(* ===== verification/FsState.thy ===== *)
theory FsState
  imports HandleStore DataCache Attrs
begin

text \<open>
  The state of the filesystem (\<open>S3FS\<close> of \<^verbatim>\<open>internal/s3fs/filesystem.go\<close>) and its access to
  the caches and the handle store (\<^verbatim>\<open>internal/s3fs/cache_integration.go\<close>).

  The state is the remote bucket, the handle store and the two optional caches. What the code
  gets from outside is a record \<open>fsenv\<close>: the store interface, the database, the clock, the
  outcomes of the data cache's system calls and the order in which maps are ranged over. A
  handler runs with one reading of the clock and without interference by other handlers.
\<close>

subsection \<open>State\<close>

record ('w, 'db) S3FS =
  fs_world :: 'w
  fs_handles :: "'db HandleStore"
  fs_cache :: "MetadataCache option"
  fs_dataCache :: "DataCache option"

record ('w, 'db) fsenv =
  fe_s3 :: "'w S3API"
  fe_bolt :: "'db bolt"
  fe_now :: time
  fe_os :: osenv
  fe_rng :: rangeorder

definition NewS3FS ::
  "'w \<Rightarrow> 'db HandleStore \<Rightarrow> MetadataCache option \<Rightarrow> DataCache option \<Rightarrow> ('w, 'db) S3FS" where
  "NewS3FS w handles mc dc = \<lparr>fs_world = w, fs_handles = handles, fs_cache = mc, fs_dataCache = dc\<rparr>"

subsection \<open>Handles\<close>

definition fs_inode :: "('w, 'db) fsenv \<Rightarrow> string \<Rightarrow> ('w, 'db) S3FS \<Rightarrow> uint64 result \<times> ('w, 'db) S3FS" where
  "fs_inode env k fs =
     (let (r, hs) = GetOrCreateInode (fe_bolt env) (fs_handles fs) k in (r, fs\<lparr>fs_handles := hs\<rparr>))"

definition fs_removeKey :: "('w, 'db) fsenv \<Rightarrow> string \<Rightarrow> ('w, 'db) S3FS \<Rightarrow> ('w, 'db) S3FS" where
  "fs_removeKey env k fs = fs\<lparr>fs_handles := snd (RemoveByKey (fe_bolt env) (fs_handles fs) k)\<rparr>"

definition fs_renameKey :: "('w, 'db) fsenv \<Rightarrow> string \<Rightarrow> string \<Rightarrow> ('w, 'db) S3FS \<Rightarrow> ('w, 'db) S3FS" where
  "fs_renameKey env k k' fs = fs\<lparr>fs_handles := snd (RenameKey (fe_bolt env) (fs_handles fs) k k')\<rparr>"

definition GetFileId :: "fileInfo \<Rightarrow> uint64" where
  "GetFileId fi = fi_inode fi"

definition GetHandle :: "fileInfo \<Rightarrow> bytes result" where
  "GetHandle fi = (if GetFileId fi = 0 then Inl ErrNotExist else Inr (InodeToHandle (GetFileId fi)))"

definition GetRootHandle :: bytes where
  "GetRootHandle = RootHandle"

definition ResolveHandle :: "bytes \<Rightarrow> ('w, 'db) S3FS \<Rightarrow> string result" where
  "ResolveHandle h fs =
     res_bind (HandleToInode h) (\<lambda>inode.
       case GetKey (fs_handles fs) inode of
         None \<Rightarrow> Inl ErrNotExist
       | Some key \<Rightarrow> if key = [] then Inr ''/'' else Inr (''/'' @ TrimSuffix key ''/''))"

subsection \<open>Metadata cache\<close>

definition cache_op :: "(MetadataCache \<Rightarrow> MetadataCache) \<Rightarrow> ('w, 'db) S3FS \<Rightarrow> ('w, 'db) S3FS" where
  "cache_op f fs = (case fs_cache fs of None \<Rightarrow> fs | Some mc \<Rightarrow> fs\<lparr>fs_cache := Some (f mc)\<rparr>)"

text \<open>
  The two results \<open>(*fileInfo, bool)\<close> of \<open>cacheGet\<close>: a miss is \<^term>\<open>None\<close>, a negative hit
  \<^term>\<open>Some None\<close>.
\<close>

definition cacheGet ::
  "('w, 'db) fsenv \<Rightarrow> string \<Rightarrow> ('w, 'db) S3FS \<Rightarrow> fileInfo option option \<times> ('w, 'db) S3FS" where
  "cacheGet env s3Key fs =
     (case fs_cache fs of
        None \<Rightarrow> (None, fs)
      | Some mc \<Rightarrow>
          let (r, mc') = GetEntry (fe_now env) s3Key mc; fs1 = fs\<lparr>fs_cache := Some mc'\<rparr>
          in case r of
               None \<Rightarrow> (None, fs1)
             | Some entry \<Rightarrow>
                 if IsNegative entry then (Some None, fs1)
                 else case fs_inode env s3Key fs1 of
                        (Inl e, fs2) \<Rightarrow> (None, fs2)
                      | (Inr inode, fs2) \<Rightarrow>
                          (Some (Some \<lparr>fi_name = nameFromS3Key s3Key, fi_size = ce_Size entry, fi_mode = ce_Mode entry,
                             fi_modTime = ce_ModTime entry, fi_isDir = ce_IsDir entry, fi_inode = inode,
                             fi_numLinks = (if ce_IsDir entry then 2 else 1), fi_etag = []\<rparr>), fs2))"

definition cachePut :: "('w, 'db) fsenv \<Rightarrow> string \<Rightarrow> fileInfo \<Rightarrow> ('w, 'db) S3FS \<Rightarrow> ('w, 'db) S3FS" where
  "cachePut env s3Key info = cache_op (PutEntry (fe_now env) s3Key (infoToCacheEntry s3Key info))"

definition cachePutNegative :: "('w, 'db) fsenv \<Rightarrow> string \<Rightarrow> ('w, 'db) S3FS \<Rightarrow> ('w, 'db) S3FS" where
  "cachePutNegative env s3Key = cache_op (PutNegative (fe_now env) s3Key)"

definition cacheInvalidate :: "string \<Rightarrow> ('w, 'db) S3FS \<Rightarrow> ('w, 'db) S3FS" where
  "cacheInvalidate s3Key = cache_op (mc_Invalidate s3Key)"

definition cacheInvalidateParent :: "string \<Rightarrow> ('w, 'db) S3FS \<Rightarrow> ('w, 'db) S3FS" where
  "cacheInvalidateParent s3Key = cache_op (mc_Invalidate (parentPrefix s3Key))"

definition cacheGetDirListing :: "('w, 'db) fsenv \<Rightarrow> string \<Rightarrow> ('w, 'db) S3FS \<Rightarrow> CacheEntry list option" where
  "cacheGetDirListing env pfx fs =
     (case fs_cache fs of None \<Rightarrow> None | Some mc \<Rightarrow> GetDirListing (fe_now env) pfx mc)"

definition cachePutDirListing ::
  "('w, 'db) fsenv \<Rightarrow> string \<Rightarrow> CacheEntry list \<Rightarrow> ('w, 'db) S3FS \<Rightarrow> ('w, 'db) S3FS" where
  "cachePutDirListing env pfx entries = cache_op (PutDirListing (fe_now env) pfx entries)"

subsection \<open>Data cache\<close>

text \<open>\<open>Invalidate\<close> panics when it meets a malformed name, which the invariant of the cache excludes.\<close>

definition dataCacheInvalidate ::
  "('w, 'db) fsenv \<Rightarrow> string \<Rightarrow> ('w, 'db) S3FS \<Rightarrow> err option \<times> ('w, 'db) S3FS" where
  "dataCacheInvalidate env s3Key fs =
     (case fs_dataCache fs of
        None \<Rightarrow> (None, fs)
      | Some dc \<Rightarrow> (case dc_Invalidate (fe_os env) (fe_rng env) s3Key dc of
                     Inl e \<Rightarrow> (Some e, fs)
                   | Inr dc' \<Rightarrow> (None, fs\<lparr>fs_dataCache := Some dc'\<rparr>)))"

subsection \<open>Invariant\<close>

definition fs_inv :: "('w, 'db) fsenv \<Rightarrow> ('w, 'db) S3FS \<Rightarrow> bool" where
  "fs_inv env fs \<longleftrightarrow> bolt_ok (fe_bolt env) \<and> range_ok (fe_rng env) \<and> hs_inv (fe_bolt env) (fs_handles fs) \<and>
     (\<forall>mc. fs_cache fs = Some mc \<longrightarrow> mc_inv mc) \<and>
     (\<forall>dc. fs_dataCache fs = Some dc \<longrightarrow> dc_inv dc \<and> dc_bounded dc)"

text \<open>The entries and listings the metadata cache holds; none without a cache.\<close>

definition fs_entries :: "('w, 'db) S3FS \<Rightarrow> string \<Rightarrow> CacheEntry option" where
  "fs_entries fs = (case fs_cache fs of None \<Rightarrow> Map.empty | Some mc \<Rightarrow> mc_view mc)"

definition fs_listings :: "('w, 'db) S3FS \<Rightarrow> string \<Rightarrow> dirListingEntry option" where
  "fs_listings fs = (case fs_cache fs of None \<Rightarrow> Map.empty | Some mc \<Rightarrow> mc_dirListings mc)"

definition fs_keys :: "('w, 'db) S3FS \<Rightarrow> uint64 \<Rightarrow> string option" where
  "fs_keys fs = hs_inodeToKey (fs_handles fs)"

lemma fs_invD:
  assumes "fs_inv env fs"
  shows "bolt_ok (fe_bolt env)" "range_ok (fe_rng env)" "hs_inv (fe_bolt env) (fs_handles fs)"
    "fs_cache fs = Some mc \<Longrightarrow> mc_inv mc" "fs_dataCache fs = Some dc \<Longrightarrow> dc_inv dc" "fs_dataCache fs = Some dc \<Longrightarrow> dc_bounded dc"
  using assms by (simp_all add: fs_inv_def)

text \<open>The invariant does not speak about the bucket.\<close>

lemma fs_inv_world [simp]: "fs_inv env (fs\<lparr>fs_world := w\<rparr>) = fs_inv env fs"
  by (simp add: fs_inv_def)

lemma fs_view_world [simp]:
  "fs_entries (fs\<lparr>fs_world := w\<rparr>) = fs_entries fs" "fs_listings (fs\<lparr>fs_world := w\<rparr>) = fs_listings fs"
  "fs_keys (fs\<lparr>fs_world := w\<rparr>) = fs_keys fs"
  by (simp_all add: fs_entries_def fs_listings_def fs_keys_def)

lemma fs_inv_handles: "fs_inv env fs \<Longrightarrow> hs_inv (fe_bolt env) hs \<Longrightarrow> fs_inv env (fs\<lparr>fs_handles := hs\<rparr>)"
  by (simp add: fs_inv_def)

lemma fs_view_handles [simp]:
  "fs_entries (fs\<lparr>fs_handles := hs\<rparr>) = fs_entries fs" "fs_listings (fs\<lparr>fs_handles := hs\<rparr>) = fs_listings fs"
  by (simp_all add: fs_entries_def fs_listings_def)

subsection \<open>Effect of the cache operations\<close>

lemma cache_op_frame [simp]:
  "fs_world (cache_op f fs) = fs_world fs" "fs_handles (cache_op f fs) = fs_handles fs"
  "fs_dataCache (cache_op f fs) = fs_dataCache fs" "fs_keys (cache_op f fs) = fs_keys fs"
  by (simp_all add: cache_op_def fs_keys_def split: option.split)

lemma mc_steps:
  "mc_step rng (McPut now k e) = PutEntry now k e" "mc_step rng (McPutNegative now k) = PutNegative now k"
  "mc_step rng (McInvalidate k) = mc_Invalidate k" "mc_step rng (McPutDir now k es) = PutDirListing now k es"
  by (simp_all add: fun_eq_iff)

lemma cache_ops:
  "cachePut env k info = cache_op (mc_step (fe_rng env) (McPut (fe_now env) k (infoToCacheEntry k info)))"
  "cachePutNegative env k = cache_op (mc_step (fe_rng env) (McPutNegative (fe_now env) k))"
  "cacheInvalidate k = cache_op (mc_step (fe_rng env) (McInvalidate k))"
  "cacheInvalidateParent k = cache_op (mc_step (fe_rng env) (McInvalidate (parentPrefix k)))"
  "cachePutDirListing env k es = cache_op (mc_step (fe_rng env) (McPutDir (fe_now env) k es))"
  by (simp_all add: cachePut_def cachePutNegative_def cacheInvalidate_def cacheInvalidateParent_def cachePutDirListing_def mc_steps)

lemma cache_frame [simp]:
  "fs_world (cachePut env k info fs) = fs_world fs" "fs_handles (cachePut env k info fs) = fs_handles fs"
  "fs_dataCache (cachePut env k info fs) = fs_dataCache fs" "fs_keys (cachePut env k info fs) = fs_keys fs"
  "fs_world (cachePutNegative env k fs) = fs_world fs" "fs_handles (cachePutNegative env k fs) = fs_handles fs"
  "fs_dataCache (cachePutNegative env k fs) = fs_dataCache fs" "fs_keys (cachePutNegative env k fs) = fs_keys fs"
  "fs_world (cacheInvalidate k fs) = fs_world fs" "fs_handles (cacheInvalidate k fs) = fs_handles fs"
  "fs_dataCache (cacheInvalidate k fs) = fs_dataCache fs" "fs_keys (cacheInvalidate k fs) = fs_keys fs"
  "fs_world (cacheInvalidateParent k fs) = fs_world fs" "fs_handles (cacheInvalidateParent k fs) = fs_handles fs"
  "fs_dataCache (cacheInvalidateParent k fs) = fs_dataCache fs" "fs_keys (cacheInvalidateParent k fs) = fs_keys fs"
  "fs_world (cachePutDirListing env k es fs) = fs_world fs" "fs_handles (cachePutDirListing env k es fs) = fs_handles fs"
  "fs_dataCache (cachePutDirListing env k es fs) = fs_dataCache fs" "fs_keys (cachePutDirListing env k es fs) = fs_keys fs"
  by (simp_all add: cachePut_def cachePutNegative_def cacheInvalidate_def cacheInvalidateParent_def cachePutDirListing_def)

text \<open>For the content of the metadata cache its own invariant is enough.\<close>

definition cache_wf :: "('w, 'db) fsenv \<Rightarrow> ('w, 'db) S3FS \<Rightarrow> bool" where
  "cache_wf env fs \<longleftrightarrow> range_ok (fe_rng env) \<and> (\<forall>mc. fs_cache fs = Some mc \<longrightarrow> mc_inv mc)"

lemma fs_inv_cache_wf: "fs_inv env fs \<Longrightarrow> cache_wf env fs"
  by (simp add: fs_inv_def cache_wf_def)

lemma cache_wf_cong: "cache_wf env fs \<Longrightarrow> fs_cache fs' = fs_cache fs \<Longrightarrow> cache_wf env fs'"
  by (simp add: cache_wf_def)

lemma cache_op_step:
  assumes "cache_wf env fs"
  shows "cache_wf env (cache_op (mc_step (fe_rng env) x) fs)"
    and "fs_entries (cache_op (mc_step (fe_rng env) x) fs) \<subseteq>\<^sub>m map_apply (entry_effect x) (fs_entries fs)"
    and "fs_listings (cache_op (mc_step (fe_rng env) x) fs) \<subseteq>\<^sub>m map_apply (listing_effect x) (fs_listings fs)"
proof -
  have r: "range_ok (fe_rng env)" "fs_cache fs = Some mc \<Longrightarrow> mc_inv mc" for mc using assms by (simp_all add: cache_wf_def)
  show "cache_wf env (cache_op (mc_step (fe_rng env) x) fs)"
    using mc_step_ok(1) r by (auto simp: cache_wf_def cache_op_def split: option.split)
  show "fs_entries (cache_op (mc_step (fe_rng env) x) fs) \<subseteq>\<^sub>m map_apply (entry_effect x) (fs_entries fs)"
    using mc_entry_step [OF r(2) r(1), of _ x]
    by (auto simp: cache_op_def fs_entries_def split: option.split)
  show "fs_listings (cache_op (mc_step (fe_rng env) x) fs) \<subseteq>\<^sub>m map_apply (listing_effect x) (fs_listings fs)"
    using mc_listing_step [OF r(2) r(1), of _ x]
    by (auto simp: cache_op_def fs_listings_def split: option.split)
qed

lemma cache_wf_ops [inv_intros]:
  assumes "cache_wf env fs"
  shows "cache_wf env (cachePut env k info fs)" "cache_wf env (cachePutNegative env k fs)" "cache_wf env (cacheInvalidate k fs)"
    "cache_wf env (cacheInvalidateParent k fs)" "cache_wf env (cachePutDirListing env k es fs)"
  by (simp_all only: cache_ops [where env = env] cache_op_step(1) [OF assms])

lemma cache_op_inv: "fs_inv env fs \<Longrightarrow> cache_wf env (cache_op f fs) \<Longrightarrow> fs_inv env (cache_op f fs)"
  by (auto simp: fs_inv_def cache_wf_def cache_op_def split: option.splits)

lemma cache_inv [inv_intros]:
  assumes "fs_inv env fs"
  shows "fs_inv env (cachePut env k info fs)" "fs_inv env (cachePutNegative env k fs)" "fs_inv env (cacheInvalidate k fs)"
    "fs_inv env (cacheInvalidateParent k fs)" "fs_inv env (cachePutDirListing env k es fs)"
  using cache_op_inv [OF assms cache_op_step(1) [OF fs_inv_cache_wf [OF assms]]]
  by (simp_all only: cache_ops [where env = env])

lemma cache_entries:
  assumes "cache_wf env fs"
  shows "fs_entries (cachePut env k info fs) \<subseteq>\<^sub>m (fs_entries fs)(k \<mapsto> stamped (fe_now env) (infoToCacheEntry k info))"
    "fs_entries (cachePutNegative env k fs) \<subseteq>\<^sub>m (fs_entries fs)(k \<mapsto> negative_entry (fe_now env) k)"
    "fs_entries (cacheInvalidate k fs) \<subseteq>\<^sub>m (fs_entries fs)(k := None)"
    "fs_entries (cacheInvalidateParent k fs) \<subseteq>\<^sub>m (fs_entries fs)(parentPrefix k := None)"
    "fs_entries (cachePutDirListing env k es fs) \<subseteq>\<^sub>m fs_entries fs"
  using cache_op_step(2) [OF assms, of "McPut (fe_now env) k (infoToCacheEntry k info)"]
    cache_op_step(2) [OF assms, of "McPutNegative (fe_now env) k"]
    cache_op_step(2) [OF assms, of "McInvalidate k"] cache_op_step(2) [OF assms, of "McInvalidate (parentPrefix k)"]
    cache_op_step(2) [OF assms, of "McPutDir (fe_now env) k es"]
  by (simp_all only: cache_ops [where env = env] entry_effect.simps map_apply.simps fun_upd_def)

lemma map_le_NoneD: "m \<subseteq>\<^sub>m m' \<Longrightarrow> m' k = None \<Longrightarrow> m k = None"
  by (cases "m k") (auto dest: map_leD)

lemma cacheInvalidateParent_le: "cache_wf env fs \<Longrightarrow> fs_entries (cacheInvalidateParent k fs) \<subseteq>\<^sub>m fs_entries fs"
  by (rule map_le_trans [OF cache_entries(4) upd_None_map_le])

subsection \<open>Effect of the handle operations\<close>

lemma fs_inode_frame:
  assumes "fs_inode env k fs = (r, fs')"
  shows "fs_world fs' = fs_world fs" "fs_cache fs' = fs_cache fs" "fs_dataCache fs' = fs_dataCache fs"
    "fs_entries fs' = fs_entries fs" "fs_listings fs' = fs_listings fs"
  using assms by (auto simp: fs_inode_def split: prod.splits)

lemma fs_inode_ok:
  assumes "fs_inv env fs" and "boltable k" and "fs_inode env k fs = (r, fs')"
  shows "fs_inv env fs'" and "fs_keys fs i = Some k' \<Longrightarrow> fs_keys fs' i = Some k'"
    and "r = Inr j \<Longrightarrow> fs_keys fs' j = Some k \<and> j \<noteq> 0 \<and> hs_keyToInode (fs_handles fs') k = Some j"
proof -
  obtain hs where g: "GetOrCreateInode (fe_bolt env) (fs_handles fs) k = (r, hs)" "fs' = fs\<lparr>fs_handles := hs\<rparr>"
    using assms(3) by (auto simp: fs_inode_def split: prod.splits)
  note inv = fs_invD(1,3) [OF assms(1)]
  show "fs_inv env fs'"
    using GetOrCreateInode_inv [OF inv assms(2)] g assms(1) by (simp add: fs_inv_handles)
  show "fs_keys fs i = Some k' \<Longrightarrow> fs_keys fs' i = Some k'"
    using GetOrCreateInode_keep [OF inv assms(2)] g by (auto simp: fs_keys_def GetKey_def)
  show "r = Inr j \<Longrightarrow> fs_keys fs' j = Some k \<and> j \<noteq> 0 \<and> hs_keyToInode (fs_handles fs') k = Some j"
    using GetOrCreateInode_key [OF inv assms(2)] g by (auto simp: fs_keys_def GetKey_def)
qed

lemma fs_handle_ops_frame [simp]:
  "fs_world (fs_removeKey env k fs) = fs_world fs" "fs_entries (fs_removeKey env k fs) = fs_entries fs"
  "fs_listings (fs_removeKey env k fs) = fs_listings fs" "fs_cache (fs_removeKey env k fs) = fs_cache fs"
  "fs_dataCache (fs_removeKey env k fs) = fs_dataCache fs"
  "fs_world (fs_renameKey env k k' fs) = fs_world fs" "fs_entries (fs_renameKey env k k' fs) = fs_entries fs"
  "fs_listings (fs_renameKey env k k' fs) = fs_listings fs" "fs_cache (fs_renameKey env k k' fs) = fs_cache fs"
  "fs_dataCache (fs_renameKey env k k' fs) = fs_dataCache fs"
  by (simp_all add: fs_removeKey_def fs_renameKey_def)

end
