(* ===== verification/ChunkReader.thy ===== *)
theory ChunkReader
  imports DataCache S3Store
begin

text \<open>
  The ranged reader of \<^verbatim>\<open>internal/s3fs/reader.go\<close>: a prefetch buffer over \<open>GetObjectRange\<close>
  with adaptive chunk size, and the small-file path through the data cache.

  The buffer is the backing array \<open>cr_arr\<close> of the Go slice (its length is the slice's
  capacity) with the range \<open>cr_bufStart\<close>, \<open>cr_bufLen\<close> the reader believes it holds; the two
  are separate in the code, and a failed fetch changes one without the other. The loop of
  \<open>ReadAt\<close> may run forever, so it takes fuel, and \<open>None\<close> is a call that has not returned;
  \<open>readAt_exact\<close> shows how much fuel a call needs on a store that answers.
\<close>

subsection \<open>Constants and state\<close>

definition chunkSize1MB :: int where "chunkSize1MB = 1048576"
definition chunkSize4MB :: int where "chunkSize4MB = 4194304"
definition chunkSize16MB :: int where "chunkSize16MB = 16777216"
definition seqThreshold1 :: int where "seqThreshold1 = 4"
definition seqThreshold2 :: int where "seqThreshold2 = 12"

record chunkReader =
  cr_s3Key :: string
  cr_size :: int
  cr_offset :: int
  cr_arr :: bytes
  cr_bufStart :: int
  cr_bufLen :: int
  cr_chunkSize :: int
  cr_seqCount :: int
  cr_lastEnd :: int
  cr_etag :: string

definition newChunkReader :: "string \<Rightarrow> int \<Rightarrow> string \<Rightarrow> chunkReader" where
  "newChunkReader key sz etag =
     \<lparr>cr_s3Key = key, cr_size = sz, cr_offset = 0, cr_arr = [], cr_bufStart = 0, cr_bufLen = 0,
      cr_chunkSize = chunkSize1MB, cr_seqCount = 0, cr_lastEnd = -1, cr_etag = etag\<rparr>"

definition adaptChunkSize :: "chunkReader \<Rightarrow> chunkReader" where
  "adaptChunkSize r =
     (if cr_seqCount r \<ge> seqThreshold2 \<and> cr_chunkSize r < chunkSize16MB then r\<lparr>cr_chunkSize := chunkSize16MB\<rparr>
      else if cr_seqCount r \<ge> seqThreshold1 \<and> cr_chunkSize r < chunkSize4MB then r\<lparr>cr_chunkSize := chunkSize4MB\<rparr>
      else r)"

definition SeekTo :: "int \<Rightarrow> chunkReader \<Rightarrow> err option \<times> chunkReader" where
  "SeekTo offset r =
     (if offset < 0 then (Some (Errorf ''negative offset''), r)
      else let r1 = r\<lparr>cr_offset := offset\<rparr>;
               r2 = (if cr_bufLen r1 > 0 \<and> (offset < cr_bufStart r1 \<or> offset \<ge> cr_bufStart r1 + cr_bufLen r1)
                     then r1\<lparr>cr_bufLen := 0\<rparr> else r1)
           in (None, r2\<lparr>cr_seqCount := 0, cr_chunkSize := chunkSize1MB, cr_lastEnd := -1\<rparr>))"

definition cr_Close :: "chunkReader \<Rightarrow> chunkReader" where
  "cr_Close r = r\<lparr>cr_arr := [], cr_bufLen := 0\<rparr>"

subsection \<open>Fetching a chunk\<close>

text \<open>\<open>io.ReadFull\<close> into a buffer of \<open>n\<close> bytes: the bytes read and the error.\<close>

definition ReadFull :: "nat \<Rightarrow> reader \<Rightarrow> bytes \<times> err option" where
  "ReadFull n rd =
     (let d = take n (rd_data rd); e = (case rd_err rd of None \<Rightarrow> EOF | Some e \<Rightarrow> e)
      in if length d \<ge> n then (d, None)
         else if d \<noteq> [] \<and> e = EOF then (d, Some ErrUnexpectedEOF) else (d, Some e))"

text \<open>
  Sizing the buffer (a new zeroed array when the capacity is short) and writing what was read
  to its front.
\<close>

definition fill_buf :: "nat \<Rightarrow> bytes \<Rightarrow> bytes \<Rightarrow> bytes" where
  "fill_buf len arr d =
     d @ drop (length d) (if length arr < len then replicate len (char_of (0::nat)) else arr)"

text \<open>
  What one call sees of its surroundings: the store, the state of the remote bucket, the
  clock, the outcomes of the data cache's system calls (per offset for \<open>Put\<close>) and of reading
  a cached file from some position.
\<close>

record 'w renv =
  re_api :: "'w S3API"
  re_world :: 'w
  re_now :: time
  re_os :: osenv
  re_io :: "int \<Rightarrow> put_io"
  re_read :: "bytes \<Rightarrow> reader"

definition smallFile :: int where "smallFile = 128 * 1024"

definition uses_cache :: "chunkReader \<Rightarrow> DataCache option \<Rightarrow> bool" where
  "uses_cache r dco \<longleftrightarrow> dco \<noteq> None \<and> cr_etag r \<noteq> []"

text \<open>The part of \<open>fetchChunk\<close> that goes to S3.\<close>

definition fetch_s3 ::
  "'w renv \<Rightarrow> int \<Rightarrow> int \<Rightarrow> chunkReader \<times> DataCache option \<Rightarrow> err option \<times> chunkReader \<times> DataCache option" where
  "fetch_s3 env off len = (\<lambda>(r, dco).
     case GetObjectRange (re_api env) (cr_s3Key r) off len (re_world env) of
       Inl e \<Rightarrow> (Some (Wrap (''fetch chunk at '' @ Itoa off) e), r, dco)
     | Inr rc \<Rightarrow>
         let (d, e) = ReadFull (nat len) rc;
             r1 = r\<lparr>cr_arr := fill_buf (nat len) (cr_arr r) d\<rparr>
         in if e \<noteq> None \<and> e \<noteq> Some ErrUnexpectedEOF \<and> e \<noteq> Some EOF
            then (Some (Wrap ''read chunk'' (the e)), r1, dco)
            else let r2 = r1\<lparr>cr_bufStart := off, cr_bufLen := int (length d)\<rparr>
                 in (None, r2,
                     (case dco of
                        Some dc \<Rightarrow>
                          if cr_etag r \<noteq> [] \<and> cr_size r \<le> smallFile
                          then Some (snd (dc_Put (re_os env) (re_io env off) (re_now env) (cr_s3Key r) (cr_etag r) d dc))
                          else Some dc
                      | None \<Rightarrow> None)))"

definition fetchChunk ::
  "'w renv \<Rightarrow> int \<Rightarrow> chunkReader \<times> DataCache option \<Rightarrow> err option \<times> chunkReader \<times> DataCache option" where
  "fetchChunk env off = (\<lambda>(r, dco).
     let len = (if off + cr_chunkSize r > cr_size r then cr_size r - off else cr_chunkSize r)
     in if len \<le> 0 then (Some EOF, r, dco)
        else if uses_cache r dco
        then case dc_Get (re_os env) (re_now env) (cr_s3Key r) (cr_etag r) (the dco) of
               Inl e \<Rightarrow> (Some e, r, dco)
             | Inr (None, dc) \<Rightarrow> fetch_s3 env off len (r, Some dc)
             | Inr (Some f, dc) \<Rightarrow>
                 if off < 0 then fetch_s3 env off len (r, Some dc)
                 else let (d, e) = ReadFull (nat len) (re_read env (drop (nat off) f));
                     r1 = r\<lparr>cr_arr := fill_buf (nat len) (cr_arr r) d\<rparr>
                 in if e = None \<or> e = Some ErrUnexpectedEOF \<or> e = Some EOF
                    then (None, r1\<lparr>cr_bufStart := off, cr_bufLen := int (length d)\<rparr>, Some dc)
                    else fetch_s3 env off len (r1, Some dc)
        else fetch_s3 env off len (r, dco))"

subsection \<open>ReadAt\<close>

definition in_buf :: "int \<Rightarrow> chunkReader \<Rightarrow> bool" where
  "in_buf off r \<longleftrightarrow> cr_bufLen r > 0 \<and> off \<ge> cr_bufStart r \<and> off < cr_bufStart r + cr_bufLen r"

text \<open>
  The loop: \<open>p\<close> is the length of the caller's buffer, \<open>out\<close> the bytes copied so far. It ends
  with an error to return at once, or without one and with the final offset.
\<close>

primrec read_loop ::
  "nat \<Rightarrow> 'w renv \<Rightarrow> nat \<Rightarrow> bytes \<Rightarrow> int \<Rightarrow> chunkReader \<Rightarrow> DataCache option \<Rightarrow>
     (err option \<times> bytes \<times> int \<times> chunkReader \<times> DataCache option) option" where
  "read_loop 0 env p out off r dco =
     (if length out < p \<and> off < cr_size r then None else Some (None, out, off, r, dco))"
| "read_loop (Suc fuel) env p out off r dco =
     (if length out < p \<and> off < cr_size r
      then if in_buf off r
           then let chunk = take (p - length out) (drop (nat (off - cr_bufStart r)) (take (nat (cr_bufLen r)) (cr_arr r)))
                in read_loop fuel env p (out @ chunk) (off + int (length chunk)) r dco
           else case fetchChunk env off (r, dco) of
                  (None, r', dco') \<Rightarrow> read_loop fuel env p out off r' dco'
                | (Some e, r', dco') \<Rightarrow>
                    if out \<noteq> [] then Some (None, out, off, r', dco') else Some (Some e, [], off, r', dco')
      else Some (None, out, off, r, dco))"

declare read_loop.simps [simp del]

definition track :: "int \<Rightarrow> chunkReader \<Rightarrow> chunkReader" where
  "track off r =
     (if off = cr_lastEnd r then adaptChunkSize (r\<lparr>cr_seqCount := cr_seqCount r + 1\<rparr>)
      else r\<lparr>cr_seqCount := 0, cr_chunkSize := chunkSize1MB\<rparr>)"

definition ReadAt ::
  "nat \<Rightarrow> 'w renv \<Rightarrow> nat \<Rightarrow> int \<Rightarrow> chunkReader \<times> DataCache option \<Rightarrow>
     ((bytes \<times> err option) \<times> chunkReader \<times> DataCache option) option" where
  "ReadAt fuel env p off = (\<lambda>(r, dco).
     if off \<ge> cr_size r then Some (([], Some EOF), r, dco)
     else case read_loop fuel env p [] off (track off r) dco of
            None \<Rightarrow> None
          | Some (Some e, out, off', r', dco') \<Rightarrow> Some (([], Some e), r', dco')
          | Some (None, out, off', r', dco') \<Rightarrow>
              let r'' = r'\<lparr>cr_lastEnd := off'\<rparr>
              in if out = [] then Some (([], Some EOF), r'', dco')
                 else Some ((out, if off' \<ge> cr_size r'' then Some EOF else None), r'', dco'))"

subsection \<open>Invariants\<close>

text \<open>A reader whose bytes are \<open>x\<close>, unless it fails with an error other than the two that mean end of file.\<close>

definition reads_as :: "reader \<Rightarrow> bytes \<Rightarrow> bool" where
  "reads_as rd x \<longleftrightarrow> prefix (rd_data rd) x \<and> (rd_err rd = None \<longrightarrow> rd_data rd = x) \<and>
     rd_err rd \<noteq> Some EOF \<and> rd_err rd \<noteq> Some ErrUnexpectedEOF"

text \<open>The surroundings of a reader of an object with content \<open>d\<close> that answer.\<close>

definition env_ok :: "'w renv \<Rightarrow> string \<Rightarrow> bytes \<Rightarrow> bool" where
  "env_ok env key d \<longleftrightarrow>
     (\<forall>off len. 0 \<le> off \<longrightarrow> 0 < len \<longrightarrow> GetObjectRange (re_api env) key off len (re_world env) =
        Inr \<lparr>rd_data = take (nat len) (drop (nat off) d), rd_err = None\<rparr>) \<and>
     (\<forall>x. reads_as (re_read env x) x)"

definition buf_ok :: "bytes \<Rightarrow> chunkReader \<Rightarrow> bool" where
  "buf_ok d r \<longleftrightarrow> cr_size r = int (length d) \<and> chunkSize1MB \<le> cr_chunkSize r \<and> 0 \<le> cr_bufStart r \<and> 0 \<le> cr_bufLen r \<and>
     (cr_bufLen r > 0 \<longrightarrow> cr_bufStart r + cr_bufLen r \<le> cr_size r \<and>
        take (nat (cr_bufLen r)) (cr_arr r) = take (nat (cr_bufLen r)) (drop (nat (cr_bufStart r)) d))"

text \<open>The data cache holds nothing for this version of the object, or its content.\<close>

definition coherent :: "string \<Rightarrow> string \<Rightarrow> bytes \<Rightarrow> DataCache option \<Rightarrow> bool" where
  "coherent key etag d dco \<longleftrightarrow> (case dco of None \<Rightarrow> True
     | Some dc \<Rightarrow> dc_inv dc \<and> dc_bounded dc \<and>
         (etag \<noteq> [] \<longrightarrow> dc_view dc (cacheKey key etag) = None \<or> dc_view dc (cacheKey key etag) = Some d))"

text \<open>
  Reads that fill the cache must start at offset 0: a small file under a data cache is read
  from its start, or the buffer already holds all of it.
\<close>

definition fills_cache :: "chunkReader \<Rightarrow> DataCache option \<Rightarrow> bool" where
  "fills_cache r dco \<longleftrightarrow> uses_cache r dco \<and> cr_size r \<le> smallFile"

definition from_start :: "int \<Rightarrow> chunkReader \<Rightarrow> DataCache option \<Rightarrow> bool" where
  "from_start off r dco \<longleftrightarrow> (fills_cache r dco \<longrightarrow> off = 0 \<and> cr_bufLen r = 0 \<or> cr_bufStart r = 0 \<and> cr_bufLen r = cr_size r)"

lemma dc_Put_any:
  assumes "dc_inv dc" and "dc_bounded dc"
  shows "dc_inv (snd (dc_Put os io now k etag data dc))" "dc_bounded (snd (dc_Put os io now k etag data dc))"
    "dc_view (snd (dc_Put os io now k etag data dc)) \<subseteq>\<^sub>m (dc_view dc)(cacheKey k etag \<mapsto> data) \<or>
     dc_view (snd (dc_Put os io now k etag data dc)) = dc_view dc"
proof -
  have *: "dc_inv (snd (dc_Put os io now k etag data dc)) \<and> dc_bounded (snd (dc_Put os io now k etag data dc)) \<and>
    (dc_view (snd (dc_Put os io now k etag data dc)) \<subseteq>\<^sub>m (dc_view dc)(cacheKey k etag \<mapsto> data) \<or>
     dc_view (snd (dc_Put os io now k etag data dc)) = dc_view dc)"
  proof (cases "put_io_ok io")
    case True
    show ?thesis
      by (rule dc_Put_success [OF assms(1) True, of os now k etag data])
         (use assms(2) in \<open>simp_all add: dc_bounded_def\<close>)
  next
    case False
    from dc_Put_failed [OF assms(1) False, of os now k etag data] assms(2) show ?thesis
      by (simp add: dc_bounded_def)
  qed
  then show "dc_inv (snd (dc_Put os io now k etag data dc))" "dc_bounded (snd (dc_Put os io now k etag data dc))"
    "dc_view (snd (dc_Put os io now k etag data dc)) \<subseteq>\<^sub>m (dc_view dc)(cacheKey k etag \<mapsto> data) \<or>
     dc_view (snd (dc_Put os io now k etag data dc)) = dc_view dc"
    by blast+
qed

lemma coherent_Put:
  assumes "coherent key etag d (Some dc)"
  shows "coherent key etag d (Some (snd (dc_Put os io now key etag d dc)))"
proof -
  have i: "dc_inv dc" "dc_bounded dc" using assms by (simp_all add: coherent_def)
  let ?dc = "snd (dc_Put os io now key etag d dc)"
  from dc_Put_any(3) [OF i, of os io now key etag d]
  have "dc_view ?dc (cacheKey key etag) = None \<or> dc_view ?dc (cacheKey key etag) = Some d" if "etag \<noteq> []"
  proof
    assume le: "dc_view ?dc \<subseteq>\<^sub>m (dc_view dc)(cacheKey key etag \<mapsto> d)"
    show ?thesis
    proof (cases "dc_view ?dc (cacheKey key etag)")
      case (Some x)
      from map_leD [OF le this] have "x = d" by simp
      with Some show ?thesis by blast
    qed simp
  next
    assume "dc_view ?dc = dc_view dc"
    with assms that show ?thesis by (simp add: coherent_def)
  qed
  with dc_Put_any(1,2) [OF i] show ?thesis by (simp add: coherent_def)
qed

lemma coherent_Get:
  assumes "coherent key etag d (Some dc)" and "etag \<noteq> []"
  obtains x dc' where "dc_Get os now key etag dc = Inr (x, dc')" and "coherent key etag d (Some dc')"
    and "x = None \<or> x = Some d"
proof -
  have i: "dc_inv dc" "dc_bounded dc" using assms by (simp_all add: coherent_def)
  obtain x dc' where g: "dc_Get os now key etag dc = Inr (x, dc')" "dc_inv dc'" "dc_config dc' = dc_config dc"
      "dc_currentSize dc' \<le> dc_currentSize dc" "dc_view dc' \<subseteq>\<^sub>m dc_view dc" "x = None \<or> x = dc_view dc (cacheKey key etag)"
    by (rule dc_Get_ok [OF i(1), of os now key etag])
  have "dc_view dc' (cacheKey key etag) = None \<or> dc_view dc' (cacheKey key etag) = Some d"
    using map_leD [OF g(5), of "cacheKey key etag"] assms
    by (cases "dc_view dc' (cacheKey key etag)") (auto simp: coherent_def)
  moreover have "dc_bounded dc'" using g(3,4) i(2) by (simp add: dc_bounded_def)
  ultimately show thesis
    using g assms by (intro that [of x dc']) (auto simp: coherent_def)
qed

subsection \<open>A fetch brings the requested offset into the buffer\<close>

lemma ReadFull_all: "length x = n \<Longrightarrow> ReadFull n \<lparr>rd_data = x, rd_err = None\<rparr> = (x, None)"
  by (simp add: ReadFull_def)

lemma ReadFull_cached:
  assumes "reads_as rd x" and "n \<le> length x" and "ReadFull n rd = (y, e)"
  shows "e = None \<and> y = take n x \<or> e \<noteq> None \<and> e \<noteq> Some EOF \<and> e \<noteq> Some ErrUnexpectedEOF"
proof (cases "rd_err rd")
  case None
  with assms show ?thesis by (auto simp: reads_as_def ReadFull_def Let_def)
next
  case (Some er)
  obtain z where z: "x = rd_data rd @ z" using assms(1) by (auto simp: reads_as_def prefix_def)
  show ?thesis
  proof (cases "n \<le> length (rd_data rd)")
    case True
    with assms(3) z show ?thesis by (simp add: ReadFull_def Let_def)
  next
    case False
    with Some assms(1,3) show ?thesis by (auto simp: ReadFull_def Let_def reads_as_def)
  qed
qed

lemma take_fill_buf: "take (length d) (fill_buf n arr d) = d"
  by (simp add: fill_buf_def)

lemma fetch_s3_ok:
  assumes "env_ok env (cr_s3Key r) d" and "cr_size r = int (length d)" and "chunkSize1MB \<le> cr_chunkSize r"
    and "0 \<le> off" and "0 < len" and "off + len \<le> cr_size r"
    and "coherent (cr_s3Key r) (cr_etag r) d dco" and "fills_cache r dco \<longrightarrow> off = 0 \<and> len = cr_size r"
  obtains arr dco' where
    "fetch_s3 env off len (r, dco) = (None, r\<lparr>cr_arr := arr, cr_bufStart := off, cr_bufLen := len\<rparr>, dco')"
    and "buf_ok d (r\<lparr>cr_arr := arr, cr_bufStart := off, cr_bufLen := len\<rparr>)"
    and "coherent (cr_s3Key r) (cr_etag r) d dco'" and "dco' = None \<longleftrightarrow> dco = None"
proof -
  let ?x = "take (nat len) (drop (nat off) d)"
  have g: "GetObjectRange (re_api env) (cr_s3Key r) off len (re_world env) = Inr \<lparr>rd_data = ?x, rd_err = None\<rparr>"
    using assms(1,4,5) by (simp add: env_ok_def)
  have lx: "length ?x = nat len" using assms(2,4-6) by simp
  let ?arr = "fill_buf (nat len) (cr_arr r) ?x"
  let ?dco = "case dco of Some dc \<Rightarrow> if cr_etag r \<noteq> [] \<and> cr_size r \<le> smallFile
      then Some (snd (dc_Put (re_os env) (re_io env off) (re_now env) (cr_s3Key r) (cr_etag r) ?x dc)) else Some dc
    | None \<Rightarrow> None"
  have f: "fetch_s3 env off len (r, dco) = (None, r\<lparr>cr_arr := ?arr, cr_bufStart := off, cr_bufLen := len\<rparr>, ?dco)"
    unfolding fetch_s3_def using g lx assms(5) by (simp add: ReadFull_all)
  have b: "buf_ok d (r\<lparr>cr_arr := ?arr, cr_bufStart := off, cr_bufLen := len\<rparr>)"
    using assms(2-6) take_fill_buf [of ?x "nat len" "cr_arr r", unfolded lx] by (simp add: buf_ok_def)
  have whole: "?x = d" if "dco \<noteq> None" "cr_etag r \<noteq> []" "cr_size r \<le> smallFile"
    using that assms(2,8) by (simp add: fills_cache_def uses_cache_def)
  have c: "coherent (cr_s3Key r) (cr_etag r) d ?dco"
  proof (cases dco)
    case (Some dc)
    show ?thesis
    proof (cases "cr_etag r \<noteq> [] \<and> cr_size r \<le> smallFile")
      case True
      with whole Some coherent_Put [OF assms(7) [unfolded Some]] show ?thesis by simp
    next
      case False
      with Some assms(7) show ?thesis by auto
    qed
  qed (simp add: coherent_def)
  show thesis by (rule that [OF f b c]) (simp split: option.split)
qed

lemma fills_cache_cong:
  "\<lbrakk>dco' = None \<longleftrightarrow> dco = None; cr_etag r' = cr_etag r; cr_size r' = cr_size r\<rbrakk> \<Longrightarrow>
     fills_cache r' dco' = fills_cache r dco"
  by (simp add: fills_cache_def uses_cache_def)

text \<open>What a fetch, and with it every step of the loop, leaves behind.\<close>

definition same_file :: "chunkReader \<Rightarrow> DataCache option \<Rightarrow> chunkReader \<Rightarrow> DataCache option \<Rightarrow> bool" where
  "same_file r dco r' dco' \<longleftrightarrow> (dco' = None \<longleftrightarrow> dco = None) \<and> cr_s3Key r' = cr_s3Key r \<and> cr_etag r' = cr_etag r \<and> cr_size r' = cr_size r"

lemma same_file_refl [simp]: "same_file r dco r dco"
  by (simp add: same_file_def)

lemma same_file_trans: "same_file r dco r1 dco1 \<Longrightarrow> same_file r1 dco1 r2 dco2 \<Longrightarrow> same_file r dco r2 dco2"
  by (simp add: same_file_def)

lemma fetchChunk_ok:
  assumes e: "env_ok env (cr_s3Key r) d" and b: "buf_ok d r" and off: "0 \<le> off" "off < cr_size r"
    and c: "coherent (cr_s3Key r) (cr_etag r) d dco" and safe: "from_start off r dco" and out: "\<not> in_buf off r"
  obtains r' dco' where "fetchChunk env off (r, dco) = (None, r', dco')" and "buf_ok d r'" and "in_buf off r'"
    and "coherent (cr_s3Key r) (cr_etag r) d dco'" and "same_file r dco r' dco'" and "from_start off r' dco'"
proof -
  note finish = that
  define len where "len = (if off + cr_chunkSize r > cr_size r then cr_size r - off else cr_chunkSize r)"
  have sz: "cr_size r = int (length d)" and cs: "chunkSize1MB \<le> cr_chunkSize r" using b by (simp_all add: buf_ok_def)
  have len: "0 < len" "off + len \<le> cr_size r"
    using off cs by (auto simp: len_def chunkSize1MB_def)
  have fill: "off = 0 \<and> len = cr_size r" if "fills_cache r dco"
  proof -
    have "off = 0" using safe that out off by (auto simp: from_start_def in_buf_def)
    moreover have "cr_size r \<le> chunkSize1MB" using that by (simp add: fills_cache_def smallFile_def chunkSize1MB_def)
    ultimately show ?thesis using cs by (simp add: len_def)
  qed
  have s3: thesis
    if f: "fetchChunk env off (r, dco) = fetch_s3 env off len (r\<lparr>cr_arr := a\<rparr>, dco1)"
      and c1: "coherent (cr_s3Key r) (cr_etag r) d dco1" and d1: "dco1 = None \<longleftrightarrow> dco = None" for a dco1
  proof -
    have fl: "fills_cache (r\<lparr>cr_arr := a\<rparr>) dco1 = fills_cache r dco"
      using d1 by (simp add: fills_cache_def uses_cache_def)
    obtain arr dco' where *:
      "fetch_s3 env off len (r\<lparr>cr_arr := a\<rparr>, dco1) =
         (None, r\<lparr>cr_arr := a\<rparr>\<lparr>cr_arr := arr, cr_bufStart := off, cr_bufLen := len\<rparr>, dco')"
      "buf_ok d (r\<lparr>cr_arr := a\<rparr>\<lparr>cr_arr := arr, cr_bufStart := off, cr_bufLen := len\<rparr>)"
      "coherent (cr_s3Key r) (cr_etag r) d dco'" "dco' = None \<longleftrightarrow> dco1 = None"
      by (rule fetch_s3_ok [of env "r\<lparr>cr_arr := a\<rparr>" d off len dco1])
         (use e sz cs off len c1 fill fl in simp_all)
    show thesis
      by (rule finish [OF _ *(2) _ *(3)])
         (use f * d1 len fill in \<open>simp_all add: in_buf_def same_file_def from_start_def fills_cache_def uses_cache_def\<close>)
  qed
  show thesis
  proof (cases "uses_cache r dco")
    case False
    show thesis
      by (rule s3 [of "cr_arr r" dco]) (use False len c in \<open>simp_all add: fetchChunk_def len_def [symmetric]\<close>)
  next
    case True
    then obtain dc where dc: "dco = Some dc" "cr_etag r \<noteq> []" by (auto simp: uses_cache_def)
    obtain x dc' where g: "dc_Get (re_os env) (re_now env) (cr_s3Key r) (cr_etag r) dc = Inr (x, dc')"
        "coherent (cr_s3Key r) (cr_etag r) d (Some dc')" "x = None \<or> x = Some d"
      by (rule coherent_Get [OF c [unfolded dc(1)] dc(2)])
    show thesis
    proof (cases x)
      case None
      show thesis
        by (rule s3 [of "cr_arr r" "Some dc'"]) (use True None g dc len in \<open>simp_all add: fetchChunk_def len_def [symmetric]\<close>)
    next
      case (Some f)
      with g(3) have x: "x = Some d" by simp
      obtain y er where rf: "ReadFull (nat len) (re_read env (drop (nat off) d)) = (y, er)" by fastforce
      have "er = None \<and> y = take (nat len) (drop (nat off) d) \<or> er \<noteq> None \<and> er \<noteq> Some EOF \<and> er \<noteq> Some ErrUnexpectedEOF"
        by (rule ReadFull_cached [OF _ _ rf]) (use e len off sz in \<open>simp_all add: env_ok_def\<close>)
      then show thesis
      proof
        assume y: "er = None \<and> y = take (nat len) (drop (nat off) d)"
        have ly: "int (length y) = len" "nat len = length y" using y len off sz by simp_all
        let ?r = "r\<lparr>cr_arr := fill_buf (nat len) (cr_arr r) y, cr_bufStart := off, cr_bufLen := len\<rparr>"
        have f: "fetchChunk env off (r, dco) = (None, ?r, Some dc')"
          using True x g dc len rf y off ly(1) by (simp add: fetchChunk_def len_def [symmetric])
        have "take (nat len) (fill_buf (nat len) (cr_arr r) y) = y"
          using take_fill_buf [of y "nat len" "cr_arr r"] ly(2) by simp
        then have b': "buf_ok d ?r" using y b off len by (simp add: buf_ok_def)
        show thesis
          by (rule that [OF f b' _ g(2)])
             (use len fill dc in \<open>simp_all add: in_buf_def same_file_def from_start_def fills_cache_def uses_cache_def\<close>)
      next
        assume "er \<noteq> None \<and> er \<noteq> Some EOF \<and> er \<noteq> Some ErrUnexpectedEOF"
        then show thesis
          by (intro s3 [of "fill_buf (nat len) (cr_arr r) y" "Some dc'"])
             (use True x g dc len rf off in \<open>auto simp add: fetchChunk_def len_def [symmetric] Let_def\<close>)
      qed
    qed
  qed
qed

subsection \<open>The loop copies the requested bytes\<close>

lemma take_drop_split: "take m (drop (k + n) d) = drop n (take (n + m) (drop k d))"
  by (simp add: drop_take ac_simps)

text \<open>One copy out of the buffer.\<close>

lemma buf_copy:
  assumes b: "buf_ok d r" and i: "in_buf off r" and m: "0 < m"
  defines "chunk \<equiv> take m (drop (nat (off - cr_bufStart r)) (take (nat (cr_bufLen r)) (cr_arr r)))"
  shows "chunk = take (length chunk) (drop (nat off) d)" and "0 < length chunk" and "length chunk \<le> m"
    and "off + int (length chunk) \<le> cr_size r"
proof -
  let ?k = "nat (off - cr_bufStart r)" and ?n = "nat (cr_bufLen r)"
  have arr: "take ?n (cr_arr r) = take ?n (drop (nat (cr_bufStart r)) d)"
    and bounds: "cr_bufStart r + cr_bufLen r \<le> cr_size r" "0 \<le> cr_bufStart r" "cr_bufStart r \<le> off"
      "off < cr_bufStart r + cr_bufLen r" "cr_size r = int (length d)"
    using b i by (simp_all add: buf_ok_def in_buf_def)
  have k: "?k + nat (cr_bufStart r) = nat off" "?k < ?n" using bounds by auto
  have "chunk = take (min m (?n - ?k)) (drop (nat off) d)"
    unfolding chunk_def arr by (simp add: drop_take k(1) min.commute)
  moreover have l: "length chunk = min m (?n - ?k)"
    unfolding calculation using bounds k by auto
  ultimately show "chunk = take (length chunk) (drop (nat off) d)" by simp
  show "0 < length chunk" "length chunk \<le> m" using l m k by auto
  have "int (length chunk) \<le> cr_bufStart r + cr_bufLen r - off" using l k bounds by linarith
  then show "off + int (length chunk) \<le> cr_size r" using bounds by linarith
qed

lemma read_loop_exact:
  assumes "env_ok env (cr_s3Key r) d" and "buf_ok d r" and "coherent (cr_s3Key r) (cr_etag r) d dco"
    and "0 \<le> off0" and "off = off0 + int (length out)" and "out = take (length out) (drop (nat off0) d)"
    and "length out \<le> p" and "off \<le> cr_size r" and "from_start off r dco"
    and "2 * (p - length out) + (if in_buf off r then 0 else 1) \<le> fuel"
  shows "\<exists>r' dco'. read_loop fuel env p out off r dco =
      Some (None, take p (drop (nat off0) d), off0 + int (length (take p (drop (nat off0) d))), r', dco') \<and>
    buf_ok d r' \<and> coherent (cr_s3Key r) (cr_etag r) d dco' \<and> same_file r dco r' dco' \<and>
    from_start (off0 + int (length (take p (drop (nat off0) d)))) r' dco'"
  using assms
proof (induction fuel arbitrary: out off r dco)
  case (0 out off r dco)
  then have "length out = p" by (simp split: if_splits)
  with 0 show ?case by (auto simp: read_loop.simps)
next
  case (Suc fuel out off r dco)
  have sz: "cr_size r = int (length d)" using Suc.prems(2) by (simp add: buf_ok_def)
  show ?case
  proof (cases "length out < p \<and> off < cr_size r")
    case False
    then have "length out = p \<or> length (drop (nat off0) d) = length out \<and> length out \<le> p"
      using Suc.prems(4,5,7,8) sz by auto
    then have "take p (drop (nat off0) d) = out"
      using Suc.prems(6) by (metis take_all order_refl)
    with False Suc.prems show ?thesis by (auto simp: read_loop.simps)
  next
    case more: True
    show ?thesis
    proof (cases "in_buf off r")
      case True
      let ?chunk = "take (p - length out) (drop (nat (off - cr_bufStart r)) (take (nat (cr_bufLen r)) (cr_arr r)))"
      have m: "0 < p - length out" using more by simp
      note ch = buf_copy [OF Suc.prems(2) True m]
      have "nat off = nat off0 + length out" using Suc.prems(4,5) by simp
      then have "drop (nat off) d = drop (length out) (drop (nat off0) d)" by (simp add: add.commute)
      then have out: "out @ ?chunk = take (length (out @ ?chunk)) (drop (nat off0) d)"
        using ch(1) Suc.prems(6) by (simp only: length_append take_add)
      have "2 * (p - length out) \<le> Suc fuel" using Suc.prems(10) True by simp
      then have fl: "Suc (2 * (p - length (out @ ?chunk))) \<le> fuel"
        using ch(2,3) m unfolding length_append by linarith
      have "\<exists>r' dco'. read_loop fuel env p (out @ ?chunk) (off + int (length ?chunk)) r dco =
          Some (None, take p (drop (nat off0) d), off0 + int (length (take p (drop (nat off0) d))), r', dco') \<and>
        buf_ok d r' \<and> coherent (cr_s3Key r) (cr_etag r) d dco' \<and> same_file r dco r' dco' \<and>
        from_start (off0 + int (length (take p (drop (nat off0) d)))) r' dco'"
      proof (rule Suc.IH [OF Suc.prems(1-4)])
        show "off + int (length ?chunk) = off0 + int (length (out @ ?chunk))" using Suc.prems(5) by simp
        show "out @ ?chunk = take (length (out @ ?chunk)) (drop (nat off0) d)" by (rule out)
        show "length (out @ ?chunk) \<le> p" using ch(3) m by (simp only: length_append)
        show "off + int (length ?chunk) \<le> cr_size r" by (rule ch(4))
        show "from_start (off + int (length ?chunk)) r dco"
          using Suc.prems(9) True by (auto simp: from_start_def in_buf_def)
        show "2 * (p - length (out @ ?chunk)) + (if in_buf (off + int (length ?chunk)) r then 0 else 1) \<le> fuel"
          using fl by (simp only: split: if_split) linarith
      qed
      then show ?thesis using more True by (simp only: read_loop.simps Let_def if_True simp_thms)
    next
      case False
      obtain r1 dco1 where f: "fetchChunk env off (r, dco) = (None, r1, dco1)" "buf_ok d r1" "in_buf off r1"
          "coherent (cr_s3Key r) (cr_etag r) d dco1" "same_file r dco r1 dco1" "from_start off r1 dco1"
        by (rule fetchChunk_ok [OF Suc.prems(1,2) _ _ Suc.prems(3,9) False]) (use more Suc.prems(4,5) in simp_all)
      have id: "cr_s3Key r1 = cr_s3Key r" "cr_etag r1 = cr_etag r" "cr_size r1 = cr_size r"
        using f(5) by (simp_all add: same_file_def)
      have "\<exists>r' dco'. read_loop fuel env p out off r1 dco1 =
          Some (None, take p (drop (nat off0) d), off0 + int (length (take p (drop (nat off0) d))), r', dco') \<and>
        buf_ok d r' \<and> coherent (cr_s3Key r1) (cr_etag r1) d dco' \<and> same_file r1 dco1 r' dco' \<and>
        from_start (off0 + int (length (take p (drop (nat off0) d)))) r' dco'"
        by (rule Suc.IH) (use Suc.prems(1,4-8,10) f id False in simp_all)
      then show ?thesis
        using more False f same_file_trans [OF f(5)] by (auto simp: read_loop.simps id)
    qed
  qed
qed

text \<open>What the caller of \<open>ReadAt\<close> should get: the bytes, and \<open>io.EOF\<close> at the end.\<close>

definition expected_read :: "bytes \<Rightarrow> nat \<Rightarrow> int \<Rightarrow> bytes \<times> err option" where
  "expected_read d p off =
     (let x = take p (drop (nat off) d)
      in (x, if x = [] \<or> off + int (length x) \<ge> int (length d) then Some EOF else None))"

lemma track_ok:
  "buf_ok d r \<Longrightarrow> buf_ok d (track off r)" "same_file r dco (track off r) dco"
  "from_start off' (track off r) dco = from_start off' r dco"
  by (auto simp: track_def adaptChunkSize_def buf_ok_def same_file_def from_start_def fills_cache_def uses_cache_def
      chunkSize1MB_def chunkSize4MB_def chunkSize16MB_def)

lemma lastEnd_ok:
  "buf_ok d (r\<lparr>cr_lastEnd := e\<rparr>) = buf_ok d r" "from_start off (r\<lparr>cr_lastEnd := e\<rparr>) dco = from_start off r dco"
  by (simp_all add: buf_ok_def from_start_def fills_cache_def uses_cache_def)

lemma ReadAt_ok:
  assumes "env_ok env (cr_s3Key r) d" and "buf_ok d r" and "coherent (cr_s3Key r) (cr_etag r) d dco"
    and "0 \<le> off" and "from_start off r dco" and "2 * p + 1 \<le> fuel"
  obtains r' dco' where "ReadAt fuel env p off (r, dco) = Some (expected_read d p off, r', dco')"
    and "buf_ok d r'" and "coherent (cr_s3Key r) (cr_etag r) d dco'" and "same_file r dco r' dco'"
    and "off < cr_size r \<longrightarrow> from_start (off + int (length (take p (drop (nat off) d)))) r' dco'"
    and "cr_size r \<le> off \<longrightarrow> r' = r \<and> dco' = dco"
proof (cases "off \<ge> cr_size r")
  case True
  with assms(2) have "ReadAt fuel env p off (r, dco) = Some (expected_read d p off, r, dco)"
    by (simp add: ReadAt_def expected_read_def buf_ok_def)
  with assms(2,3) True show thesis by (intro that [of r dco]) simp_all
next
  case False
  let ?x = "take p (drop (nat off) d)"
  have id: "cr_s3Key (track off r) = cr_s3Key r" "cr_etag (track off r) = cr_etag r" "cr_size (track off r) = cr_size r"
    using track_ok(2) [of r dco off] by (simp_all add: same_file_def)
  have sz: "cr_size r = int (length d)" using assms(2) by (simp add: buf_ok_def)
  have "\<exists>r' dco'. read_loop fuel env p [] off (track off r) dco = Some (None, ?x, off + int (length ?x), r', dco') \<and>
      buf_ok d r' \<and> coherent (cr_s3Key (track off r)) (cr_etag (track off r)) d dco' \<and>
      same_file (track off r) dco r' dco' \<and> from_start (off + int (length ?x)) r' dco'"
    by (rule read_loop_exact) (use assms False id in \<open>simp_all add: track_ok\<close>)
  then obtain r' dco' where l: "read_loop fuel env p [] off (track off r) dco = Some (None, ?x, off + int (length ?x), r', dco')"
      "buf_ok d r'" "coherent (cr_s3Key r) (cr_etag r) d dco'" "same_file (track off r) dco r' dco'"
      "from_start (off + int (length ?x)) r' dco'"
    unfolding id by blast
  have sz': "cr_size r' = int (length d)" using l(2) by (simp add: buf_ok_def)
  show thesis
  proof (rule that [of "r'\<lparr>cr_lastEnd := off + int (length ?x)\<rparr>" dco'])
    show "ReadAt fuel env p off (r, dco) = Some (expected_read d p off, r'\<lparr>cr_lastEnd := off + int (length ?x)\<rparr>, dco')"
      using False l(1) sz' by (auto simp: ReadAt_def expected_read_def Let_def)
    show "same_file r dco (r'\<lparr>cr_lastEnd := off + int (length ?x)\<rparr>) dco'"
      using l(4) id by (simp add: same_file_def)
  qed (use l False in \<open>simp_all add: lastEnd_ok\<close>)
qed

subsection \<open>Sequences of reads\<close>

primrec read_run ::
  "nat \<Rightarrow> 'w renv \<Rightarrow> (nat \<times> int) list \<Rightarrow> chunkReader \<times> DataCache option \<Rightarrow> (bytes \<times> err option) list option" where
  "read_run fuel env [] st = Some []"
| "read_run fuel env (x # xs) st =
     (case ReadAt fuel env (fst x) (snd x) st of None \<Rightarrow> None
      | Some (y, st') \<Rightarrow> map_option ((#) y) (read_run fuel env xs st'))"

definition starts_whole :: "(nat \<times> int) list \<Rightarrow> chunkReader \<Rightarrow> DataCache option \<Rightarrow> bool" where
  "starts_whole xs r dco \<longleftrightarrow>
     (fills_cache r dco \<longrightarrow> cr_bufStart r = 0 \<and> cr_bufLen r = cr_size r \<or>
        (xs \<noteq> [] \<longrightarrow> snd (hd xs) = 0 \<and> cr_bufStart r = 0 \<and> cr_bufLen r = 0))"

lemma read_run_exact:
  assumes "env_ok env (cr_s3Key r) d" and "buf_ok d r" and "coherent (cr_s3Key r) (cr_etag r) d dco"
    and "\<forall>(p, off)\<in>set xs. 0 \<le> off \<and> 0 < p \<and> 2 * p + 1 \<le> fuel" and "starts_whole xs r dco"
  shows "read_run fuel env xs (r, dco) = Some (map (\<lambda>(p, off). expected_read d p off) xs)"
  using assms
proof (induction xs arbitrary: r dco)
  case (Cons x xs)
  obtain p off where x: "x = (p, off)" by fastforce
  have o: "0 \<le> off" "2 * p + 1 \<le> fuel" "0 < p" using Cons.prems(4) x by auto
  have sz: "cr_size r = int (length d)" using Cons.prems(2) by (simp add: buf_ok_def)
  have "from_start off r dco" using Cons.prems(5) x by (auto simp: starts_whole_def from_start_def)
  then obtain r' dco' where r: "ReadAt fuel env p off (r, dco) = Some (expected_read d p off, r', dco')"
      "buf_ok d r'" "coherent (cr_s3Key r) (cr_etag r) d dco'" "same_file r dco r' dco'"
      "off < cr_size r \<longrightarrow> from_start (off + int (length (take p (drop (nat off) d)))) r' dco'"
      "cr_size r \<le> off \<longrightarrow> r' = r \<and> dco' = dco"
    using ReadAt_ok [OF Cons.prems(1-3) o(1) _ o(2)] by metis
  have f: "fills_cache r' dco' = fills_cache r dco" and id: "cr_s3Key r' = cr_s3Key r" "cr_etag r' = cr_etag r" "cr_size r' = cr_size r"
    using r(4) by (simp_all add: same_file_def fills_cache_def uses_cache_def)
  have "starts_whole xs r' dco'"
  proof (cases "off < cr_size r")
    case True
    then have "0 < off + int (length (take p (drop (nat off) d)))" using o sz by simp
    with r(5) True id show ?thesis by (simp add: starts_whole_def from_start_def)
  next
    case False
    with r(6) Cons.prems(5) o(1) x sz show ?thesis by (auto simp: starts_whole_def)
  qed
  then have "read_run fuel env xs (r', dco') = Some (map (\<lambda>(p, off). expected_read d p off) xs)"
    using Cons.prems r id by (intro Cons.IH) simp_all
  with r(1) x show ?case by simp
qed simp

lemma env_ok_reads:
  assumes "s3_reads (re_api env) objs" and "objs (re_world env) key = Some obj" and "\<forall>x. reads_as (re_read env x) x"
  shows "env_ok env key (so_data obj)"
  using assms by (simp add: env_ok_def s3_reads_def)

lemma new_ok: "buf_ok d (newChunkReader key (int (length d)) etag)"
  by (simp add: buf_ok_def newChunkReader_def)

lemma new_simps [simp]:
  "cr_s3Key (newChunkReader key sz etag) = key" "cr_etag (newChunkReader key sz etag) = etag"
  "cr_size (newChunkReader key sz etag) = sz" "cr_bufStart (newChunkReader key sz etag) = 0"
  "cr_bufLen (newChunkReader key sz etag) = 0"
  by (simp_all add: newChunkReader_def)


text \<open>A store with one object, for the examples below.\<close>

definition ex_env :: "memstore renv" where
  "ex_env = \<lparr>re_api = mem_api, re_world = [(''k'', \<lparr>so_data = ''hello world'', so_mtime = 0, so_etag = ''e'', so_ctype = [], so_meta = Map.empty\<rparr>)],
     re_now = 0, re_os = os_fine, re_io = \<lambda>_. io_fine, re_read = \<lambda>x. \<lparr>rd_data = x, rd_err = None\<rparr>\<rparr>"

lemma ex_env_ok:
  "s3_reads (re_api ex_env) map_of" "\<forall>x. reads_as (re_read ex_env x) x" "re_now ex_env = 0" "re_os ex_env = os_fine" "re_io ex_env off = io_fine"
  "map_of (re_world ex_env) ''k'' = Some \<lparr>so_data = ''hello world'', so_mtime = 0, so_etag = ''e'', so_ctype = [], so_meta = Map.empty\<rparr>"
  by (simp_all add: ex_env_def reads_as_def)


subsection \<open>Where the reader goes wrong\<close>

lemma read_loop_one_chunk:
  assumes "fetchChunk env off (r, dco) = (None, r', dco')" and "\<not> in_buf off r" and "cr_size r' = cr_size r"
    and "in_buf off r'" and "0 < p" and "off < cr_size r"
    and "take (nat (cr_bufLen r')) (cr_arr r') = x" and "p \<le> length (drop (nat (off - cr_bufStart r')) x)"
  shows "read_loop (Suc (Suc fuel)) env p [] off r dco =
    Some (None, take p (drop (nat (off - cr_bufStart r')) x), off + int p, r', dco')"
proof -
  let ?c = "drop (nat (off - cr_bufStart r')) x"
  have "length (take p ?c) = p" using assms(8) by (simp del: length_drop)
  then show ?thesis
    using assms(1-7) by (cases fuel) (simp_all add: read_loop.simps Let_def del: length_drop length_take)
qed

lemma ReadAt_via_loop:
  "\<lbrakk>off < cr_size r; read_loop fuel env p [] off (track off r) dco = Some (None, out, off', r', dco'); out \<noteq> []\<rbrakk> \<Longrightarrow>
   ReadAt fuel env p off (r, dco) =
     Some ((out, if off' \<ge> cr_size r' then Some EOF else None), r'\<lparr>cr_lastEnd := off'\<rparr>, dco')"
  by (simp add: ReadAt_def)

lemma take_prefix_part:
  assumes "take (length x) a = x" and "k + p \<le> length x" and "k + p \<le> n"
  shows "take p (drop k (take n a)) = take p (drop k x)"
proof -
  have "take (p + k) (take n a) = take (p + k) (take (length x) a)" using assms(2,3) by (simp add: min_def)
  then show ?thesis unfolding take_drop assms(1) by simp
qed

text \<open>
  A first read of a small file at an offset stores the rest of the file from there on under the
  name of the whole object.
\<close>

lemma first_read_caches_tail:
  fixes env :: "'w renv" and off :: int and obj :: s3obj
  defines "x \<equiv> drop (nat off) (so_data obj)" and "sz \<equiv> int (length (so_data obj))"
  assumes "s3_reads (re_api env) objs" and "objs (re_world env) key = Some obj"
    and "dc_inv dc" and "dc_view dc (cacheKey key etag) = None" and "put_io_ok (re_io env off)" and "\<forall>p. os_open_ok (re_os env) p"
    and "sz \<le> dcc_MaxSize (dc_config dc)" and "dcc_DataTTL (dc_config dc) \<ge> 0"
    and "etag \<noteq> []" and "sz \<le> smallFile" and "0 < off" and "0 < p" and "off + int p \<le> sz"
  obtains r1 dc1 dc2 where "ReadAt 2 env p off (newChunkReader key sz etag, Some dc) = Some (expected_read (so_data obj) p off, r1, Some dc1)"
    and "dc_inv dc1" and "dc_config dc1 = dc_config dc" and "dc_view dc1 (cacheKey key etag) = Some x"
    and "dc_Get (re_os env) (re_now env) key etag dc1 = Inr (Some x, dc2)"
proof -
  let ?d = "so_data obj"
  let ?r = "newChunkReader key sz etag"
  let ?n = "sz - off"
  have t: "track off ?r = ?r" using assms(13) by (simp add: track_def newChunkReader_def)
  have cs: "cr_chunkSize ?r = 1048576" by (simp add: newChunkReader_def chunkSize1MB_def)
  have small: "sz \<le> 131072" using assms(12) by (simp add: smallFile_def)
  have n: "0 < ?n" "length x = nat ?n" "int (length x) = ?n" "p \<le> length x" using assms(13-15) by (auto simp: x_def sz_def)
  obtain g dc0 where g: "dc_Get (re_os env) (re_now env) key etag dc = Inr (g, dc0)" "dc_inv dc0" "dc_config dc0 = dc_config dc"
      "dc_currentSize dc0 \<le> dc_currentSize dc" "dc_view dc0 \<subseteq>\<^sub>m dc_view dc" "g = None \<or> g = dc_view dc (cacheKey key etag)"
    by (rule dc_Get_ok [OF assms(5), of "re_os env" "re_now env" key etag])
  then have g0: "g = None" using assms(6) by auto
  have fits: "int (length x) \<le> dcc_MaxSize (dc_config dc0)" "0 \<le> dcc_MaxSize (dc_config dc0)"
    using assms(9,13) g(3) n by (simp_all add: sz_def)
  obtain dc1 dc2 where put: "dc_Put (re_os env) (re_io env off) (re_now env) key etag x dc0 = (None, dc1)"
      and get: "dc_Get (re_os env) (re_now env) key etag dc1 = Inr (Some x, dc2)"
    using put_then_get [OF g(2) assms(7) fits(1), of "re_now env" "re_now env" "re_os env" key etag] assms(8,10) g(3)
    by (auto simp: time_Sub_def)
  obtain dc1' v where p1: "dc_Put (re_os env) (re_io env off) (re_now env) key etag x dc0 = (None, dc1')" "dc_inv dc1'" "dc_config dc1' = dc_config dc0"
    by (rule dc_Put_success [OF g(2) assms(7), of "re_os env" "re_now env" key etag x]) (use fits in simp_all)
  then have i1: "dc_inv dc1" "dc_config dc1 = dc_config dc" using put g(3) by simp_all
  have "dc_view dc1 (cacheKey key etag) = Some x"
    by (rule dc_Get_ok [OF i1(1), of "re_os env" "re_now env" key etag]) (use get in auto)
  have rng: "GetObjectRange (re_api env) key off ?n (re_world env) = Inr \<lparr>rd_data = x, rd_err = None\<rparr>"
    using assms(3,4,13) n by (simp add: s3_reads_def x_def sz_def)
  have f1: "fetchChunk env off (?r, Some dc) =
      (None, ?r\<lparr>cr_arr := fill_buf (nat ?n) [] x, cr_bufStart := off, cr_bufLen := ?n\<rparr>, Some dc1)"
    using assms(11,12) small cs n g g0 put rng assms(13)
    by (simp add: fetchChunk_def fetch_s3_def uses_cache_def ReadFull_all Let_def) (simp add: newChunkReader_def)
  let ?rfst = "?r\<lparr>cr_arr := fill_buf (nat ?n) [] x, cr_bufStart := off, cr_bufLen := ?n\<rparr>"
  have l1: "read_loop 2 env p [] off ?r (Some dc) = Some (None, take p x, off + int p, ?rfst, Some dc1)"
    using read_loop_one_chunk [OF f1, of p x 0] n assms(13-15) take_fill_buf [of x "nat ?n" "[]"]
    by (simp add: in_buf_def numeral_2_eq_2)
  have tx: "take p x \<noteq> []" "int (length (take p x)) = int p" using n(4) assms(14) by (auto simp: x_def)
  have "off < cr_size ?r" using n(1) by simp
  note r = ReadAt_via_loop [OF this, unfolded t, OF l1 tx(1)]
  have "ReadAt 2 env p off (?r, Some dc) = Some (expected_read ?d p off, ?rfst\<lparr>cr_lastEnd := off + int p\<rparr>, Some dc1)"
    unfolding r expected_read_def Let_def using tx by (simp add: x_def sz_def del: length_take length_drop)
  with i1 \<open>dc_view dc1 (cacheKey key etag) = Some x\<close> get show thesis by (intro that)
qed

text \<open>
  C39. A read of a small file that does not start at offset 0 leaves its tail in the data cache as
  if it were the whole object (\<^verbatim>\<open>reader.go:173\<close>): the next reader of the same version, reading at
  offset 0, is given the bytes of the tail.
\<close>
theorem tail_read_poisons_cache:
  assumes "s3_reads (re_api env) objs" and "objs (re_world env) key = Some obj" and "re_read env = (\<lambda>x. \<lparr>rd_data = x, rd_err = None\<rparr>)"
    and "dc_inv dc" and "dc_view dc (cacheKey key etag) = None" and "put_io_ok (re_io env off)" and "\<forall>p. os_open_ok (re_os env) p"
    and "int (length (so_data obj)) \<le> dcc_MaxSize (dc_config dc)" and "dcc_DataTTL (dc_config dc) \<ge> 0"
    and "etag \<noteq> []" and "int (length (so_data obj)) \<le> smallFile"
    and "0 < off" and "0 < p" and "off + int p \<le> int (length (so_data obj))"
  shows "\<exists>r1 dc1 r2 dc2.
     ReadAt 2 env p off (newChunkReader key (int (length (so_data obj))) etag, Some dc) =
       Some (expected_read (so_data obj) p off, r1, Some dc1) \<and>
     ReadAt 2 env p 0 (newChunkReader key (int (length (so_data obj))) etag, Some dc1) =
       Some ((take p (drop (nat off) (so_data obj)), None), r2, dc2)"
proof -
  let ?d = "so_data obj" and ?x = "drop (nat off) (so_data obj)"
  let ?r = "newChunkReader key (int (length ?d)) etag"
  let ?n = "int (length ?d) - off"
  obtain r1 dc1 dc2 where first: "ReadAt 2 env p off (?r, Some dc) = Some (expected_read ?d p off, r1, Some dc1)"
    and get: "dc_Get (re_os env) (re_now env) key etag dc1 = Inr (Some ?x, dc2)"
    by (rule first_read_caches_tail [OF assms(1,2,4-14)])
  have t: "track 0 ?r = ?r" by (simp add: track_def newChunkReader_def)
  have cs: "cr_chunkSize ?r = 1048576" by (simp add: newChunkReader_def chunkSize1MB_def)
  have small: "int (length ?d) \<le> 131072" using assms(11) by (simp add: smallFile_def)
  have n: "0 < ?n" "length ?x = nat ?n" "int (length ?x) = ?n" "p \<le> length ?x" using assms(12-14) by auto
  have ne: "length ?x < length ?d" "?x \<noteq> []" "?d \<noteq> []" using n assms(12) by auto
  then have rf: "ReadFull (length ?d) \<lparr>rd_data = ?x, rd_err = None\<rparr> = (?x, Some ErrUnexpectedEOF)"
    by (simp add: ReadFull_def Let_def del: length_drop drop_eq_Nil)
  have f2: "fetchChunk env 0 (?r, Some dc1) =
      (None, ?r\<lparr>cr_arr := fill_buf (length ?d) [] ?x, cr_bufStart := 0, cr_bufLen := ?n\<rparr>, Some dc2)"
    using assms(3,10) small cs n get rf ne
    by (simp add: fetchChunk_def uses_cache_def Let_def del: length_drop) (simp add: newChunkReader_def)
  let ?rsnd = "?r\<lparr>cr_arr := fill_buf (length ?d) [] ?x, cr_bufStart := 0, cr_bufLen := ?n\<rparr>"
  have "read_loop (Suc (Suc 0)) env p [] 0 ?r (Some dc1) =
      Some (None, take p (drop (nat (0 - cr_bufStart ?rsnd)) ?x), 0 + int p, ?rsnd, Some dc2)"
  proof (rule read_loop_one_chunk [OF f2])
    show "take (nat (cr_bufLen ?rsnd)) (cr_arr ?rsnd) = ?x"
      using take_fill_buf [of ?x "length ?d" "[]"] n(2) by simp
    show "p \<le> length (drop (nat (0 - cr_bufStart ?rsnd)) ?x)" using n(4) by simp
    show "0 < cr_size ?r" using ne(3) by simp
  qed (use assms(13) n(1) in \<open>simp_all add: in_buf_def\<close>)
  then have l2: "read_loop 2 env p [] 0 ?r (Some dc1) = Some (None, take p ?x, int p, ?rsnd, Some dc2)"
    by (simp add: numeral_2_eq_2)
  have x: "take p ?x \<noteq> []" using n(4) assms(13) ne(2) by (auto simp del: length_drop)
  have "0 < cr_size ?r" using ne(3) by simp
  note r = ReadAt_via_loop [OF this, unfolded t, OF l2 x]
  have "ReadAt 2 env p 0 (?r, Some dc1) = Some ((take p ?x, None), ?rsnd\<lparr>cr_lastEnd := int p\<rparr>, Some dc2)"
    unfolding r using assms(12,14) by simp
  with first show ?thesis by blast
qed

theorem tail_read_poisons_cache_witness:
  "\<exists>r1 dc1 r2 dc2.
     ReadAt 2 ex_env 5 6 (newChunkReader ''k'' 11 ''e'', Some dc_empty) = Some ((''world'', Some EOF), r1, Some dc1) \<and>
     ReadAt 2 ex_env 5 0 (newChunkReader ''k'' 11 ''e'', Some dc1) = Some ((''world'', None), r2, dc2)"
  using tail_read_poisons_cache [OF ex_env_ok(1,6), of dc_empty "''e''" 6 5]
  by (simp add: ex_env_ok(4,5) dc_empty_ok smallFile_def expected_read_def)
     (simp add: ex_env_def os_fine_def dc_empty_def DefaultDataCacheConfig_def defaultDataCacheMaxSize_def)

text \<open>
  A cached copy that ends before the offset: every round of the loop takes its end of file for an
  empty chunk and asks again.
\<close>

lemma short_copy_loops:
  assumes "dc_inv dc" and "dc_view dc (cacheKey (cr_s3Key r) (cr_etag r)) = Some x" and "int (length x) \<le> off" and "off < cr_size r"
    and "dcc_DataTTL (dc_config dc) \<le> 0" and "\<forall>p. os_open_ok (re_os env) p" and "re_read env = (\<lambda>x. \<lparr>rd_data = x, rd_err = None\<rparr>)"
    and "cr_etag r \<noteq> []" and "0 < cr_chunkSize r" and "length out < p" and "\<not> in_buf off r"
  shows "read_loop fuel env p out off r (Some dc) = None"
  using assms
proof (induction fuel arbitrary: r dc)
  case (Suc fuel)
  let ?k = "cacheKey (cr_s3Key r) (cr_etag r)"
  obtain dc' where g: "dc_Get (re_os env) (re_now env) (cr_s3Key r) (cr_etag r) dc = Inr (Some x, dc')"
    "dc_inv dc'" "dc_config dc' = dc_config dc" "dc_view dc' = dc_view dc"
    by (rule dc_Get_hit [OF Suc.prems(1,2,5,6)])
  define len where "len = (if off + cr_chunkSize r > cr_size r then cr_size r - off else cr_chunkSize r)"
  have len: "0 < len" using Suc.prems(4,9) by (simp add: len_def)
  have d: "drop (nat off) x = []" "\<not> off < 0" using Suc.prems(3) by auto
  obtain r' where f: "fetchChunk env off (r, Some dc) = (None, r', Some dc')" and r': "cr_bufLen r' = 0" "cr_s3Key r' = cr_s3Key r"
      "cr_etag r' = cr_etag r" "cr_size r' = cr_size r" "cr_chunkSize r' = cr_chunkSize r"
    using len d g(1) Suc.prems(7,8)
    by (simp add: fetchChunk_def len_def [symmetric] uses_cache_def ReadFull_def)
  have "read_loop fuel env p out off r' (Some dc') = None"
    by (rule Suc.IH) (use Suc.prems g r' in \<open>simp_all add: in_buf_def\<close>)
  with f Suc.prems(4,10,11) show ?case by (simp add: read_loop.simps)
qed (simp add: read_loop.simps)

text \<open>
  C37. The reader can hang: when the first read of a small file is in its second half, the cached
  tail is shorter than the offset, and every later reader of this version that reads at that
  offset loops for ever (\<^verbatim>\<open>reader.go:76\<close>), as no number of rounds of the loop gives a result.
  The data cache of the server never expires entries, so it stays this way.
\<close>
theorem poisoned_read_never_returns:
  assumes "s3_reads (re_api env) objs" and "objs (re_world env) key = Some obj" and "re_read env = (\<lambda>x. \<lparr>rd_data = x, rd_err = None\<rparr>)"
    and "dc_inv dc" and "dc_view dc (cacheKey key etag) = None" and "put_io_ok (re_io env off)" and "\<forall>p. os_open_ok (re_os env) p"
    and "int (length (so_data obj)) \<le> dcc_MaxSize (dc_config dc)" and "dcc_DataTTL (dc_config dc) = 0"
    and "etag \<noteq> []" and "int (length (so_data obj)) \<le> smallFile"
    and "int (length (so_data obj)) \<le> 2 * off" and "0 < p" and "off + int p \<le> int (length (so_data obj))"
  shows "\<exists>r1 dc1.
     ReadAt 2 env p off (newChunkReader key (int (length (so_data obj))) etag, Some dc) =
       Some (expected_read (so_data obj) p off, r1, Some dc1) \<and>
     (\<forall>fuel q. 0 < q \<longrightarrow> ReadAt fuel env q off (newChunkReader key (int (length (so_data obj))) etag, Some dc1) = None)"
proof -
  let ?d = "so_data obj"
  let ?r = "newChunkReader key (int (length ?d)) etag"
  have off: "0 < off" "off < int (length ?d)" using assms(12-14) by simp_all
  have ttl: "0 \<le> dcc_DataTTL (dc_config dc)" using assms(9) by simp
  obtain r1 dc1 dc2 where first: "ReadAt 2 env p off (?r, Some dc) = Some (expected_read ?d p off, r1, Some dc1)"
    and dc1: "dc_inv dc1" "dc_config dc1 = dc_config dc" "dc_view dc1 (cacheKey key etag) = Some (drop (nat off) ?d)"
    by (rule first_read_caches_tail [OF assms(1,2,4-8) ttl assms(10,11) off(1) assms(13,14)])
  have t: "track off ?r = ?r" using off(1) by (simp add: track_def newChunkReader_def)
  have "read_loop fuel env q [] off ?r (Some dc1) = None" if "0 < q" for fuel q
    by (rule short_copy_loops [OF dc1(1), where x = "drop (nat off) ?d"])
       (use dc1 assms off that in \<open>simp_all add: in_buf_def newChunkReader_def chunkSize1MB_def\<close>)
  then have "\<forall>fuel q. 0 < q \<longrightarrow> ReadAt fuel env q off (?r, Some dc1) = None"
    using off(2) t by (simp add: ReadAt_def)
  with first show ?thesis by blast
qed

theorem poisoned_read_never_returns_witness:
  "\<exists>r1 dc1. ReadAt 2 ex_env 5 6 (newChunkReader ''k'' 11 ''e'', Some dc_empty) = Some ((''world'', Some EOF), r1, Some dc1) \<and>
     (\<forall>fuel. ReadAt fuel ex_env 5 6 (newChunkReader ''k'' 11 ''e'', Some dc1) = None)"
proof -
  have r: "re_read ex_env = (\<lambda>x. \<lparr>rd_data = x, rd_err = None\<rparr>)" by (simp add: ex_env_def)
  have c: "dcc_DataTTL (dc_config dc_empty) = 0" "11 \<le> dcc_MaxSize (dc_config dc_empty)" "\<forall>p. os_open_ok os_fine p" "put_io_ok io_fine"
    by (simp_all add: dc_empty_def DefaultDataCacheConfig_def defaultDataCacheMaxSize_def os_fine_def io_fine_def put_io_ok_def)
  from poisoned_read_never_returns [OF ex_env_ok(1,6) r, of dc_empty "''e''" 6 5] c show ?thesis
    by (auto simp: ex_env_ok(4,5) dc_empty_ok smallFile_def expected_read_def)
qed

lemma fetchChunk_uncached:
  assumes "\<not> uses_cache r dco" and "len = (if off + cr_chunkSize r > cr_size r then cr_size r - off else cr_chunkSize r)" and "0 < len"
  shows "fetchChunk env off (r, dco) = fetch_s3 env off len (r, dco)"
  using assms by (simp add: fetchChunk_def)

text \<open>
  A fetch that fails while its body is being read (\<^verbatim>\<open>reader.go:158-165\<close>) has already overwritten
  the buffer but leaves \<open>bufStart\<close> and \<open>bufLen\<close>: a later read inside the old range succeeds
  and returns the first bytes of the failed chunk.
\<close>
theorem failed_fetch_corrupts_buffer:
  assumes "in_buf off r" and "\<not> in_buf off' r" and "off' < cr_size r" and "\<not> uses_cache r dco" and "0 < q"
    and "\<forall>len > 0. GetObjectRange (re_api env) (cr_s3Key r) off' len (re_world env) = Inr \<lparr>rd_data = x, rd_err = Some e\<rparr>"
    and "e \<noteq> EOF" and "e \<noteq> ErrUnexpectedEOF" and "int (length x) < chunkSize1MB" and "off' + int (length x) < cr_size r"
    and "chunkSize1MB \<le> cr_chunkSize r" and "0 < p" and "cr_bufStart r + cr_bufLen r \<le> cr_size r"
    and "off + int p \<le> cr_bufStart r + int (length x)" and "off + int p \<le> cr_bufStart r + cr_bufLen r"
  shows "\<exists>r1 r2 eo. ReadAt 1 env q off' (r, dco) = Some (([], Some (Wrap ''read chunk'' e)), r1, dco) \<and>
           ReadAt 1 env p off (r1, dco) = Some ((take p (drop (nat (off - cr_bufStart r)) x), eo), r2, dco)"
proof -
  let ?t = "track off' r"
  define len where "len = (if off' + cr_chunkSize ?t > cr_size ?t then cr_size ?t - off' else cr_chunkSize ?t)"
  let ?rfst = "?t\<lparr>cr_arr := fill_buf (nat len) (cr_arr ?t) x\<rparr>"
  have tf: "cr_s3Key (track o' r') = cr_s3Key r'" "cr_etag (track o' r') = cr_etag r'" "cr_size (track o' r') = cr_size r'"
    "cr_bufStart (track o' r') = cr_bufStart r'" "cr_bufLen (track o' r') = cr_bufLen r'" "cr_arr (track o' r') = cr_arr r'" for o' r'
    by (simp_all add: track_def adaptChunkSize_def)
  have tc: "chunkSize1MB \<le> cr_chunkSize ?t"
    using assms(11) by (simp add: track_def adaptChunkSize_def chunkSize1MB_def chunkSize4MB_def chunkSize16MB_def)
  have len: "0 < len" "length x < nat len"
    using tc assms(3,9,10) by (auto simp: chunkSize1MB_def len_def tf)
  have "ReadFull (nat len) \<lparr>rd_data = x, rd_err = Some e\<rparr> = (x, Some e)"
    using len assms(7) by (simp add: ReadFull_def Let_def)
  then have "fetch_s3 env off' len (?t, dco) = (Some (Wrap ''read chunk'' e), ?rfst, dco)"
    using assms(6-8) len by (simp add: fetch_s3_def tf)
  then have f: "fetchChunk env off' (?t, dco) = (Some (Wrap ''read chunk'' e), ?rfst, dco)"
    using fetchChunk_uncached [of ?t dco len off' env] assms(4) len by (simp add: uses_cache_def tf len_def)
  have nb: "\<not> in_buf off' ?t" using assms(2) by (simp add: in_buf_def tf)
  have r1: "ReadAt 1 env q off' (r, dco) = Some (([], Some (Wrap ''read chunk'' e)), ?rfst, dco)"
    using assms(3,5) f nb by (simp add: ReadAt_def tf read_loop.simps split del: if_split)
  let ?tnext = "track off ?rfst"
  have b: "cr_bufStart ?tnext = cr_bufStart r" "cr_bufLen ?tnext = cr_bufLen r" "cr_size ?tnext = cr_size r" by (simp_all add: tf)
  let ?k = "nat (off - cr_bufStart r)"
  have k: "?k + p \<le> length x" "?k + p \<le> nat (cr_bufLen r)" using assms(1,12,14,15) by (auto simp: in_buf_def)
  have c: "take p (drop ?k (take (nat (cr_bufLen r)) (cr_arr ?tnext))) = take p (drop ?k x)"
    by (rule take_prefix_part) (use k in \<open>simp_all add: tf take_fill_buf\<close>)
  have lc: "length (take p (drop ?k x)) = p" using k by simp
  have "in_buf off ?tnext" "off < cr_size r" using assms(1,13) b by (auto simp: in_buf_def)
  then have "read_loop 1 env p [] off ?tnext dco = Some (None, take p (drop ?k x), off + int p, ?tnext, dco)"
    using c lc assms(12) b by (simp add: read_loop.simps Let_def del: length_take length_drop take_drop)
  then have "\<exists>r2 eo. ReadAt 1 env p off (?rfst, dco) = Some ((take p (drop ?k x), eo), r2, dco)"
    using \<open>off < cr_size r\<close> lc assms(12) by (auto simp: ReadAt_def tf Let_def)
  with r1 show ?thesis by blast
qed

text \<open>A reader of a 2 MB object holding its first chunk, and a store whose ranges break off.\<close>

definition ex_chunk :: bytes where
  "ex_chunk = replicate 1048576 CHR ''a''"

definition ex_reader :: chunkReader where
  "ex_reader = (newChunkReader ''k'' 2097152 [])\<lparr>cr_arr := ex_chunk, cr_bufLen := 1048576\<rparr>"

definition broken_env :: "memstore renv" where
  "broken_env = ex_env\<lparr>re_api := mem_api\<lparr>GetObjectRange := \<lambda>_ _ _ _. Inr \<lparr>rd_data = ''bbbb'', rd_err = Some (Errorf ''reset'')\<rparr>\<rparr>\<rparr>"

lemma ex_reader_simps [simp]:
  "cr_s3Key ex_reader = ''k''" "cr_size ex_reader = 2097152" "cr_bufStart ex_reader = 0" "cr_bufLen ex_reader = 1048576"
  "cr_chunkSize ex_reader = 1048576" "cr_etag ex_reader = []"
  by (simp_all add: ex_reader_def newChunkReader_def chunkSize1MB_def)

theorem failed_fetch_corrupts_buffer_witness:
  "\<exists>r1 r2 eo. ReadAt 1 broken_env 8 1500000 (ex_reader, None) = Some (([], Some (Wrap ''read chunk'' (Errorf ''reset''))), r1, None) \<and>
     ReadAt 1 broken_env 3 0 (r1, None) = Some ((''bbb'', eo), r2, None)"
  using failed_fetch_corrupts_buffer [of 0 ex_reader 1500000 None 8 broken_env "''bbbb''" "Errorf ''reset''" 3]
  by (simp add: in_buf_def uses_cache_def broken_env_def chunkSize1MB_def)

end
