(* ===== verification/Files.thy ===== *)
theory Files
  imports FsState ChunkReader
begin

text \<open>
  Open files (\<^verbatim>\<open>internal/s3fs/file.go\<close>): \<open>s3File\<close> for reading objects and listing directories,
  \<open>s3WritableFile\<close> for files opened with a write flag, buffered in a local temporary file that
  is uploaded when the file is closed, and \<open>dirFile\<close>.

  Operations take the file and the filesystem and return both updated. The temporary file is
  its bytes and its offset; failures of the system calls on it are inputs, as are those of the
  network. \<open>posix_step\<close> is the specification of a file a client expects, and the writable file
  refines it.
\<close>

subsection \<open>Temporary files\<close>

record tmpfile =
  tf_data :: bytes
  tf_pos :: nat

text \<open>
  The failures of one operation's system calls; a failing write or copy has written some
  bytes.
\<close>

record tmp_io =
  ti_create :: "err option"
  ti_copy :: "(nat \<times> err) option"
  ti_seek :: "err option"
  ti_read :: "err option"
  ti_write :: "(nat \<times> err) option"
  ti_trunc :: "err option"
  ti_stat :: "err option"

definition tmp_ok :: tmp_io where
  "tmp_ok = \<lparr>ti_create = None, ti_copy = None, ti_seek = None, ti_read = None, ti_write = None, ti_trunc = None, ti_stat = None\<rparr>"

text \<open>Writing at an offset; a gap before it reads as zeros.\<close>

definition write_at :: "nat \<Rightarrow> bytes \<Rightarrow> bytes \<Rightarrow> bytes" where
  "write_at pos x d = take pos (d @ replicate (pos - length d) (char_of (0::nat))) @ x @ drop (pos + length x) d"

definition tmp_write :: "bytes \<Rightarrow> tmpfile \<Rightarrow> tmpfile" where
  "tmp_write x t = t\<lparr>tf_data := (if x = [] then tf_data t else write_at (tf_pos t) x (tf_data t)), tf_pos := tf_pos t + length x\<rparr>"

definition tmp_Read :: "nat \<Rightarrow> tmpfile \<Rightarrow> (bytes \<times> err option) \<times> tmpfile" where
  "tmp_Read n t =
     (if n = 0 then (([], None), t)
      else let x = take n (drop (tf_pos t) (tf_data t))
           in if x = [] then (([], Some EOF), t) else ((x, None), t\<lparr>tf_pos := tf_pos t + length x\<rparr>))"

text \<open>\<open>Seek\<close>; the values of \<open>whence\<close> are those of package \<open>io\<close>.\<close>

definition SeekStart :: int where "SeekStart = 0"
definition SeekCurrent :: int where "SeekCurrent = 1"
definition SeekEnd :: int where "SeekEnd = 2"

definition tmp_Seek :: "int \<Rightarrow> int \<Rightarrow> tmpfile \<Rightarrow> int result \<times> tmpfile" where
  "tmp_Seek offset whence t =
     (let pos = (if whence = SeekStart then offset
                 else if whence = SeekCurrent then int (tf_pos t) + offset
                 else int (length (tf_data t)) + offset)
      in if whence \<notin> {SeekStart, SeekCurrent, SeekEnd} \<or> pos < 0 then (Inl (Wrap ''seek'' ErrInvalid), t)
         else (Inr pos, t\<lparr>tf_pos := nat pos\<rparr>))"

subsection \<open>Files opened for reading\<close>

record s3File =
  sf_path :: string
  sf_s3Key :: string
  sf_info :: fileInfo
  sf_isDir :: bool
  sf_writable :: bool
  sf_offset :: int
  sf_chunked :: "chunkReader option"
  sf_closed :: bool
  sf_etag :: string

text \<open>The surroundings a chunk reader sees; \<open>rio\<close> has the outcomes of its system calls.\<close>

definition file_renv ::
  "('w, 'db) fsenv \<Rightarrow> (int \<Rightarrow> put_io) \<times> (bytes \<Rightarrow> reader) \<Rightarrow> ('w, 'db) S3FS \<Rightarrow> 'w renv" where
  "file_renv env rio fs = \<lparr>re_api = fe_s3 env, re_world = fs_world fs, re_now = fe_now env, re_os = fe_os env,
     re_io = fst rio, re_read = snd rio\<rparr>"

definition sf_Read ::
  "nat \<Rightarrow> ('w, 'db) fsenv \<Rightarrow> (int \<Rightarrow> put_io) \<times> (bytes \<Rightarrow> reader) \<Rightarrow> nat \<Rightarrow> s3File \<times> ('w, 'db) S3FS \<Rightarrow>
     ((bytes \<times> err option) \<times> s3File \<times> ('w, 'db) S3FS) option" where
  "sf_Read fuel env rio p = (\<lambda>(f, fs).
     if sf_closed f then Some (([], Some ErrClosed), f, fs)
     else if sf_isDir f then Some (([], Some (Errorf ''cannot read directory'')), f, fs)
     else let r = (case sf_chunked f of
                     None \<Rightarrow> newChunkReader (sf_s3Key f) (fi_size (sf_info f)) (sf_etag f)
                   | Some r \<Rightarrow> r)
          in case ReadAt fuel (file_renv env rio fs) p (sf_offset f) (r, fs_dataCache fs) of
               None \<Rightarrow> None
             | Some ((x, e), r', dco) \<Rightarrow>
                 Some ((x, e), f\<lparr>sf_chunked := Some r', sf_offset := sf_offset f + int (length x)\<rparr>, fs\<lparr>fs_dataCache := dco\<rparr>))"

definition sf_Write :: "bytes \<Rightarrow> s3File \<Rightarrow> int result" where
  "sf_Write p f = Inl (Errorf ''write not supported yet'')"

definition sf_Seek :: "int \<Rightarrow> int \<Rightarrow> s3File \<Rightarrow> int result \<times> s3File" where
  "sf_Seek offset whence f =
     (let newOffset = (if whence = SeekStart then offset
                       else if whence = SeekCurrent then sf_offset f + offset
                       else fi_size (sf_info f) + offset)
      in if whence \<notin> {SeekStart, SeekCurrent, SeekEnd} then (Inl (Errorf (''invalid whence: '' @ Itoa whence)), f)
         else if newOffset < 0 then (Inl (Errorf ''negative offset''), f)
         else case sf_chunked f of
                Some r \<Rightarrow>
                  if newOffset \<noteq> sf_offset f
                  then case SeekTo newOffset r of
                         (Some e, r') \<Rightarrow> (Inl e, f\<lparr>sf_chunked := Some r'\<rparr>)
                       | (None, r') \<Rightarrow> (Inr newOffset, f\<lparr>sf_chunked := Some r', sf_offset := newOffset\<rparr>)
                  else (Inr newOffset, f\<lparr>sf_offset := newOffset\<rparr>)
              | None \<Rightarrow> (Inr newOffset, f\<lparr>sf_offset := newOffset\<rparr>))"

definition sf_Truncate ::
  "('w, 'db) fsenv \<Rightarrow> s3File \<times> ('w, 'db) S3FS \<Rightarrow> err option \<times> s3File \<times> ('w, 'db) S3FS" where
  "sf_Truncate env = (\<lambda>(f, fs).
     if sf_closed f then (Some ErrClosed, f, fs)
     else if \<not> sf_writable f then (Some (Errorf (''truncate '' @ sf_path f @ '': read-only file descriptor'')), f, fs)
     else case PutObject (fe_s3 env) (sf_s3Key f) [] 0 (posixMetadata DefaultUID DefaultGID DefaultFileMode) (fs_world fs) of
            (Some e, w) \<Rightarrow> (Some (Wrap ''truncate'' e), f, fs\<lparr>fs_world := w\<rparr>)
          | (None, w) \<Rightarrow>
              let f' = f\<lparr>sf_info := (sf_info f)\<lparr>fi_size := 0\<rparr>, sf_offset := 0, sf_chunked := None\<rparr>;
                  (e, fs') = dataCacheInvalidate env (sf_s3Key f) (cacheInvalidate (sf_s3Key f) (fs\<lparr>fs_world := w\<rparr>))
              in (e, f', fs'))"

definition sf_Close :: "s3File \<Rightarrow> err option \<times> s3File" where
  "sf_Close f =
     (if sf_closed f then (None, f)
      else (None, f\<lparr>sf_closed := True, sf_chunked := map_option cr_Close (sf_chunked f)\<rparr>))"

subsection \<open>Listing a directory\<close>

fun readdir_cached ::
  "('w, 'db) fsenv \<Rightarrow> CacheEntry list \<Rightarrow> fileInfo list \<Rightarrow> ('w, 'db) S3FS \<Rightarrow> fileInfo list result \<times> ('w, 'db) S3FS" where
  "readdir_cached env [] infos fs = (Inr infos, fs)"
| "readdir_cached env (ce # ces) infos fs =
     (let name = nameFromS3Key (ce_S3Key ce)
      in if name = [] then readdir_cached env ces infos fs
         else case fs_inode env (ce_S3Key ce) fs of
                (Inl e, fs') \<Rightarrow> (Inl (Wrap (''allocate inode for '' @ quoted (ce_S3Key ce)) e), fs')
              | (Inr inode, fs') \<Rightarrow> readdir_cached env ces (infos @ [cacheEntryToFileInfo ce name inode]) fs')"

fun readdir_s3 ::
  "('w, 'db) fsenv \<Rightarrow> string \<Rightarrow> ListEntry list \<Rightarrow> fileInfo list \<Rightarrow> CacheEntry list \<Rightarrow> ('w, 'db) S3FS \<Rightarrow>
     (fileInfo list \<times> CacheEntry list) result \<times> ('w, 'db) S3FS" where
  "readdir_s3 env pfx [] infos ces fs = (Inr (infos, ces), fs)"
| "readdir_s3 env pfx (entry # entries) infos ces fs =
     (let name = TrimSuffix (TrimPrefix (le_Key entry) pfx) ''/''
      in if name = [] then readdir_s3 env pfx entries infos ces fs
         else let isDir = (le_IsDir entry \<or> HasSuffix (le_Key entry) ''/'')
              in case fs_inode env (le_Key entry) fs of
                   (Inl e, fs1) \<Rightarrow> (Inl (Wrap (''allocate inode for '' @ quoted (le_Key entry)) e), fs1)
                 | (Inr inode, fs1) \<Rightarrow>
                     let meta = (if isDir then Map.empty
                                 else case HeadObject (fe_s3 env) (le_Key entry) (fs_world fs1) of
                                        Inl _ \<Rightarrow> Map.empty | Inr i \<Rightarrow> oi_UserMetadata i);
                         fi = newFileInfoFromS3 name (le_Size entry) (le_LastModified entry) isDir inode meta
                     in readdir_s3 env pfx entries (infos @ [fi]) (ces @ [infoToCacheEntry (le_Key entry) fi])
                          (cachePut env (le_Key entry) fi fs1))"

definition limit_count :: "int \<Rightarrow> 'a list \<Rightarrow> 'a list" where
  "limit_count count xs = (if count > 0 \<and> int (length xs) > count then take (nat count) xs else xs)"

definition sf_Readdir ::
  "('w, 'db) fsenv \<Rightarrow> int \<Rightarrow> s3File \<Rightarrow> ('w, 'db) S3FS \<Rightarrow> fileInfo list result \<times> ('w, 'db) S3FS" where
  "sf_Readdir env count f fs =
     (if \<not> sf_isDir f then (Inl (Errorf ''not a directory''), fs)
      else let pfx = (if sf_s3Key f \<noteq> [] \<and> \<not> HasSuffix (sf_s3Key f) ''/'' then sf_s3Key f @ ''/'' else sf_s3Key f)
           in case cacheGetDirListing env pfx fs of
                Some ces \<Rightarrow>
                  (case readdir_cached env ces [] fs of
                     (Inl e, fs') \<Rightarrow> (Inl e, fs')
                   | (Inr infos, fs') \<Rightarrow> (Inr (limit_count count infos), fs'))
              | None \<Rightarrow>
                  (case ListObjects (fe_s3 env) pfx (fs_world fs) of
                     Inl e \<Rightarrow> (Inl e, fs)
                   | Inr entries \<Rightarrow>
                       (case readdir_s3 env pfx entries [] [] fs of
                          (Inl e, fs') \<Rightarrow> (Inl e, fs')
                        | (Inr (infos, ces), fs') \<Rightarrow>
                            (Inr (limit_count count infos), cachePutDirListing env pfx ces fs'))))"

subsection \<open>Files opened for writing\<close>

record s3WritableFile =
  wf_path :: string
  wf_s3Key :: string
  wf_info :: fileInfo
  wf_tmp :: tmpfile
  wf_downloaded :: bool
  wf_closed :: bool

definition newWritableFile :: "tmp_io \<Rightarrow> string \<Rightarrow> string \<Rightarrow> fileInfo \<Rightarrow> s3WritableFile result" where
  "newWritableFile io path s3Key info =
     (case ti_create io of
        Some e \<Rightarrow> Inl (Wrap ''create temp file'' e)
      | None \<Rightarrow> Inr \<lparr>wf_path = path, wf_s3Key = s3Key, wf_info = info, wf_tmp = \<lparr>tf_data = [], tf_pos = 0\<rparr>,
                     wf_downloaded = False, wf_closed = False\<rparr>)"

definition newEmptyWritableFile :: "tmp_io \<Rightarrow> string \<Rightarrow> string \<Rightarrow> fileInfo \<Rightarrow> s3WritableFile result" where
  "newEmptyWritableFile io path s3Key info =
     res_bind (newWritableFile io path s3Key info) (\<lambda>f. Inr (f\<lparr>wf_downloaded := True\<rparr>))"

definition ensureDownloaded ::
  "('w, 'db) fsenv \<Rightarrow> tmp_io \<Rightarrow> ('w, 'db) S3FS \<Rightarrow> s3WritableFile \<Rightarrow> err option \<times> s3WritableFile" where
  "ensureDownloaded env io fs f =
     (if wf_downloaded f then (None, f)
      else case GetObject (fe_s3 env) (wf_s3Key f) (fs_world fs) of
             Inl e \<Rightarrow> (Some (Wrap (''download '' @ wf_s3Key f) e), f)
           | Inr (obj, _) \<Rightarrow>
               let (x, e) = (case ti_copy io of Some (n, e) \<Rightarrow> (take n (rd_data obj), Some e) | None \<Rightarrow> (rd_data obj, rd_err obj));
                   f1 = f\<lparr>wf_tmp := tmp_write x (wf_tmp f)\<rparr>
               in case e of
                    Some e' \<Rightarrow> (Some (Wrap (''buffer '' @ wf_s3Key f @ '' to temp'') e'), f1)
                  | None \<Rightarrow>
                      (case ti_seek io of
                         Some e' \<Rightarrow> (Some (Wrap ''seek after download'' e'), f1)
                       | None \<Rightarrow> (None, f1\<lparr>wf_tmp := (wf_tmp f1)\<lparr>tf_pos := 0\<rparr>, wf_downloaded := True\<rparr>)))"

definition wf_Read ::
  "('w, 'db) fsenv \<Rightarrow> tmp_io \<Rightarrow> ('w, 'db) S3FS \<Rightarrow> nat \<Rightarrow> s3WritableFile \<Rightarrow> (bytes \<times> err option) \<times> s3WritableFile" where
  "wf_Read env io fs n f =
     (if wf_closed f then (([], Some ErrClosed), f)
      else case ensureDownloaded env io fs f of
             (Some e, f') \<Rightarrow> (([], Some e), f')
           | (None, f') \<Rightarrow>
               (case ti_read io of
                  Some e \<Rightarrow> (([], Some e), f')
                | None \<Rightarrow> let (r, t) = tmp_Read n (wf_tmp f') in (r, f'\<lparr>wf_tmp := t\<rparr>)))"

definition wf_Write ::
  "('w, 'db) fsenv \<Rightarrow> tmp_io \<Rightarrow> ('w, 'db) S3FS \<Rightarrow> bytes \<Rightarrow> s3WritableFile \<Rightarrow> (nat \<times> err option) \<times> s3WritableFile" where
  "wf_Write env io fs p f =
     (if wf_closed f then ((0, Some ErrClosed), f)
      else case ensureDownloaded env io fs f of
             (Some e, f') \<Rightarrow> ((0, Some e), f')
           | (None, f') \<Rightarrow>
               let (x, e) = (case ti_write io of Some (n, e) \<Rightarrow> (take n p, Some e) | None \<Rightarrow> (p, None))
               in ((length x, e), f'\<lparr>wf_tmp := tmp_write x (wf_tmp f')\<rparr>))"

definition wf_Seek ::
  "('w, 'db) fsenv \<Rightarrow> tmp_io \<Rightarrow> ('w, 'db) S3FS \<Rightarrow> int \<Rightarrow> int \<Rightarrow> s3WritableFile \<Rightarrow> int result \<times> s3WritableFile" where
  "wf_Seek env io fs offset whence f =
     (if wf_closed f then (Inl ErrClosed, f)
      else case ensureDownloaded env io fs f of
             (Some e, f') \<Rightarrow> (Inl e, f')
           | (None, f') \<Rightarrow>
               (case ti_seek io of
                  Some e \<Rightarrow> (Inl e, f')
                | None \<Rightarrow> let (r, t) = tmp_Seek offset whence (wf_tmp f') in (r, f'\<lparr>wf_tmp := t\<rparr>)))"

definition wf_Truncate :: "tmp_io \<Rightarrow> s3WritableFile \<Rightarrow> err option \<times> s3WritableFile" where
  "wf_Truncate io f =
     (if wf_closed f then (Some ErrClosed, f)
      else let f' = f\<lparr>wf_downloaded := True\<rparr>
           in case ti_trunc io of
                Some e \<Rightarrow> (Some e, f')
              | None \<Rightarrow> (None, f'\<lparr>wf_tmp := (wf_tmp f')\<lparr>tf_data := []\<rparr>\<rparr>))"

definition wf_Readdir :: "s3WritableFile \<Rightarrow> fileInfo list result" where
  "wf_Readdir f = Inl (Errorf ''not a directory'')"

definition wf_Close ::
  "('w, 'db) fsenv \<Rightarrow> tmp_io \<Rightarrow> s3WritableFile \<times> ('w, 'db) S3FS \<Rightarrow> err option \<times> s3WritableFile \<times> ('w, 'db) S3FS" where
  "wf_Close env io = (\<lambda>(f, fs).
     if wf_closed f then (None, f, fs)
     else let f' = f\<lparr>wf_closed := True\<rparr>; size = int (length (tf_data (wf_tmp f))); key = wf_s3Key f
          in case ti_stat io of
               Some e \<Rightarrow> (Some (Wrap ''stat temp file'' e), f', fs)
             | None \<Rightarrow>
                 (case ti_seek io of
                    Some e \<Rightarrow> (Some (Wrap ''seek temp file'' e), f', fs)
                  | None \<Rightarrow>
                      (case PutObject (fe_s3 env) key (tf_data (wf_tmp f)) size (posixMetadata DefaultUID DefaultGID DefaultFileMode) (fs_world fs) of
                         (Some e, w) \<Rightarrow> (Some (Wrap ''upload to S3'' e), f', fs\<lparr>fs_world := w\<rparr>)
                       | (None, w) \<Rightarrow>
                           (case dataCacheInvalidate env key (cacheInvalidateParent key (cacheInvalidate key (fs\<lparr>fs_world := w\<rparr>))) of
                              (Some e, fs1) \<Rightarrow> (Some e, f', fs1)
                            | (None, fs1) \<Rightarrow>
                                (None, f', cachePut env key \<lparr>fi_name = nameFromPath (wf_path f), fi_size = size,
                                   fi_mode = DefaultFileMode, fi_modTime = fe_now env, fi_isDir = False,
                                   fi_inode = fi_inode (wf_info f), fi_numLinks = 1, fi_etag = []\<rparr> fs1)))))"

subsection \<open>Directory placeholders\<close>

record dirFile =
  df_info :: fileInfo
  df_path :: string

definition df_Read :: "nat \<Rightarrow> dirFile \<Rightarrow> bytes result" where "df_Read n f = Inl (Errorf ''cannot read directory'')"
definition df_Write :: "bytes \<Rightarrow> dirFile \<Rightarrow> int result" where "df_Write p f = Inl (Errorf ''cannot write directory'')"
definition df_Seek :: "int \<Rightarrow> int \<Rightarrow> dirFile \<Rightarrow> int result" where "df_Seek offset whence f = Inr 0"
definition df_Truncate :: "dirFile \<Rightarrow> err option" where "df_Truncate f = Some (Errorf ''cannot truncate directory'')"
definition df_Readdir :: "int \<Rightarrow> dirFile \<Rightarrow> fileInfo list result" where "df_Readdir count f = Inr []"

definition listEntryToObjectInfo :: "ListEntry \<Rightarrow> ObjectInfo" where
  "listEntryToObjectInfo entry = \<lparr>oi_Key = le_Key entry, oi_Size = le_Size entry, oi_LastModified = le_LastModified entry,
     oi_ETag = le_ETag entry, oi_ContentType = [], oi_IsDir = le_IsDir entry, oi_UserMetadata = Map.empty\<rparr>"

subsection \<open>The writable file refines a local file\<close>

text \<open>
  The specification: an open file is its content and an offset, and every operation acts on
  it at once.
\<close>

datatype file_op = FRead nat | FWrite bytes | FSeek int int | FTruncate
datatype file_out = ORead bytes "err option" | OWrite nat "err option" | OSeek "int result" | OTruncate "err option"

fun posix_step :: "file_op \<Rightarrow> tmpfile \<Rightarrow> file_out \<times> tmpfile" where
  "posix_step (FRead n) t = (let ((x, e), t') = tmp_Read n t in (ORead x e, t'))"
| "posix_step (FWrite x) t = (OWrite (length x) None, tmp_write x t)"
| "posix_step (FSeek off wh) t = (let (r, t') = tmp_Seek off wh t in (OSeek r, t'))"
| "posix_step FTruncate t = (OTruncate None, t\<lparr>tf_data := []\<rparr>)"

fun wf_step :: "('w, 'db) fsenv \<Rightarrow> ('w, 'db) S3FS \<Rightarrow> file_op \<Rightarrow> s3WritableFile \<Rightarrow> file_out \<times> s3WritableFile" where
  "wf_step env fs (FRead n) f = (let ((x, e), f') = wf_Read env tmp_ok fs n f in (ORead x e, f'))"
| "wf_step env fs (FWrite x) f = (let ((n, e), f') = wf_Write env tmp_ok fs x f in (OWrite n e, f'))"
| "wf_step env fs (FSeek off wh) f = (let (r, f') = wf_Seek env tmp_ok fs off wh f in (OSeek r, f'))"
| "wf_step env fs FTruncate f = (let (e, f') = wf_Truncate tmp_ok f in (OTruncate e, f'))"

text \<open>What an open file stands for, given the object's content: the temporary file once it is filled.\<close>

definition wf_abs :: "bytes \<Rightarrow> s3WritableFile \<Rightarrow> tmpfile" where
  "wf_abs d f = (if wf_downloaded f then wf_tmp f else \<lparr>tf_data = d, tf_pos = 0\<rparr>)"

definition wf_ok :: "s3WritableFile \<Rightarrow> bool" where
  "wf_ok f \<longleftrightarrow> \<not> wf_closed f \<and> (\<not> wf_downloaded f \<longrightarrow> wf_tmp f = \<lparr>tf_data = [], tf_pos = 0\<rparr>)"

lemma tmp_ok_simps [simp]:
  "ti_create tmp_ok = None" "ti_copy tmp_ok = None" "ti_seek tmp_ok = None" "ti_read tmp_ok = None" "ti_write tmp_ok = None"
  "ti_trunc tmp_ok = None" "ti_stat tmp_ok = None"
  by (simp_all add: tmp_ok_def)

lemma tmp_write_fresh [simp]: "tmp_write x \<lparr>tf_data = [], tf_pos = 0\<rparr> = \<lparr>tf_data = x, tf_pos = length x\<rparr>"
  by (simp add: tmp_write_def write_at_def)

lemma ensureDownloaded_ok:
  assumes "wf_ok f" and "GetObject (fe_s3 env) (wf_s3Key f) (fs_world fs) = Inr (\<lparr>rd_data = d, rd_err = None\<rparr>, i)"
  shows "ensureDownloaded env tmp_ok fs f = (None, f\<lparr>wf_tmp := wf_abs d f, wf_downloaded := True\<rparr>)"
  using assms by (simp add: ensureDownloaded_def wf_ok_def wf_abs_def)

lemma wf_step_refines:
  assumes "wf_ok f" and "GetObject (fe_s3 env) (wf_s3Key f) (fs_world fs) = Inr (\<lparr>rd_data = d, rd_err = None\<rparr>, i)"
    and "wf_step env fs x f = (y, f')"
  shows "posix_step x (wf_abs d f) = (y, wf_abs d f')" and "wf_ok f'" and "wf_downloaded f'" and "wf_s3Key f' = wf_s3Key f"
proof -
  note e = ensureDownloaded_ok [OF assms(1,2)]
  have *: "posix_step x (wf_abs d f) = (y, wf_abs d f') \<and> wf_ok f' \<and> wf_downloaded f' \<and> wf_s3Key f' = wf_s3Key f"
    using assms(1,3)
    by (cases x)
       (auto simp: e wf_Read_def wf_Write_def wf_Seek_def wf_Truncate_def wf_ok_def wf_abs_def split: prod.splits)
  then show "posix_step x (wf_abs d f) = (y, wf_abs d f')" "wf_ok f'" "wf_downloaded f'" "wf_s3Key f' = wf_s3Key f"
    by blast+
qed

lemma wf_run_refines:
  assumes "wf_ok f" and "GetObject (fe_s3 env) (wf_s3Key f) (fs_world fs) = Inr (\<lparr>rd_data = d, rd_err = None\<rparr>, i)"
    and "run_ops (wf_step env fs) xs f = (ys, f')"
  shows "run_ops posix_step xs (wf_abs d f) = (ys, wf_abs d f') \<and> wf_ok f' \<and> wf_s3Key f' = wf_s3Key f \<and>
    (xs \<noteq> [] \<longrightarrow> wf_downloaded f')"
  using assms
proof (induction xs arbitrary: f ys f')
  case (Cons x xs)
  obtain y f1 where s: "wf_step env fs x f = (y, f1)" by fastforce
  obtain zs f2 where r: "run_ops (wf_step env fs) xs f1 = (zs, f2)" by fastforce
  note st = wf_step_refines [OF Cons.prems(1,2) s]
  note ih = Cons.IH [OF st(2) _ r]
  have "xs = [] \<Longrightarrow> f2 = f1" using r by simp
  with ih Cons.prems(2,3) st s r show ?case by (cases "xs = []") auto
qed simp

lemma dataCacheInvalidate_frame:
  assumes "dataCacheInvalidate env k fs = (r, fs')"
  shows "fs_world fs' = fs_world fs" "fs_cache fs' = fs_cache fs" "fs_handles fs' = fs_handles fs"
    "fs_entries fs' = fs_entries fs" "fs_listings fs' = fs_listings fs" "fs_keys fs' = fs_keys fs"
  using assms by (auto simp: dataCacheInvalidate_def fs_entries_def fs_listings_def fs_keys_def split: option.splits sum.splits)

lemma dataCacheInvalidate_ok:
  assumes "fs_inv env fs" and "dataCacheInvalidate env k fs = (r, fs')"
  shows "r = None" and "fs_inv env fs'"
proof -
  have "r = None \<and> fs_inv env fs'"
  proof (cases "fs_dataCache fs")
    case None
    with assms show ?thesis by (simp add: dataCacheInvalidate_def)
  next
    case (Some dc)
    obtain dc' where d: "dc_Invalidate (fe_os env) (fe_rng env) k dc = Inr dc'" "dc_inv dc'" "dc_config dc' = dc_config dc"
        "dc_currentSize dc' \<le> dc_currentSize dc" "dc_view dc' \<subseteq>\<^sub>m dc_view dc"
        "dc_recent dc' = filter (\<lambda>e. de_s3Key e \<noteq> k) (dc_recent dc)"
      by (rule dc_Invalidate_ok [OF fs_invD(5) [OF assms(1) Some] fs_invD(2) [OF assms(1)]])
    have "dc_bounded dc'" using d(3,4) fs_invD(6) [OF assms(1) Some] by (simp add: dc_bounded_def)
    with d(1,2) Some assms show ?thesis by (auto simp: dataCacheInvalidate_def fs_inv_def)
  qed
  then show "r = None" "fs_inv env fs'" by simp_all
qed

text \<open>A close that reports success has uploaded the temporary file.\<close>

lemma wf_Close_uploads:
  assumes "s3_ok (fe_s3 env) objs" and "\<not> wf_closed f" and "wf_Close env io (f, fs) = (None, f', fs')"
  obtains obj where "objs (fs_world fs') = (objs (fs_world fs))(wf_s3Key f \<mapsto> obj)" and "so_data obj = tf_data (wf_tmp f)"
    and "so_meta obj = posixMetadata DefaultUID DefaultGID DefaultFileMode"
proof -
  let ?m = "posixMetadata DefaultUID DefaultGID DefaultFileMode"
  obtain w where p: "PutObject (fe_s3 env) (wf_s3Key f) (tf_data (wf_tmp f)) (int (length (tf_data (wf_tmp f)))) ?m (fs_world fs) = (None, w)"
    and w: "fs_world fs' = w"
    using assms(2,3)
    by (auto simp: wf_Close_def Let_def split: option.splits prod.splits if_splits dest!: dataCacheInvalidate_frame(1))
  show thesis
    by (rule store.put_ok [OF assms(1) p]) (use that w in simp)
qed


text \<open>A filesystem over the in-memory store and database, for the examples.\<close>

definition ex_obj :: "bytes \<Rightarrow> s3obj" where
  "ex_obj d = \<lparr>so_data = d, so_mtime = 0, so_etag = ''e'', so_ctype = [], so_meta = Map.empty\<rparr>"

definition ex_fsenv :: "(memstore, memdb) fsenv" where
  "ex_fsenv = \<lparr>fe_s3 = mem_api, fe_bolt = mem_bolt, fe_now = 0, fe_os = os_fine, fe_rng = sorted_range\<rparr>"

definition ex_fs :: "(memstore, memdb) S3FS" where
  "ex_fs = NewS3FS [(''k'', ex_obj ''hello'')] mem_s0 None None"

lemma ex_fs_simps [simp]:
  "fe_s3 ex_fsenv = mem_api" "fe_bolt ex_fsenv = mem_bolt" "fe_now ex_fsenv = 0" "fe_os ex_fsenv = os_fine" "fe_rng ex_fsenv = sorted_range"
  "fs_world ex_fs = [(''k'', ex_obj ''hello'')]" "fs_handles ex_fs = mem_s0" "fs_cache ex_fs = None" "fs_dataCache ex_fs = None"
  "so_data (ex_obj d) = d" "so_meta (ex_obj d) = Map.empty"
  by (simp_all add: ex_fsenv_def ex_fs_def NewS3FS_def ex_obj_def)

lemma ex_get: "GetObject mem_api ''k'' (fs_world ex_fs) = Inr (\<lparr>rd_data = ''hello'', rd_err = None\<rparr>, obj_info ''k'' (ex_obj ''hello''))"
  using mem_api_reads unfolding s3_reads_def by simp

definition ex_info :: fileInfo where
  "ex_info = newFileInfoFromS3 ''k'' 5 0 False 2 Map.empty"


text \<open>
  A download that breaks off is not undone (\<^verbatim>\<open>file.go:299\<close>): the bytes it delivered stay in
  the temporary file with the offset behind them, so when the client tries again the object is
  appended to them and the file reads as the broken part followed by the whole object.
\<close>
theorem download_retry_duplicates:
  assumes "newWritableFile tmp_ok path key info = Inr f"
    and "GetObject (fe_s3 env) key (fs_world fs) = Inr (\<lparr>rd_data = x, rd_err = Some e\<rparr>, i)"
    and "GetObject (fe_s3 env') key (fs_world fs) = Inr (\<lparr>rd_data = d, rd_err = None\<rparr>, i')"
    and "length x + length d \<le> n" and "x @ d \<noteq> []"
  shows "\<exists>f1 f2 e'. wf_Read env tmp_ok fs n f = (([], Some e'), f1) \<and> wf_Read env' tmp_ok fs n f1 = ((x @ d, None), f2)"
proof -
  have f: "f = \<lparr>wf_path = path, wf_s3Key = key, wf_info = info, wf_tmp = \<lparr>tf_data = [], tf_pos = 0\<rparr>, wf_downloaded = False, wf_closed = False\<rparr>"
    using assms(1) by (simp add: newWritableFile_def)
  let ?f = "f\<lparr>wf_tmp := \<lparr>tf_data = x, tf_pos = length x\<rparr>\<rparr>"
  have r: "wf_Read env tmp_ok fs n f = (([], Some (Wrap (''buffer '' @ key @ '' to temp'') e)), ?f)"
    using assms(2) by (simp add: wf_Read_def ensureDownloaded_def f)
  have "tmp_write d \<lparr>tf_data = x, tf_pos = length x\<rparr> = \<lparr>tf_data = x @ d, tf_pos = length x + length d\<rparr>"
    by (simp add: tmp_write_def write_at_def)
  then have "ensureDownloaded env' tmp_ok fs ?f =
      (None, ?f\<lparr>wf_tmp := \<lparr>tf_data = x @ d, tf_pos = 0\<rparr>, wf_downloaded := True\<rparr>)"
    using assms(3) by (simp add: ensureDownloaded_def f)
  then have "\<exists>f2. wf_Read env' tmp_ok fs n ?f = ((x @ d, None), f2)"
    using assms(4,5) by (auto simp: wf_Read_def f tmp_Read_def Let_def)
  with r show ?thesis by blast
qed

definition cut_api :: "memstore S3API" where
  "cut_api = mem_api\<lparr>GetObject := \<lambda>k w. Inr (\<lparr>rd_data = ''hel'', rd_err = Some (Errorf ''reset'')\<rparr>, obj_info k (ex_obj ''hello''))\<rparr>"

theorem download_retry_duplicates_witness:
  "\<exists>f f1 f2 e'. newWritableFile tmp_ok ''/k'' ''k'' ex_info = Inr f \<and>
     wf_Read (ex_fsenv\<lparr>fe_s3 := cut_api\<rparr>) tmp_ok ex_fs 20 f = (([], Some e'), f1) \<and>
     wf_Read ex_fsenv tmp_ok ex_fs 20 f1 = ((''helhello'', None), f2)"
proof -
  obtain f where f: "newWritableFile tmp_ok ''/k'' ''k'' ex_info = Inr f" by (simp add: newWritableFile_def)
  have c: "GetObject (fe_s3 (ex_fsenv\<lparr>fe_s3 := cut_api\<rparr>)) ''k'' (fs_world ex_fs) =
      Inr (\<lparr>rd_data = ''hel'', rd_err = Some (Errorf ''reset'')\<rparr>, obj_info ''k'' (ex_obj ''hello''))"
    by (simp add: cut_api_def)
  from download_retry_duplicates [OF f c, of ex_fsenv "''hello''" _ 20] ex_get f show ?thesis by auto
qed

end
