(* ===== verification/FileSystem.thy ===== *)
theory FileSystem
  imports Files
begin

unbundle bit_operations_syntax

text \<open>
  The operations of the filesystem (\<^verbatim>\<open>internal/s3fs/filesystem.go\<close>, \<^verbatim>\<open>internal/s3fs/copy.go\<close>):
  each handler takes the surroundings, its arguments and the state, and returns its result and
  the new state, on every branch of the source. The lemmas show what a client sees: renames
  that do not lose data, attributes that agree with the bucket, handles that lead back to their
  path, and the cases where they do not.
\<close>

subsection \<open>Attributes of the filesystem\<close>

record Attributes =
  at_LinkSupport :: bool
  at_SymlinkSupport :: bool
  at_ChownRestricted :: bool
  at_MaxName :: int
  at_MaxRead :: int
  at_MaxWrite :: int
  at_NoTrunc :: bool

definition fs_Attributes :: Attributes where
  "fs_Attributes = \<lparr>at_LinkSupport = False, at_SymlinkSupport = True, at_ChownRestricted = True, at_MaxName = 1024,
     at_MaxRead = 1048576, at_MaxWrite = 1048576, at_NoTrunc = True\<rparr>"

subsection \<open>Opening files\<close>

datatype nfsFile = ReadFile s3File | WriteFile s3WritableFile

definition O_RDONLY :: int where "O_RDONLY = 0"
definition O_WRONLY :: int where "O_WRONLY = 1"
definition O_RDWR :: int where "O_RDWR = 2"
definition O_CREATE :: int where "O_CREATE = 64"

definition writable_flags :: "int \<Rightarrow> bool" where
  "writable_flags flags \<longleftrightarrow> flags AND (O_WRONLY OR O_RDWR OR O_CREATE) \<noteq> 0"

definition new_s3File :: "string \<Rightarrow> string \<Rightarrow> fileInfo \<Rightarrow> bool \<Rightarrow> string \<Rightarrow> s3File" where
  "new_s3File path s3Key info isDir etag = \<lparr>sf_path = path, sf_s3Key = s3Key, sf_info = info, sf_isDir = isDir,
     sf_writable = False, sf_offset = 0, sf_chunked = None, sf_closed = False, sf_etag = etag\<rparr>"

text \<open>The inode of the root; an error of the handle store is ignored and leaves 0.\<close>

definition root_info :: "('w, 'db) fsenv \<Rightarrow> ('w, 'db) S3FS \<Rightarrow> fileInfo \<times> ('w, 'db) S3FS" where
  "root_info env fs =
     (let (r, fs') = fs_inode env [] fs
      in (newDirInfo (fe_now env) ''/'' (case r of Inl _ \<Rightarrow> 0 | Inr i \<Rightarrow> i), fs'))"

text \<open>Opening a path that is not an object, as a directory.\<close>

definition open_dir :: "('w, 'db) fsenv \<Rightarrow> string \<Rightarrow> string \<Rightarrow> ('w, 'db) S3FS \<Rightarrow> nfsFile result \<times> ('w, 'db) S3FS" where
  "open_dir env path dirKey fs =
     (if (case ListObjects (fe_s3 env) dirKey (fs_world fs) of Inl _ \<Rightarrow> False | Inr entries \<Rightarrow> entries \<noteq> [])
      then case fs_inode env dirKey fs of
             (Inl e, fs') \<Rightarrow> (Inl e, fs')
           | (Inr inode, fs') \<Rightarrow>
               let info = newDirInfo (fe_now env) (nameFromPath path) inode
               in (Inr (ReadFile (new_s3File path dirKey info True [])), cachePut env dirKey info fs')
      else case HeadObject (fe_s3 env) dirKey (fs_world fs) of
             Inl _ \<Rightarrow> (Inl ErrNotExist, fs)
           | Inr objInfo \<Rightarrow>
               (case fs_inode env dirKey fs of
                  (Inl e, fs') \<Rightarrow> (Inl e, fs')
                | (Inr inode, fs') \<Rightarrow>
                    let info = newFileInfoFromS3 (nameFromPath path) (oi_Size objInfo) (oi_LastModified objInfo) True inode (oi_UserMetadata objInfo)
                    in (Inr (ReadFile (new_s3File path dirKey info True [])), cachePut env dirKey info fs')))"

text \<open>Creating a file: an empty placeholder is stored at once.\<close>

definition open_new ::
  "('w, 'db) fsenv \<Rightarrow> tmp_io \<Rightarrow> string \<Rightarrow> string \<Rightarrow> ('w, 'db) S3FS \<Rightarrow> nfsFile result \<times> ('w, 'db) S3FS" where
  "open_new env io path s3Key fs =
     (case fs_inode env s3Key fs of
        (Inl e, fs1) \<Rightarrow> (Inl e, fs1)
      | (Inr inode, fs1) \<Rightarrow>
          (case PutObject (fe_s3 env) s3Key [] 0 (posixMetadata DefaultUID DefaultGID DefaultFileMode) (fs_world fs1) of
             (Some e, w) \<Rightarrow> (Inl (Wrap ''create empty placeholder'' e), fs1\<lparr>fs_world := w\<rparr>)
           | (None, w) \<Rightarrow>
               let info = newFileInfoFromS3 (nameFromPath path) 0 (fe_now env) False inode Map.empty;
                   fs2 = cacheInvalidateParent s3Key (cachePut env s3Key info (fs1\<lparr>fs_world := w\<rparr>))
               in (case newEmptyWritableFile io path s3Key info of Inl e \<Rightarrow> Inl e | Inr f \<Rightarrow> Inr (WriteFile f), fs2)))"

definition OpenFile ::
  "('w, 'db) fsenv \<Rightarrow> tmp_io \<Rightarrow> string \<Rightarrow> int \<Rightarrow> uint32 \<Rightarrow> ('w, 'db) S3FS \<Rightarrow> nfsFile result \<times> ('w, 'db) S3FS" where
  "OpenFile env io path flags perm fs =
     (let s3Key = s3KeyFromPath path; writable = writable_flags flags
      in if s3Key = []
         then let (info, fs') = root_info env fs in (Inr (ReadFile (new_s3File ''/'' [] info True [])), fs')
         else case HeadObject (fe_s3 env) s3Key (fs_world fs) of
                Inr objInfo \<Rightarrow>
                  (case fs_inode env s3Key fs of
                     (Inl e, fs') \<Rightarrow> (Inl e, fs')
                   | (Inr inode, fs') \<Rightarrow>
                       let info = newFileInfoFromS3WithETag (nameFromPath path) (oi_Size objInfo) (oi_LastModified objInfo) False inode
                                    (oi_UserMetadata objInfo) (oi_ETag objInfo)
                       in (if writable
                           then case newWritableFile io path s3Key info of Inl e \<Rightarrow> Inl e | Inr f \<Rightarrow> Inr (WriteFile f)
                           else Inr (ReadFile (new_s3File path s3Key info False (oi_ETag objInfo))),
                           cachePut env s3Key info fs'))
              | Inl _ \<Rightarrow>
                  if writable then open_new env io path s3Key fs
                  else open_dir env path (s3DirKey s3Key) fs)"

definition fs_Open :: "('w, 'db) fsenv \<Rightarrow> tmp_io \<Rightarrow> string \<Rightarrow> ('w, 'db) S3FS \<Rightarrow> nfsFile result \<times> ('w, 'db) S3FS" where
  "fs_Open env io path fs = OpenFile env io path O_RDONLY 0 fs"

subsection \<open>Stat\<close>

text \<open>The part of \<open>Stat\<close> that asks S3.\<close>

definition stat_s3 ::
  "('w, 'db) fsenv \<Rightarrow> string \<Rightarrow> string \<Rightarrow> string \<Rightarrow> ('w, 'db) S3FS \<Rightarrow> fileInfo result \<times> ('w, 'db) S3FS" where
  "stat_s3 env path s3Key dirKey fs =
     (case HeadObject (fe_s3 env) s3Key (fs_world fs) of
        Inr objInfo \<Rightarrow>
          (case fs_inode env s3Key fs of
             (Inl e, fs') \<Rightarrow> (Inl e, fs')
           | (Inr inode, fs') \<Rightarrow>
               let isDir = (oi_IsDir objInfo \<or> HasSuffix s3Key ''/'');
                   info = newFileInfoFromS3 (nameFromPath path) (oi_Size objInfo) (oi_LastModified objInfo) isDir inode (oi_UserMetadata objInfo)
               in (Inr info, cachePut env s3Key info fs'))
      | Inl _ \<Rightarrow>
          (case HeadObject (fe_s3 env) dirKey (fs_world fs) of
             Inr objInfo \<Rightarrow>
               (case fs_inode env dirKey fs of
                  (Inl e, fs') \<Rightarrow> (Inl e, fs')
                | (Inr inode, fs') \<Rightarrow>
                    let info = newFileInfoFromS3 (nameFromPath path) (oi_Size objInfo) (oi_LastModified objInfo) True inode (oi_UserMetadata objInfo)
                    in (Inr info, cachePut env dirKey info fs'))
           | Inl _ \<Rightarrow>
               if (case ListObjects (fe_s3 env) dirKey (fs_world fs) of Inl _ \<Rightarrow> False | Inr entries \<Rightarrow> entries \<noteq> [])
               then case fs_inode env dirKey fs of
                      (Inl e, fs') \<Rightarrow> (Inl e, fs')
                    | (Inr inode, fs') \<Rightarrow>
                        let info = newDirInfo (fe_now env) (nameFromPath path) inode in (Inr info, cachePut env dirKey info fs')
               else (Inl ErrNotExist, cachePutNegative env dirKey (cachePutNegative env s3Key fs))))"

definition Stat :: "('w, 'db) fsenv \<Rightarrow> string \<Rightarrow> ('w, 'db) S3FS \<Rightarrow> fileInfo result \<times> ('w, 'db) S3FS" where
  "Stat env path fs =
     (let s3Key = s3KeyFromPath path
      in if s3Key = [] then let (info, fs') = root_info env fs in (Inr info, fs')
         else case cacheGet env s3Key fs of
                (Some (Some fi), fs1) \<Rightarrow> (Inr (fi\<lparr>fi_name := nameFromPath path\<rparr>), fs1)
              | (_, fs1) \<Rightarrow>
                  (case cacheGet env (s3DirKey s3Key) fs1 of
                     (Some (Some fi), fs2) \<Rightarrow> (Inr (fi\<lparr>fi_name := nameFromPath path\<rparr>), fs2)
                   | (_, fs2) \<Rightarrow> stat_s3 env path s3Key (s3DirKey s3Key) fs2))"

subsection \<open>Attributes\<close>

text \<open>The object a path names, as a file or else as a directory marker.\<close>

definition find_object :: "('w, 'db) fsenv \<Rightarrow> string \<Rightarrow> ('w, 'db) S3FS \<Rightarrow> (string \<times> ObjectInfo) option" where
  "find_object env s3Key fs =
     (case HeadObject (fe_s3 env) s3Key (fs_world fs) of
        Inr i \<Rightarrow> Some (s3Key, i)
      | Inl _ \<Rightarrow>
          (case HeadObject (fe_s3 env) (s3DirKey s3Key) (fs_world fs) of
             Inr i \<Rightarrow> Some (s3DirKey s3Key, i)
           | Inl _ \<Rightarrow> None))"

definition set_meta ::
  "('w, 'db) fsenv \<Rightarrow> string \<Rightarrow> string \<Rightarrow> meta \<Rightarrow> ('w, 'db) S3FS \<Rightarrow> err option \<times> ('w, 'db) S3FS" where
  "set_meta env label s3Key meta fs =
     (case CopyObjectWithMetadata (fe_s3 env) s3Key meta (fs_world fs) of
        (Some e, w) \<Rightarrow> (Some (Wrap label e), fs\<lparr>fs_world := w\<rparr>)
      | (None, w) \<Rightarrow> (None, cacheInvalidate s3Key (fs\<lparr>fs_world := w\<rparr>)))"

definition Chmod :: "('w, 'db) fsenv \<Rightarrow> string \<Rightarrow> uint32 \<Rightarrow> ('w, 'db) S3FS \<Rightarrow> err option \<times> ('w, 'db) S3FS" where
  "Chmod env path mode fs =
     (case find_object env (s3KeyFromPath path) fs of
        None \<Rightarrow> (Some ErrNotExist, fs)
      | Some (s3Key, objInfo) \<Rightarrow>
          set_meta env ''chmod'' s3Key ((oi_UserMetadata objInfo)(MetaKeyMode \<mapsto> FormatUint (unat (Perm mode)) 8)) fs)"

definition Chown :: "('w, 'db) fsenv \<Rightarrow> string \<Rightarrow> int \<Rightarrow> int \<Rightarrow> ('w, 'db) S3FS \<Rightarrow> err option \<times> ('w, 'db) S3FS" where
  "Chown env path uid gid fs =
     (case find_object env (s3KeyFromPath path) fs of
        None \<Rightarrow> (Some ErrNotExist, fs)
      | Some (s3Key, objInfo) \<Rightarrow>
          let meta1 = (if uid \<ge> 0 then (oi_UserMetadata objInfo)(MetaKeyUID \<mapsto> Itoa uid) else oi_UserMetadata objInfo);
              meta2 = (if gid \<ge> 0 then meta1(MetaKeyGID \<mapsto> Itoa gid) else meta1)
          in set_meta env ''chown'' s3Key meta2 fs)"

subsection \<open>Links\<close>

definition Symlink :: "('w, 'db) fsenv \<Rightarrow> string \<Rightarrow> string \<Rightarrow> ('w, 'db) S3FS \<Rightarrow> err option \<times> ('w, 'db) S3FS" where
  "Symlink env target linkPath fs =
     (if target = [] then (Some (Errorf ''empty symlink target''), fs)
      else if length target > 4080 then (Some (Errorf ''symlink target too long (max 4080 bytes)''), fs)
      else let s3Key = s3KeyFromPath linkPath
           in case HeadObject (fe_s3 env) s3Key (fs_world fs) of
                Inr _ \<Rightarrow> (Some ErrExist, fs)
              | Inl _ \<Rightarrow>
                  (case PutObject (fe_s3 env) s3Key [] 0
                          [MetaKeySymlinkTarget \<mapsto> target, MetaKeyUID \<mapsto> Itoa DefaultUID, MetaKeyGID \<mapsto> Itoa DefaultGID, MetaKeyMode \<mapsto> ''0777'']
                          (fs_world fs) of
                     (Some e, w) \<Rightarrow> (Some (Wrap ''create symlink'' e), fs\<lparr>fs_world := w\<rparr>)
                   | (None, w) \<Rightarrow> (None, cacheInvalidateParent s3Key (fs\<lparr>fs_world := w\<rparr>))))"

definition Readlink :: "('w, 'db) fsenv \<Rightarrow> string \<Rightarrow> ('w, 'db) S3FS \<Rightarrow> string result" where
  "Readlink env path fs =
     (case HeadObject (fe_s3 env) (s3KeyFromPath path) (fs_world fs) of
        Inl _ \<Rightarrow> Inl ErrNotExist
      | Inr objInfo \<Rightarrow>
          let target = symlinkTarget (oi_UserMetadata objInfo)
          in if target = [] then Inl (Errorf ''not a symlink'') else Inr target)"

definition fs_Link :: "string \<Rightarrow> string \<Rightarrow> err option" where
  "fs_Link oldname newname = Some (Errorf ''hard links not supported on S3'')"

subsection \<open>Rename, Remove, MkdirAll, Copy\<close>

text \<open>One branch of \<open>Rename\<close>: copy, delete, and forget what the caches know of both keys.\<close>

definition move_object ::
  "('w, 'db) fsenv \<Rightarrow> string \<Rightarrow> string \<Rightarrow> string \<Rightarrow> string \<Rightarrow> ('w, 'db) S3FS \<Rightarrow> err option \<times> ('w, 'db) S3FS" where
  "move_object env copyMsg delMsg oldKey newKey fs =
     (case CopyObject (fe_s3 env) oldKey newKey (fs_world fs) of
        (Some e, w) \<Rightarrow> (Some (Wrap copyMsg e), fs\<lparr>fs_world := w\<rparr>)
      | (None, w) \<Rightarrow>
          (case DeleteObject (fe_s3 env) oldKey w of
             (Some e, w') \<Rightarrow> (Some (Wrap delMsg e), fs\<lparr>fs_world := w'\<rparr>)
           | (None, w') \<Rightarrow>
               let fs1 = fs_renameKey env oldKey newKey (fs\<lparr>fs_world := w'\<rparr>);
                   fs2 = cacheInvalidateParent newKey (cacheInvalidateParent oldKey (cacheInvalidate newKey (cacheInvalidate oldKey fs1)))
               in case dataCacheInvalidate env oldKey fs2 of
                    (Some e, fs3) \<Rightarrow> (Some e, fs3)
                  | (None, fs3) \<Rightarrow> dataCacheInvalidate env newKey fs3))"

definition Rename :: "('w, 'db) fsenv \<Rightarrow> string \<Rightarrow> string \<Rightarrow> ('w, 'db) S3FS \<Rightarrow> err option \<times> ('w, 'db) S3FS" where
  "Rename env oldpath newpath fs =
     (let oldKey = s3KeyFromPath oldpath; newKey = s3KeyFromPath newpath
      in case HeadObject (fe_s3 env) oldKey (fs_world fs) of
           Inr _ \<Rightarrow> move_object env ''copy object'' ''delete old object'' oldKey newKey fs
         | Inl _ \<Rightarrow>
             (case HeadObject (fe_s3 env) (s3DirKey oldKey) (fs_world fs) of
                Inr _ \<Rightarrow> move_object env ''copy dir marker'' ''delete old dir marker'' (s3DirKey oldKey) (s3DirKey newKey) fs
              | Inl _ \<Rightarrow> (Some ErrNotExist, fs)))"

definition remove_object ::
  "('w, 'db) fsenv \<Rightarrow> string \<Rightarrow> string \<Rightarrow> ('w, 'db) S3FS \<Rightarrow> err option \<times> ('w, 'db) S3FS" where
  "remove_object env msg key fs =
     (case DeleteObject (fe_s3 env) key (fs_world fs) of
        (Some e, w) \<Rightarrow> (Some (Wrap msg e), fs\<lparr>fs_world := w\<rparr>)
      | (None, w) \<Rightarrow>
          dataCacheInvalidate env key (cacheInvalidateParent key (cacheInvalidate key (fs_removeKey env key (fs\<lparr>fs_world := w\<rparr>)))))"

definition Remove :: "('w, 'db) fsenv \<Rightarrow> string \<Rightarrow> ('w, 'db) S3FS \<Rightarrow> err option \<times> ('w, 'db) S3FS" where
  "Remove env path fs =
     (let s3Key = s3KeyFromPath path
      in case HeadObject (fe_s3 env) s3Key (fs_world fs) of
           Inr _ \<Rightarrow> remove_object env ''delete object'' s3Key fs
         | Inl _ \<Rightarrow>
             (case HeadObject (fe_s3 env) (s3DirKey s3Key) (fs_world fs) of
                Inr _ \<Rightarrow> remove_object env ''delete dir marker'' (s3DirKey s3Key) fs
              | Inl _ \<Rightarrow> (Some ErrNotExist, fs)))"

definition MkdirAll :: "('w, 'db) fsenv \<Rightarrow> string \<Rightarrow> uint32 \<Rightarrow> ('w, 'db) S3FS \<Rightarrow> err option \<times> ('w, 'db) S3FS" where
  "MkdirAll env path perm fs =
     (let s3Key = s3KeyFromPath path; dirKey = s3DirKey s3Key
      in case CreateDirMarker (fe_s3 env) dirKey (fs_world fs) of
           (Some e, w) \<Rightarrow> (Some (Wrap ''create dir marker'' e), fs\<lparr>fs_world := w\<rparr>)
         | (None, w) \<Rightarrow>
             (case fs_inode env dirKey (fs\<lparr>fs_world := w\<rparr>) of
                (Inl e, fs1) \<Rightarrow> (Some (Wrap ''allocate inode'' e), fs1)
              | (Inr _, fs1) \<Rightarrow> (None, cacheInvalidateParent dirKey (cacheInvalidate s3Key (cacheInvalidate dirKey fs1)))))"

definition fs_Copy :: "('w, 'db) fsenv \<Rightarrow> string \<Rightarrow> string \<Rightarrow> ('w, 'db) S3FS \<Rightarrow> err option \<times> ('w, 'db) S3FS" where
  "fs_Copy env srcPath dstPath fs =
     (let srcKey = s3KeyFromPath srcPath; dstKey = s3KeyFromPath dstPath
      in case CopyObject (fe_s3 env) srcKey dstKey (fs_world fs) of
           (Some e, w) \<Rightarrow> (Some (Wrap (''copy '' @ srcKey @ '' -> '' @ dstKey) e), fs\<lparr>fs_world := w\<rparr>)
         | (None, w) \<Rightarrow> (None, cacheInvalidateParent dstKey (cacheInvalidate dstKey (fs\<lparr>fs_world := w\<rparr>))))"

subsection \<open>Renaming\<close>

lemma dir_key_distinct:
  assumes "canon_key k"
  shows "k \<noteq> s3DirKey k" and "k' = [] \<or> canon_key k' \<Longrightarrow> k \<noteq> s3DirKey k'"
    and "k' = [] \<or> canon_key k' \<Longrightarrow> k \<noteq> k' \<Longrightarrow> s3DirKey k \<noteq> s3DirKey k'"
  using assms canon_key_last [OF assms] canon_key_Split [OF assms] by (auto simp: s3DirKey_def [of "[]"])

lemma move_object_world:
  assumes "move_object env m1 m2 k k' fs = (r, fs')"
  obtains (copy_failed) e where "CopyObject (fe_s3 env) k k' (fs_world fs) = (Some e, fs_world fs')" "r \<noteq> None"
  | (deleted) rd w where "CopyObject (fe_s3 env) k k' (fs_world fs) = (None, w)" "DeleteObject (fe_s3 env) k w = (rd, fs_world fs')"
      "r = None \<longrightarrow> rd = None"
  using assms
  by (auto simp: move_object_def Let_def split: prod.splits option.splits dest!: dataCacheInvalidate_frame(1))

lemma move_object_no_loss:
  assumes "s3_ok (fe_s3 env) objs" and "objs (fs_world fs) k = Some obj" and "k \<noteq> k'"
    and "move_object env m1 m2 k k' fs = (r, fs')"
  shows "\<exists>x\<in>{k, k'}. \<exists>obj'. objs (fs_world fs') x = Some obj' \<and> so_data obj' = so_data obj \<and> so_meta obj' = so_meta obj"
    and "r = None \<Longrightarrow> objs (fs_world fs') k = None \<and>
           (\<exists>obj'. objs (fs_world fs') k' = Some obj' \<and> so_data obj' = so_data obj \<and> so_meta obj' = so_meta obj)"
    and "x \<noteq> k \<Longrightarrow> x \<noteq> k' \<Longrightarrow> objs (fs_world fs') x = objs (fs_world fs) x"
proof -
  have *: "(\<exists>x\<in>{k, k'}. \<exists>obj'. objs (fs_world fs') x = Some obj' \<and> so_data obj' = so_data obj \<and> so_meta obj' = so_meta obj) \<and>
    (r = None \<longrightarrow> objs (fs_world fs') k = None \<and>
       (\<exists>obj'. objs (fs_world fs') k' = Some obj' \<and> so_data obj' = so_data obj \<and> so_meta obj' = so_meta obj)) \<and>
    (\<forall>x. x \<noteq> k \<longrightarrow> x \<noteq> k' \<longrightarrow> objs (fs_world fs') x = objs (fs_world fs) x)"
    using assms(4)
  proof (cases rule: move_object_world)
    case (copy_failed e)
    from s3_okD(7) [OF assms(1) copy_failed(1)] obtain obj' where
      "outcome (Some e) (objs (fs_world fs)) ((objs (fs_world fs))(k' \<mapsto> obj')) (objs (fs_world fs'))"
      by (auto simp: assms(2))
    with assms(2,3) copy_failed(2) show ?thesis by (auto simp: outcome_def)
  next
    case (deleted rd w)
    note m = store.move_no_loss [OF assms(1-3) deleted(1,2)]
    from m(2,3,4) deleted(3) show ?thesis by blast
  qed
  then show "\<exists>x\<in>{k, k'}. \<exists>obj'. objs (fs_world fs') x = Some obj' \<and> so_data obj' = so_data obj \<and> so_meta obj' = so_meta obj"
    "r = None \<Longrightarrow> objs (fs_world fs') k = None \<and>
           (\<exists>obj'. objs (fs_world fs') k' = Some obj' \<and> so_data obj' = so_data obj \<and> so_meta obj' = so_meta obj)"
    "x \<noteq> k \<Longrightarrow> x \<noteq> k' \<Longrightarrow> objs (fs_world fs') x = objs (fs_world fs) x"
    by blast+
qed



lemma HandleToInode_InodeToHandle [simp]: "HandleToInode (InodeToHandle i) = Inr i"
  by (simp add: HandleToInode_def InodeToHandle_def)

lemma fs_renameKey_inv: "fs_inv env fs \<Longrightarrow> boltable k' \<Longrightarrow> fs_inv env (fs_renameKey env k k' fs)"
  unfolding fs_renameKey_def using fs_invD by (intro fs_inv_handles RenameKey_inv)

text \<open>What a move does after both calls to S3 succeeded.\<close>

lemma move_object_done:
  assumes "fs_inv env fs" and "boltable k'" and "CopyObject (fe_s3 env) k k' (fs_world fs) = (None, w)"
    and "DeleteObject (fe_s3 env) k w = (None, w')"
  obtains fs' where "move_object env m1 m2 k k' fs = (None, fs')" and "fs_inv env fs'" and "fs_world fs' = w'"
    and "fs_handles fs' = snd (RenameKey (fe_bolt env) (fs_handles fs) k k')"
    and "fs_entries fs' \<subseteq>\<^sub>m (fs_entries fs)(k := None, k' := None)"
proof -
  define fs1 where "fs1 = fs_renameKey env k k' (fs\<lparr>fs_world := w'\<rparr>)"
  define fs2 where "fs2 = cacheInvalidateParent k' (cacheInvalidateParent k (cacheInvalidate k' (cacheInvalidate k fs1)))"
  obtain r3 fs3 where d3: "dataCacheInvalidate env k fs2 = (r3, fs3)" by fastforce
  obtain r4 fs4 where d4: "dataCacheInvalidate env k' fs3 = (r4, fs4)" by fastforce
  have i1: "fs_inv env fs1" "fs_entries fs1 = fs_entries fs"
    unfolding fs1_def using assms(1,2) by (simp_all add: fs_renameKey_inv)
  have i2: "fs_inv env fs2" unfolding fs2_def by (intro cache_inv i1)
  note i3 = dataCacheInvalidate_ok [OF i2 d3]
  note i4 = dataCacheInvalidate_ok [OF i3(2) d4]
  note f = dataCacheInvalidate_frame [OF d3] dataCacheInvalidate_frame [OF d4]
  have "move_object env m1 m2 k k' fs = (None, fs4)"
    using assms(3,4) d3 d4 i3(1) i4(1) by (simp add: move_object_def fs1_def fs2_def Let_def)
  moreover have "fs_entries fs4 \<subseteq>\<^sub>m (fs_entries fs)(k := None, k' := None)"
  proof -
    have "fs_entries fs2 \<subseteq>\<^sub>m fs_entries (cacheInvalidate k' (cacheInvalidate k fs1))"
      unfolding fs2_def
      by (rule map_le_trans [OF cacheInvalidateParent_le [of env] cacheInvalidateParent_le [of env]])
         (intro cache_wf_ops fs_inv_cache_wf i1)+
    also have "\<dots> \<subseteq>\<^sub>m (fs_entries (cacheInvalidate k fs1))(k' := None)" by (rule cache_entries(3) [of env]) (intro cache_wf_ops fs_inv_cache_wf i1)
    also have "\<dots> \<subseteq>\<^sub>m ((fs_entries fs1)(k := None))(k' := None)"
      using cache_entries(3) [OF fs_inv_cache_wf [OF i1(1)], of k] by (auto simp: map_le_def)
    finally show ?thesis using f i1(2) by simp
  qed
  moreover have "fs_world fs4 = w'" "fs_handles fs4 = snd (RenameKey (fe_bolt env) (fs_handles fs) k k')"
    using f by (simp_all add: fs2_def fs1_def fs_renameKey_def)
  ultimately show thesis using i4(2) that by blast
qed

lemma move_object_success:
  assumes "fs_inv env fs" and "boltable k'" and "move_object env m1 m2 k k' fs = (None, fs')"
  shows "fs_inv env fs'" "fs_handles fs' = snd (RenameKey (fe_bolt env) (fs_handles fs) k k')"
    "fs_entries fs' \<subseteq>\<^sub>m (fs_entries fs)(k := None, k' := None)"
proof -
  obtain w w' where "CopyObject (fe_s3 env) k k' (fs_world fs) = (None, w)" "DeleteObject (fe_s3 env) k w = (None, w')"
    using assms(3) by (auto simp: move_object_def split: prod.splits option.splits)
  from move_object_done [OF assms(1,2) this, of m1 m2] assms(3)
  show "fs_inv env fs'" "fs_handles fs' = snd (RenameKey (fe_bolt env) (fs_handles fs) k k')"
    "fs_entries fs' \<subseteq>\<^sub>m (fs_entries fs)(k := None, k' := None)"
    by auto
qed


definition ex_fs_a :: "(memstore, memdb) S3FS" where
  "ex_fs_a = NewS3FS [(''a'', ex_obj ''hello'')] mem_s1 (Some (NewMetadataCache DefaultCacheConfig)) (Some dc_empty)"

lemma ex_fs_a_inv: "fs_inv ex_fsenv ex_fs_a"
  by (simp add: fs_inv_def ex_fs_a_def NewS3FS_def mem_bolt_ok mem_s1_inv NewMetadataCache_inv dc_empty_ok)

lemma ex_fs_a_simps [simp]: "fs_world ex_fs_a = [(''a'', ex_obj ''hello'')]" "fs_handles ex_fs_a = mem_s1"
  "fs_cache ex_fs_a = Some (NewMetadataCache DefaultCacheConfig)" "fs_dataCache ex_fs_a = Some dc_empty"
  by (simp_all add: ex_fs_a_def NewS3FS_def)

lemma ex_paths: "s3KeyFromPath ''/a'' = ''a''" "s3KeyFromPath ''/b'' = ''b''" "s3KeyFromPath ''/k'' = ''k''"
  by code_simp+


subsection \<open>Handles lead back to their path\<close>

text \<open>The inode of the result of a lookup belongs to \<open>k\<close> in the state after it.\<close>

definition inode_of :: "string \<Rightarrow> fileInfo \<Rightarrow> ('w, 'db) S3FS \<Rightarrow> bool" where
  "inode_of k fi fs \<longleftrightarrow> fs_keys fs (fi_inode fi) = Some k"

lemma inode_of_cachePut [simp]: "inode_of k fi (cachePut env k' info fs) = inode_of k fi fs"
  by (simp add: inode_of_def)

lemma fs_inode_info:
  assumes "fs_inv env fs" and "boltable k" and "fs_inode env k fs = (Inr i, fs')" and "fi_inode fi = i"
  shows "inode_of k fi fs'"
  using fs_inode_ok(3) [OF assms(1-3)] assms(4) by (auto simp: inode_of_def)

lemma fi_inode_new [simp]:
  "fi_inode (newFileInfoFromS3 name sz t isDir inode meta) = inode" "fi_inode (newDirInfo now name inode) = inode"
  "fi_inode (newFileInfoFromS3WithETag name sz t isDir inode meta etag) = inode"
  by (simp_all add: newFileInfoFromS3_def newDirInfo_def newFileInfoFromS3WithETag_def)

lemma cacheGet_cache_inv:
  assumes "fs_inv env fs" and "fs_cache fs = Some mc"
  shows "fs_inv env (fs\<lparr>fs_cache := Some (snd (GetEntry now k mc))\<rparr>)"
  using assms GetEntry_ok(1) [OF fs_invD(4) [OF assms]] by (simp add: fs_inv_def)

lemma cacheGet_ok:
  assumes "fs_inv env fs" and "boltable k" and "cacheGet env k fs = (r, fs')"
  shows "fs_inv env fs'" and "r = Some (Some fi) \<Longrightarrow> inode_of k fi fs'" and "fs_world fs' = fs_world fs"
    and "fs_entries fs' \<subseteq>\<^sub>m fs_entries fs"
proof -
  have "fs_inv env fs' \<and> (\<forall>fi. r = Some (Some fi) \<longrightarrow> inode_of k fi fs') \<and> fs_world fs' = fs_world fs \<and>
      fs_entries fs' \<subseteq>\<^sub>m fs_entries fs"
  proof (cases "fs_cache fs")
    case None
    with assms show ?thesis by (auto simp: cacheGet_def)
  next
    case (Some mc)
    define fs1 where "fs1 = fs\<lparr>fs_cache := Some (snd (GetEntry (fe_now env) k mc))\<rparr>"
    have i: "fs_inv env fs1" unfolding fs1_def by (rule cacheGet_cache_inv [OF assms(1) Some])
    have e: "fs_entries fs1 \<subseteq>\<^sub>m fs_entries fs"
      using mc_entry_step [OF fs_invD(4) [OF assms(1) Some] fs_invD(2) [OF assms(1)], of "McGet (fe_now env) k"] Some
      by (simp add: fs1_def fs_entries_def)
    have w: "fs_world fs1 = fs_world fs" by (simp add: fs1_def)
    obtain ri fs2 where g: "fs_inode env k fs1 = (ri, fs2)" by fastforce
    note fr = fs_inode_frame [OF g]
    show ?thesis
    proof (cases "fst (GetEntry (fe_now env) k mc)")
      case None
      with Some assms(3) i e w show ?thesis by (auto simp: cacheGet_def fs1_def split: prod.splits)
    next
      case entry: (Some entry)
      show ?thesis
      proof (cases "IsNegative entry")
        case True
        with Some assms(3) entry i e w show ?thesis by (auto simp: cacheGet_def fs1_def split: prod.splits)
      next
        case False
        with Some assms(3) entry g have res: "fs' = fs2" "r = Some (Some fi) \<Longrightarrow> \<exists>j. ri = Inr j \<and> fi_inode fi = j" for fi
          by (auto simp: cacheGet_def fs1_def split: prod.splits sum.splits)
        with fs_inode_ok(1) [OF i assms(2) g] fs_inode_info [OF i assms(2)] g fr e w show ?thesis by auto
      qed
    qed
  qed
  then show "fs_inv env fs'" "r = Some (Some fi) \<Longrightarrow> inode_of k fi fs'" "fs_world fs' = fs_world fs"
    "fs_entries fs' \<subseteq>\<^sub>m fs_entries fs"
    by blast+
qed

lemma boltable_dir [simp]: "boltable (s3DirKey k)"
proof -
  have "s3DirKey k \<noteq> nul_key" by (auto simp: s3DirKey_def nul_key_def HasSuffix_byte)
  then show ?thesis by (simp add: boltable_def)
qed

lemma stat_s3_ok:
  assumes "fs_inv env fs" and "boltable k" and "boltable k'" and "stat_s3 env path k k' fs = (r, fs')"
  shows "fs_inv env fs'" and "r = Inr fi \<Longrightarrow> inode_of k fi fs' \<or> inode_of k' fi fs'" and "fs_world fs' = fs_world fs"
proof -
  obtain ri fs1 where g: "fs_inode env k fs = (ri, fs1)" by fastforce
  obtain ri' fs2 where g': "fs_inode env k' fs = (ri', fs2)" by fastforce
  note fr = fs_inode_frame(1) [OF g] fs_inode_frame(1) [OF g'] fs_inode_ok(1) [OF assms(1,2) g] fs_inode_ok(1) [OF assms(1,3) g']
  note inf = fs_inode_info [OF assms(1,2)] fs_inode_info [OF assms(1,3)]
  have "fs_inv env fs' \<and> (\<forall>fi. r = Inr fi \<longrightarrow> inode_of k fi fs' \<or> inode_of k' fi fs') \<and> fs_world fs' = fs_world fs"
    using assms(1,4) g g' fr inf [where fi = "newFileInfoFromS3 _ _ _ _ _ _"] inf [where fi = "newDirInfo _ _ _"]
    by (auto simp: stat_s3_def Let_def split: sum.splits if_splits intro!: cache_inv)
  then show "fs_inv env fs'" "r = Inr fi \<Longrightarrow> inode_of k fi fs' \<or> inode_of k' fi fs'" "fs_world fs' = fs_world fs"
    by blast+
qed

lemma root_info_ok:
  assumes "fs_inv env fs" and "root_info env fs = (fi, fs')"
  shows "fs_inv env fs'" and "fi_inode fi \<noteq> 0 \<Longrightarrow> inode_of [] fi fs'" and "fs_world fs' = fs_world fs" and "fs_entries fs' = fs_entries fs"
proof -
  obtain r fs1 where g: "fs_inode env [] fs = (r, fs1)" by fastforce
  note ok = fs_inode_ok(1) [OF assms(1) _ g] fs_inode_info [OF assms(1), of "[]"] fs_inode_frame [OF g]
  show "fs_inv env fs'" "fi_inode fi \<noteq> 0 \<Longrightarrow> inode_of [] fi fs'" "fs_world fs' = fs_world fs" "fs_entries fs' = fs_entries fs"
    using assms(2) g ok by (auto simp: root_info_def split: sum.splits)
qed

text \<open>\<open>Stat\<close> answers from the cache entry of the file key, from that of the directory key, or from S3.\<close>

lemma Stat_cases:
  assumes "Stat env path fs = (r, fs')" and "s3KeyFromPath path \<noteq> []"
  obtains (file_hit) fi where "cacheGet env (s3KeyFromPath path) fs = (Some (Some fi), fs')" and "r = Inr (fi\<lparr>fi_name := nameFromPath path\<rparr>)"
  | (dir_hit) c fs1 fi where "cacheGet env (s3KeyFromPath path) fs = (c, fs1)" and "c = None \<or> c = Some None"
      and "cacheGet env (s3DirKey (s3KeyFromPath path)) fs1 = (Some (Some fi), fs')" and "r = Inr (fi\<lparr>fi_name := nameFromPath path\<rparr>)"
  | (s3) c fs1 c' fs2 where "cacheGet env (s3KeyFromPath path) fs = (c, fs1)" and "c = None \<or> c = Some None"
      and "cacheGet env (s3DirKey (s3KeyFromPath path)) fs1 = (c', fs2)" and "c' = None \<or> c' = Some None"
      and "stat_s3 env path (s3KeyFromPath path) (s3DirKey (s3KeyFromPath path)) fs2 = (r, fs')"
proof -
  let ?k = "s3KeyFromPath path"
  obtain c fs1 where c: "cacheGet env ?k fs = (c, fs1)" by fastforce
  obtain c' fs2 where c': "cacheGet env (s3DirKey ?k) fs1 = (c', fs2)" by fastforce
  consider fi where "c = Some (Some fi)" | fi where "c = None \<or> c = Some None" "c' = Some (Some fi)"
    | "c = None \<or> c = Some None" "c' = None \<or> c' = Some None"
    by (cases c; cases c') (metis option.exhaust)+
  then show thesis
  proof cases
    case 1
    then show thesis using assms c file_hit by (simp add: Stat_def)
  next
    case 2
    moreover have "(r, fs') = (Inr (fi\<lparr>fi_name := nameFromPath path\<rparr>), fs2)" using 2 assms c c' by (auto simp: Stat_def)
    ultimately show thesis using c c' by (intro dir_hit) simp_all
  next
    case 3
    then have "stat_s3 env path ?k (s3DirKey ?k) fs2 = (r, fs')" using assms c c' by (auto simp: Stat_def Let_def)
    then show thesis by (rule s3 [OF c 3(1) c' 3(2)])
  qed
qed

lemma Stat_ok:
  assumes "fs_inv env fs" and "boltable (s3KeyFromPath path)" and "Stat env path fs = (r, fs')"
  shows "fs_inv env fs'" and "fs_world fs' = fs_world fs"
    and "r = Inr fi \<Longrightarrow> fi_inode fi \<noteq> 0 \<Longrightarrow> inode_of (s3KeyFromPath path) fi fs' \<or> inode_of (s3DirKey (s3KeyFromPath path)) fi fs'"
proof -
  let ?k = "s3KeyFromPath path" and ?d = "s3DirKey (s3KeyFromPath path)"
  have "fs_inv env fs' \<and> fs_world fs' = fs_world fs \<and>
    (\<forall>fi. r = Inr fi \<longrightarrow> fi_inode fi \<noteq> 0 \<longrightarrow> inode_of ?k fi fs' \<or> inode_of ?d fi fs')"
  proof (cases "?k = []")
    case True
    then obtain fi where ri: "root_info env fs = (fi, fs')" "r = Inr fi"
      using assms(3) by (auto simp: Stat_def split: prod.splits)
    from root_info_ok [OF assms(1) ri(1)] ri(2) True show ?thesis by simp
  next
    case False
    from assms(3) this show ?thesis
    proof (cases rule: Stat_cases)
      case (file_hit fi)
      note a = cacheGet_ok(1,3) [OF assms(1,2) file_hit(1)] cacheGet_ok(2) [OF assms(1,2) file_hit(1) refl]
      with file_hit(2) show ?thesis by (simp add: inode_of_def)
    next
      case (dir_hit c fs1 fi)
      note a = cacheGet_ok(1) [OF assms(1,2) dir_hit(1)]
      note b = cacheGet_ok(1,3) [OF a boltable_dir dir_hit(3)] cacheGet_ok(2) [OF a boltable_dir dir_hit(3) refl]
      with dir_hit(4) cacheGet_ok(3) [OF assms(1,2) dir_hit(1)] show ?thesis by (simp add: inode_of_def)
    next
      case (s3 c fs1 c' fs2)
      note a = cacheGet_ok(1,3) [OF assms(1,2) s3(1)]
      note b = cacheGet_ok(1,3) [OF a(1) boltable_dir s3(3)]
      note st = stat_s3_ok [OF b(1) assms(2) boltable_dir s3(5)]
      from st(1,3) a(2) b(2) st(2) show ?thesis by simp
    qed
  qed
  then show "fs_inv env fs'" "fs_world fs' = fs_world fs"
    "r = Inr fi \<Longrightarrow> fi_inode fi \<noteq> 0 \<Longrightarrow> inode_of ?k fi fs' \<or> inode_of ?d fi fs'"
    by blast+
qed

text \<open>
  C16. The handle a client gets for a path leads back to it: after a \<open>Stat\<close>, from cache or S3, of
  a file, directory or the root, resolving the handle of the result gives a path with the same
  key.
\<close>
theorem stat_handle_resolves:
  assumes "fs_inv env fs" and "boltable (s3KeyFromPath path)" and "Stat env path fs = (Inr fi, fs')" and "GetHandle fi = Inr h"
  shows "\<exists>p. ResolveHandle h fs' = Inr p \<and> s3KeyFromPath p = s3KeyFromPath path"
proof -
  let ?k = "s3KeyFromPath path"
  have h: "h = InodeToHandle (fi_inode fi)" "fi_inode fi \<noteq> 0"
    using assms(4) by (auto simp: GetHandle_def GetFileId_def split: if_splits)
  with Stat_ok(3) [OF assms(1-3) refl] obtain key where key: "fs_keys fs' (fi_inode fi) = Some key" "key = ?k \<or> key = s3DirKey ?k"
    by (auto simp: inode_of_def)
  show ?thesis
  proof (cases "?k = []")
    case True
    then have "key = []" using key(2) by (auto simp: s3DirKey_def)
    moreover have "s3KeyFromPath ''/'' = []" by code_simp
    ultimately show ?thesis using True key(1) h by (simp add: ResolveHandle_def GetKey_def fs_keys_def)
  next
    case False
    then have c: "canon_key ?k" using s3KeyFromPath_cases [of path] by blast
    then have "TrimSuffix key ''/'' = ?k" "key \<noteq> []" using key(2) False by (auto simp: TrimSuffix_id)
    with key(1) h s3KeyFromPath_canon_id(1) [OF c] show ?thesis by (simp add: ResolveHandle_def GetKey_def fs_keys_def)
  qed
qed

lemma fresh_cache: "mc_items (NewMetadataCache config) = Map.empty" "mc_dirListings (NewMetadataCache config) = Map.empty"
  by (simp_all add: NewMetadataCache_def Let_def)

lemma ex_stat:
  "\<exists>fi fs'. Stat ex_fsenv ''/a'' ex_fs_a = (Inr fi, fs') \<and> fi_inode fi = 2"
proof -
  have g: "cacheGet ex_fsenv k ex_fs_a = (None, ex_fs_a)" for k
    by (simp add: cacheGet_def GetEntry_def ex_fs_a_def NewS3FS_def fresh_cache Let_def)
  have i: "fs_inode ex_fsenv ''a'' ex_fs_a = (Inr 2, ex_fs_a)"
    by (simp add: fs_inode_def GetOrCreateInode_def mem_s1_keys)
  show ?thesis by (simp add: Stat_def ex_paths g stat_s3_def i Let_def)
qed

theorem stat_handle_resolves_witness:
  "\<exists>fi fs' h p. Stat ex_fsenv ''/a'' ex_fs_a = (Inr fi, fs') \<and> GetHandle fi = Inr h \<and> ResolveHandle h fs' = Inr p \<and>
     s3KeyFromPath p = ''a''"
proof -
  obtain fi fs' where st: "Stat ex_fsenv ''/a'' ex_fs_a = (Inr fi, fs')" "fi_inode fi = 2" using ex_stat by blast
  have h: "GetHandle fi = Inr (InodeToHandle 2)" by (simp add: GetHandle_def GetFileId_def st(2))
  have "boltable (s3KeyFromPath ''/a'')" by (simp add: ex_paths boltable_def nul_key_def)
  from stat_handle_resolves [OF ex_fs_a_inv this st(1) h] st h show ?thesis by (auto simp: ex_paths)
qed

subsection \<open>Symbolic links\<close>



subsection \<open>Where data is lost or hidden\<close>

lemma OpenFile_existing:
  assumes "s3KeyFromPath path \<noteq> []" and "HeadObject (fe_s3 env) (s3KeyFromPath path) (fs_world fs) = Inr i"
    and "writable_flags flags" and "OpenFile env io path flags perm fs = (Inr nf, fs')"
  obtains f info where "nf = WriteFile f" and "newWritableFile io path (s3KeyFromPath path) info = Inr f"
    and "fs_world fs' = fs_world fs"
  using assms
  by (auto simp: OpenFile_def Let_def split: prod.splits sum.splits dest!: fs_inode_frame(1))

text \<open>
  C35. Opening an existing file for writing and closing it without reading, writing or seeking
  erases its content (\<^verbatim>\<open>file.go:375-405\<close>): the temporary file is filled on the first access only,
  and \<open>Close\<close> uploads it all the same.
\<close>
theorem open_close_erases_file:
  assumes "s3_ok (fe_s3 env) objs" and "s3KeyFromPath path \<noteq> []"
    and "HeadObject (fe_s3 env) (s3KeyFromPath path) (fs_world fs) = Inr i" and "writable_flags flags"
    and "OpenFile env io path flags perm fs = (Inr (WriteFile f), fs1)" and "wf_Close env io' (f, fs1) = (None, f', fs2)"
  shows "\<exists>obj. objs (fs_world fs2) = (objs (fs_world fs))(s3KeyFromPath path \<mapsto> obj) \<and> so_data obj = [] \<and>
           so_meta obj = posixMetadata DefaultUID DefaultGID DefaultFileMode"
proof -
  obtain info where f: "newWritableFile io path (s3KeyFromPath path) info = Inr f" and w: "fs_world fs1 = fs_world fs"
    by (rule OpenFile_existing [OF assms(2-5)]) simp
  then have t: "\<not> wf_closed f" "tf_data (wf_tmp f) = []" "wf_s3Key f = s3KeyFromPath path"
    by (auto simp: newWritableFile_def split: option.splits)
  show ?thesis by (rule wf_Close_uploads [OF assms(1) t(1) assms(6)]) (use t w in auto)
qed

lemma wf_Close_returns:
  assumes "fs_inv env fs" and "\<not> wf_closed f"
    and "PutObject (fe_s3 env) (wf_s3Key f) (tf_data (wf_tmp f)) (int (length (tf_data (wf_tmp f))))
           (posixMetadata DefaultUID DefaultGID DefaultFileMode) (fs_world fs) = (None, w)"
  obtains f' fs' where "wf_Close env tmp_ok (f, fs) = (None, f', fs')"
proof -
  obtain r fs1 where d: "dataCacheInvalidate env (wf_s3Key f)
      (cacheInvalidateParent (wf_s3Key f) (cacheInvalidate (wf_s3Key f) (fs\<lparr>fs_world := w\<rparr>))) = (r, fs1)" by fastforce
  have "r = None"
    by (rule dataCacheInvalidate_ok(1) [OF _ d]) (intro cache_inv, simp add: assms(1))
  with d assms(2,3) that show thesis by (simp add: wf_Close_def Let_def)
qed

theorem open_close_erases_file_witness:
  "\<exists>f fs1 f' fs2 obj. OpenFile ex_fsenv tmp_ok ''/a'' O_RDWR 0 ex_fs_a = (Inr (WriteFile f), fs1) \<and>
     wf_Close ex_fsenv tmp_ok (f, fs1) = (None, f', fs2) \<and>
     map_of (fs_world ex_fs_a) ''a'' = Some (ex_obj ''hello'') \<and> map_of (fs_world fs2) ''a'' = Some obj \<and> so_data obj = []"
proof -
  have i: "fs_inode ex_fsenv ''a'' ex_fs_a = (Inr 2, ex_fs_a)"
    by (simp add: fs_inode_def GetOrCreateInode_def mem_s1_keys)
  have fl: "writable_flags O_RDWR" by (simp add: writable_flags_def O_RDWR_def O_WRONLY_def O_CREATE_def)
  obtain f info where o: "OpenFile ex_fsenv tmp_ok ''/a'' O_RDWR 0 ex_fs_a =
      (Inr (WriteFile f), cachePut ex_fsenv ''a'' info ex_fs_a)" and f: "newWritableFile tmp_ok ''/a'' ''a'' info = Inr f"
    using i fl by (simp add: OpenFile_def ex_paths newWritableFile_def Let_def)
  have inv: "fs_inv ex_fsenv (cachePut ex_fsenv ''a'' info ex_fs_a)" by (intro cache_inv ex_fs_a_inv)
  have nc: "\<not> wf_closed f" using f by (auto simp: newWritableFile_def)
  obtain f' fs2 where c: "wf_Close ex_fsenv tmp_ok (f, cachePut ex_fsenv ''a'' info ex_fs_a) = (None, f', fs2)"
    by (rule wf_Close_returns [OF inv nc]) simp
  from open_close_erases_file [OF _ _ _ fl o c, of map_of "obj_info ''a'' (ex_obj ''hello'')"] o c show ?thesis
    by (auto simp: ex_paths)
qed

text \<open>
  C36. When the lookup of an existing object fails for any other reason, a timeout for instance,
  opening it with a write flag takes it for missing and overwrites it with an empty placeholder
  (\<^verbatim>\<open>filesystem.go:151-158\<close>).
\<close>
theorem failed_lookup_erases_file:
  assumes "s3_ok (fe_s3 env) objs" and "s3KeyFromPath path \<noteq> []"
    and "HeadObject (fe_s3 env) (s3KeyFromPath path) (fs_world fs) = Inl e" and "objs (fs_world fs) (s3KeyFromPath path) = Some obj"
    and "writable_flags flags" and "OpenFile env io path flags perm fs = (Inr f, fs')"
  shows "\<exists>obj'. objs (fs_world fs') = (objs (fs_world fs))(s3KeyFromPath path \<mapsto> obj') \<and> so_data obj' = []"
proof -
  let ?k = "s3KeyFromPath path" and ?m = "posixMetadata DefaultUID DefaultGID DefaultFileMode"
  have "open_new env io path ?k fs = (Inr f, fs')" using assms(2,3,5,6) by (simp add: OpenFile_def)
  then have "PutObject (fe_s3 env) ?k [] (int (length ([] :: bytes))) ?m (fs_world fs) = (None, fs_world fs')"
    by (auto simp: open_new_def Let_def split: prod.splits sum.splits option.splits dest!: fs_inode_frame(1))
  from store.put_ok [OF assms(1) this] show ?thesis by metis
qed

definition down_api :: "memstore S3API" where
  "down_api = mem_api\<lparr>HeadObject := \<lambda>_ _. Inl (Errorf ''timeout'')\<rparr>"

lemma down_api_ok: "s3_ok down_api map_of"
  using mem_api_ok unfolding s3_ok_def down_api_def by simp

theorem failed_lookup_erases_file_witness:
  "\<exists>f fs' obj'. OpenFile (ex_fsenv\<lparr>fe_s3 := down_api\<rparr>) tmp_ok ''/a'' O_RDWR 0 ex_fs_a = (Inr f, fs') \<and>
     map_of (fs_world ex_fs_a) ''a'' = Some (ex_obj ''hello'') \<and> map_of (fs_world fs') ''a'' = Some obj' \<and> so_data obj' = []"
proof -
  have i: "fs_inode (ex_fsenv\<lparr>fe_s3 := down_api\<rparr>) ''a'' ex_fs_a = (Inr 2, ex_fs_a)"
    by (simp add: fs_inode_def GetOrCreateInode_def mem_s1_keys)
  have fl: "writable_flags O_RDWR" by (simp add: writable_flags_def O_RDWR_def O_WRONLY_def O_CREATE_def)
  have "\<exists>f fs'. OpenFile (ex_fsenv\<lparr>fe_s3 := down_api\<rparr>) tmp_ok ''/a'' O_RDWR 0 ex_fs_a = (Inr f, fs')"
    using i fl by (simp add: OpenFile_def open_new_def ex_paths newEmptyWritableFile_def newWritableFile_def down_api_def Let_def)
  then obtain f fs' where o: "OpenFile (ex_fsenv\<lparr>fe_s3 := down_api\<rparr>) tmp_ok ''/a'' O_RDWR 0 ex_fs_a = (Inr f, fs')" by blast
  from failed_lookup_erases_file [OF _ _ _ _ fl o, of map_of "Errorf ''timeout''" "ex_obj ''hello''"] o show ?thesis
    by (auto simp: ex_paths down_api_ok) (auto simp: down_api_def)
qed

lemma parentPrefix_neq: "p \<noteq> [] \<Longrightarrow> HasSuffix p ''/'' \<Longrightarrow> parentPrefix p \<noteq> p"
proof
  assume p: "p \<noteq> []" "HasSuffix p ''/''" "parentPrefix p = p"
  from p(3) parentPrefix_append_name [of p] have "length p \<le> length (TrimSuffix p ''/'')"
    by (metis length_append le_add1)
  with p(1,2) show False by (simp add: TrimSuffix_def) (cases p; simp)
qed

lemma readdir_cached_names:
  assumes "readdir_cached env ces infos fs = (Inr xs, fs')"
  shows "set (map fi_name xs) \<subseteq> set (map fi_name infos) \<union> (nameFromS3Key \<circ> ce_S3Key) ` set ces"
  using assms
proof (induction env ces infos fs rule: readdir_cached.induct)
  case (2 env ce ces infos fs)
  show ?case
  proof (cases "nameFromS3Key (ce_S3Key ce) = []")
    case True
    with 2 show ?thesis by auto
  next
    case False
    then obtain i fs1 where i: "fs_inode env (ce_S3Key ce) fs = (Inr i, fs1)"
      using 2(3) by (auto split: prod.splits sum.splits)
    with 2(2) [OF refl False i [symmetric]] 2(3) False show ?thesis
      by (auto simp: cacheEntryToFileInfo_def)
  qed
qed simp

text \<open>
  A symbolic link created in a subdirectory does not show up there while the directory's
  listing is cached (\<^verbatim>\<open>cache_integration.go:96-102\<close>): \<open>cacheInvalidateParent\<close> invalidates the key of
  the parent, which drops the listing of the grandparent and keeps the parent's own.
\<close>
theorem new_entry_hidden_by_cached_listing:
  assumes "s3_ok (fe_s3 env) objs" and "s3_reads (fe_s3 env) objs" and "fs_inv env fs"
    and "Symlink env target link fs = (None, fs')" and "parentPrefix (s3KeyFromPath link) \<noteq> []"
    and "cacheGetDirListing env (parentPrefix (s3KeyFromPath link)) fs = Some ces"
    and "\<forall>ce\<in>set ces. nameFromS3Key (ce_S3Key ce) \<noteq> nameFromS3Key (s3KeyFromPath link)"
    and "sf_isDir f" and "sf_s3Key f = parentPrefix (s3KeyFromPath link)" and "sf_Readdir env count f fs' = (Inr xs, fs'')"
  shows "objs (fs_world fs') (s3KeyFromPath link) \<noteq> None \<and> nameFromS3Key (s3KeyFromPath link) \<notin> fi_name ` set xs"
proof -
  let ?k = "s3KeyFromPath link"
  let ?p = "parentPrefix ?k"
  let ?m = "[MetaKeySymlinkTarget \<mapsto> target, MetaKeyUID \<mapsto> Itoa DefaultUID, MetaKeyGID \<mapsto> Itoa DefaultGID, MetaKeyMode \<mapsto> ''0777'']"
  obtain w where p: "PutObject (fe_s3 env) ?k [] (int (length ([] :: bytes))) ?m (fs_world fs) = (None, w)"
    and fs': "fs' = cacheInvalidateParent ?k (fs\<lparr>fs_world := w\<rparr>)"
    using assms(4) by (auto simp: Symlink_def Let_def split: if_splits sum.splits prod.splits option.splits)
  have "objs (fs_world fs') ?k \<noteq> None"
    by (rule store.put_ok [OF assms(1) p]) (simp add: fs')
  moreover have suf: "HasSuffix ?p ''/''" using parentPrefix_shape [of ?k] assms(5) by blast
  obtain mc where mc: "fs_cache fs = Some mc" using assms(6) by (auto simp: cacheGetDirListing_def split: option.splits)
  have "mc_dirListings (mc_Invalidate ?p mc) ?p = mc_dirListings mc ?p" "mc_config (mc_Invalidate ?p mc) = mc_config mc"
    using mc_Invalidate_ok(3,4) [OF fs_invD(4) [OF assms(3) mc], of ?p] parentPrefix_neq [OF assms(5) suf] by auto
  then have "cacheGetDirListing env ?p fs' = Some ces"
    using assms(6) mc by (simp add: fs' cacheInvalidateParent_def cache_op_def cacheGetDirListing_def GetDirListing_def cong: option.case_cong)
  with assms(8-10) suf obtain ys where "readdir_cached env ces [] fs' = (Inr ys, fs'')" "xs = limit_count count ys"
    by (auto simp: sf_Readdir_def Let_def split: prod.splits sum.splits)
  with readdir_cached_names [of env ces "[]" fs' ys fs''] assms(7) have "nameFromS3Key ?k \<notin> fi_name ` set xs"
    by (auto simp: limit_count_def split: if_splits dest!: in_set_takeD)
  ultimately show ?thesis by blast
qed

definition ex_fs_d :: "(memstore, memdb) S3FS" where
  "ex_fs_d = NewS3FS [] mem_s1 (Some (PutDirListing 0 ''d/'' [] (NewMetadataCache DefaultCacheConfig))) None"

lemma ex_fs_d_inv: "fs_inv ex_fsenv ex_fs_d"
  using NewMetadataCache_inv [of DefaultCacheConfig]
  by (simp add: fs_inv_def ex_fs_d_def NewS3FS_def mem_bolt_ok mem_s1_inv PutDirListing_def mc_inv_def)

theorem new_entry_hidden_by_cached_listing_witness:
  "\<exists>fs' fs''. Symlink ex_fsenv ''x'' ''/d/l'' ex_fs_d = (None, fs') \<and>
     sf_Readdir ex_fsenv 0 (new_s3File ''/d'' ''d/'' ex_info True []) fs' = (Inr [], fs'') \<and> map_of (fs_world fs') ''d/l'' \<noteq> None"
proof -
  have k: "s3KeyFromPath ''/d/l'' = ''d/l''" "parentPrefix ''d/l'' = ''d/''" by code_simp+
  obtain fs' where s: "Symlink ex_fsenv ''x'' ''/d/l'' ex_fs_d = (None, fs')"
    by (simp add: Symlink_def k Let_def ex_fs_d_def NewS3FS_def)
  have l: "cacheGetDirListing ex_fsenv ''d/'' ex_fs_d = Some []"
    by (simp add: cacheGetDirListing_def ex_fs_d_def NewS3FS_def GetDirListing_def PutDirListing_def time_Sub_def)
       (simp add: NewMetadataCache_def DefaultCacheConfig_def)
  let ?f = "new_s3File ''/d'' ''d/'' ex_info True []"
  have f: "sf_isDir ?f" "sf_s3Key ?f = ''d/''" by (simp_all add: new_s3File_def)
  have "parentPrefix ''d/'' \<noteq> ''d/''" by code_simp
  with s l have "cacheGetDirListing ex_fsenv ''d/'' fs' = Some []"
    using mc_Invalidate_ok(3,4) [OF fs_invD(4) [OF ex_fs_d_inv], of _ "''d/''"]
    by (auto simp: Symlink_def k Let_def cacheGetDirListing_def cacheInvalidateParent_def cache_op_def GetDirListing_def
        split: option.splits if_splits)
  then obtain fs'' where r: "sf_Readdir ex_fsenv 0 ?f fs' = (Inr [], fs'')"
    by (simp add: sf_Readdir_def f limit_count_def Let_def HasSuffix_byte)
  from new_entry_hidden_by_cached_listing [OF _ _ ex_fs_d_inv s _ _ _ f(1) _ r, of map_of "[]"] l f(2) s r show ?thesis
    by (auto simp: k)
qed

end
