(* ===== verification/Encoding.thy ===== *)
theory Encoding
  imports GoStrings Sha256
begin

text \<open>
  The text encodings of \<open>encoding/hex\<close> and \<open>encoding/base64\<close> in which extended attributes are
  kept: the decoders, and that each undoes its encoder. The hexadecimal encoder itself is with
  the hash that also uses it.
\<close>

subsection \<open>Package encoding/hex\<close>

definition hex_val :: "char \<Rightarrow> nat option" where
  "hex_val c =
     (let n = of_char c :: nat
      in if 48 \<le> n \<and> n \<le> 57 then Some (n - 48)
         else if 97 \<le> n \<and> n \<le> 102 then Some (n - 87)
         else if 65 \<le> n \<and> n \<le> 70 then Some (n - 55)
         else None)"

fun hex_DecodeString :: "string \<Rightarrow> bytes option" where
  "hex_DecodeString [] = Some []"
| "hex_DecodeString [c] = None"
| "hex_DecodeString (c # d # s) =
     (case (hex_val c, hex_val d) of
        (Some x, Some y) \<Rightarrow> map_option ((#) (char_of (16 * x + y))) (hex_DecodeString s)
      | _ \<Rightarrow> None)"

abbreviation hex_byte :: "char \<Rightarrow> string" where
  "hex_byte c \<equiv> [hex_digit (of_char c div 16), hex_digit (of_char c mod 16)]"

lemma of_char_sixteenths: "of_char c div 16 < (16 :: nat)" "of_char c mod 16 < (16 :: nat)"
  using nat_of_char_less_256 [of c] by (simp_all add: div_less_iff_less_mult)

lemma hex_val_digit [simp]: "n < 16 \<Longrightarrow> hex_val (hex_digit n) = Some n"
  by (auto simp: hex_val_def hex_digit_def Let_def)

lemma hex_val_less: "hex_val c = Some n \<Longrightarrow> n < 16"
  by (auto simp: hex_val_def Let_def split: if_splits)

lemma hex_val_lower: "hex_val c = Some n \<Longrightarrow> lower_byte c = hex_digit n"
  by (auto simp: hex_val_def hex_digit_def lower_byte_def Let_def take_bit_nat_eq_self split: if_splits)

lemma lower_hex_digit [simp]: "n < 16 \<Longrightarrow> lower_byte (hex_digit n) = hex_digit n"
  by (auto simp: hex_digit_def lower_byte_def Let_def)

interpretation hex: codec hex_EncodeToString hex_DecodeString "\<lambda>_. True"
proof (unfold_locales, goal_cases)
  case (1 s)
  show ?case by (induction s) (simp_all add: hex_EncodeToString_def of_char_sixteenths)
qed

lemma ToLower_hex [simp]: "ToLower (hex_EncodeToString s) = hex_EncodeToString s"
  by (induction s) (simp_all add: hex_EncodeToString_def ToLower_def of_char_sixteenths)

lemma hex_eq_Nil [simp]: "hex_EncodeToString s = [] \<longleftrightarrow> s = []"
  by (cases s) (simp_all add: hex_EncodeToString_def)

text \<open>Up to case, the decoder accepts nothing but the encoder's output.\<close>

lemma hex_decode_fold: "hex_DecodeString r = Some s \<Longrightarrow> ToLower r = hex_EncodeToString s"
proof (induction r arbitrary: s rule: hex_DecodeString.induct)
  case (3 c d r)
  then obtain x y t where xy: "hex_val c = Some x" "hex_val d = Some y" and t: "hex_DecodeString r = Some t"
    and s: "s = char_of (16 * x + y) # t" by (auto split: option.splits)
  note xy' = hex_val_less [OF xy(1)] hex_val_less [OF xy(2)]
  then have "of_char (char_of (16 * x + y)) = 16 * x + y" by simp
  with xy' have "hex_byte (char_of (16 * x + y)) = [hex_digit x, hex_digit y]" by simp
  with 3(1) [OF refl xy t] s hex_val_lower [OF xy(1)] hex_val_lower [OF xy(2)] show ?case
    by (simp add: hex_EncodeToString_def ToLower_def)
qed (auto simp: ToLower_def hex_EncodeToString_def)

lemma hex_val_lower_byte [simp]: "hex_val (lower_byte c) = hex_val c"
  by (auto simp: hex_val_def lower_byte_def Let_def take_bit_nat_eq_self)

lemma hex_decode_ToLower [simp]: "hex_DecodeString (ToLower r) = hex_DecodeString r"
  by (induction r rule: hex_DecodeString.induct) (simp_all add: ToLower_def split: option.split)

subsection \<open>Package encoding/base64\<close>

definition b64_char :: "nat \<Rightarrow> char" where
  "b64_char n =
     (if n < 26 then char_of (65 + n) else if n < 52 then char_of (71 + n)
      else if n < 62 then char_of (n - 4) else if n = 62 then CHR ''+'' else CHR ''/'')"

definition b64_val :: "char \<Rightarrow> nat option" where
  "b64_val c =
     (let n = of_char c :: nat
      in if 65 \<le> n \<and> n \<le> 90 then Some (n - 65)
         else if 97 \<le> n \<and> n \<le> 122 then Some (n - 71)
         else if 48 \<le> n \<and> n \<le> 57 then Some (n + 4)
         else if c = CHR ''+'' then Some 62
         else if c = CHR ''/'' then Some 63
         else None)"

abbreviation pad :: char where
  "pad \<equiv> CHR ''=''"

fun base64_groups :: "nat list \<Rightarrow> string" where
  "base64_groups [] = []"
| "base64_groups [a] = [b64_char (a div 4), b64_char (a mod 4 * 16), pad, pad]"
| "base64_groups [a, b] = [b64_char (a div 4), b64_char (a mod 4 * 16 + b div 16), b64_char (b mod 16 * 4), pad]"
| "base64_groups (a # b # c # s) =
     b64_char (a div 4) # b64_char (a mod 4 * 16 + b div 16) # b64_char (b mod 16 * 4 + c div 64) # b64_char (c mod 64)
     # base64_groups s"

definition base64_EncodeToString :: "bytes \<Rightarrow> string" where
  "base64_EncodeToString s = base64_groups (map of_char s)"

text \<open>
  \<open>DecodeString\<close> skips line ends, takes four characters at a time and accepts padding in the
  last group only; the bits the last group leaves over are not looked at.
\<close>

fun base64_bytes :: "string \<Rightarrow> nat list option" where
  "base64_bytes [] = Some []"
| "base64_bytes (p # q # r # t # s) =
     (case (b64_val p, b64_val q, b64_val r, b64_val t) of
        (Some x, Some y, Some z, Some w) \<Rightarrow>
          map_option (\<lambda>bs. (x * 4 + y div 16) # (y mod 16 * 16 + z div 4) # (z mod 4 * 64 + w) # bs) (base64_bytes s)
      | (Some x, Some y, Some z, None) \<Rightarrow>
          if t = pad \<and> s = [] then Some [x * 4 + y div 16, y mod 16 * 16 + z div 4] else None
      | (Some x, Some y, None, _) \<Rightarrow>
          if r = pad \<and> t = pad \<and> s = [] then Some [x * 4 + y div 16] else None
      | _ \<Rightarrow> None)"
| "base64_bytes _ = None"

definition base64_DecodeString :: "string \<Rightarrow> bytes option" where
  "base64_DecodeString s =
     map_option (map char_of) (base64_bytes (filter (\<lambda>c. c \<noteq> CHR 0x0A \<and> c \<noteq> CHR 0x0D) s))"

lemma b64_val_char [simp]: "n < 64 \<Longrightarrow> b64_val (b64_char n) = Some n"
  by (auto simp: b64_val_def b64_char_def Let_def take_bit_nat_eq_self)

lemma b64_val_pad [simp]: "b64_val pad = None"
  by code_simp

lemma b64_char_line [simp]: "n < 64 \<Longrightarrow> b64_char n \<noteq> CHR 0x0A" "n < 64 \<Longrightarrow> b64_char n \<noteq> CHR 0x0D"
proof -
  have "b64_val (CHR 0x0A) = None" "b64_val (CHR 0x0D) = None" by code_simp+
  then show "n < 64 \<Longrightarrow> b64_char n \<noteq> CHR 0x0A" "n < 64 \<Longrightarrow> b64_char n \<noteq> CHR 0x0D"
    using b64_val_char [of n] by force+
qed


lemma sextets [simp]:
  fixes a b c :: nat
  shows "a < 256 \<Longrightarrow> a div 4 < 64" and "b < 256 \<Longrightarrow> a mod 4 * 16 + b div 16 < 64"
    and "c < 256 \<Longrightarrow> b mod 16 * 4 + c div 64 < 64" and "a mod 4 * 16 < 64" and "b mod 16 * 4 < 64"
proof -
  have "a mod 4 < 4" "b mod 16 < 16" by simp_all
  then have "a mod 4 * 16 \<le> 48" "b mod 16 * 4 \<le> 60" by simp_all
  then show "a < 256 \<Longrightarrow> a div 4 < 64" "b < 256 \<Longrightarrow> a mod 4 * 16 + b div 16 < 64"
    "c < 256 \<Longrightarrow> b mod 16 * 4 + c div 64 < 64" "a mod 4 * 16 < 64" "b mod 16 * 4 < 64"
    by (simp_all add: div_less_iff_less_mult)
qed

lemma base64_groups_line:
  "list_all (\<lambda>n. n < 256) ns \<Longrightarrow> list_all (\<lambda>c. c \<noteq> CHR 0x0A \<and> c \<noteq> CHR 0x0D) (base64_groups ns)"
  by (induction ns rule: base64_groups.induct) simp_all

lemma base64_bytes_groups: "list_all (\<lambda>n. n < 256) ns \<Longrightarrow> base64_bytes (base64_groups ns) = Some ns"
  by (induction ns rule: base64_groups.induct) (simp_all add: div_less_iff_less_mult)

interpretation base64: codec base64_EncodeToString base64_DecodeString "\<lambda>_. True"
proof (unfold_locales, goal_cases)
  case (1 s)
  let ?ns = "map of_char s :: nat list"
  have b: "list_all (\<lambda>n. n < 256) ?ns" by (simp add: list_all_iff nat_of_char_less_256)
  from base64_groups_line [OF b] have "filter (\<lambda>c. c \<noteq> CHR 0x0A \<and> c \<noteq> CHR 0x0D) (base64_groups ?ns) = base64_groups ?ns"
    by (simp add: filter_id_conv list_all_iff)
  with base64_bytes_groups [OF b] show ?case by (simp add: base64_DecodeString_def base64_EncodeToString_def comp_def)
qed

lemma length_base64: "length (base64_EncodeToString s) = 4 * ((length s + 2) div 3)"
proof -
  have "length (base64_groups ns) = 4 * ((length ns + 2) div 3)" for ns
    by (induction ns rule: base64_groups.induct) (simp, simp, simp, simp, presburger)
  then show ?thesis by (simp add: base64_EncodeToString_def)
qed

end
