(* ===== verification/Xattr.thy ===== *)
theory Xattr
  imports FileSystem Encoding
begin

text \<open>
  Extended attributes (\<open>internal/s3fs/xattr.go\<close>): an attribute of a file is one entry of the
  user metadata of its object, under the key \<open>Xattr-\<close> followed by the attribute's name in
  hexadecimal, with the value in base64. Object stores return the names of metadata entries in
  a case of their own, so look-ups fold case.

  The lemmas show that the operations implement a finite map from names to values per object,
  within the size limits the source states.
\<close>

subsection \<open>Metadata entries\<close>

definition xattrMetaPrefix :: string where
  "xattrMetaPrefix = ''Xattr-''"

definition xattrValueMax :: nat where
  "xattrValueMax = 2048"

definition xattrMaxTotalBytes :: nat where
  "xattrMaxTotalBytes = 6144"

definition xattrMetaKey :: "string \<Rightarrow> string result" where
  "xattrMetaKey name =
     (if name = [] then Inl ErrInvalid
      else if list_ex (\<lambda>bad. HasPrefix name bad) [''user.'', ''trusted.'', ''security.'', ''system.''] then Inl ErrInvalid
      else Inr (xattrMetaPrefix @ hex_EncodeToString name))"

text \<open>A loop over the entries of the metadata visits the keys in the order of \<open>rng\<close>.\<close>

definition findXattr :: "rangeorder \<Rightarrow> meta \<Rightarrow> string \<Rightarrow> string option" where
  "findXattr rng meta metaKey =
     (case meta metaKey of
        Some v \<Rightarrow> Some v
      | None \<Rightarrow>
          (case find (\<lambda>k. EqualFold k metaKey) (rng (dom meta)) of
             Some k \<Rightarrow> meta k
           | None \<Rightarrow> None))"

definition shortFromMetaKey :: "string \<Rightarrow> string option" where
  "shortFromMetaKey metaKey =
     (if length metaKey \<le> length xattrMetaPrefix then None
      else if \<not> EqualFold (take (length xattrMetaPrefix) metaKey) xattrMetaPrefix then None
      else hex_DecodeString (drop (length xattrMetaPrefix) metaKey))"

definition totalXattrBytes :: "rangeorder \<Rightarrow> meta \<Rightarrow> nat" where
  "totalXattrBytes rng meta =
     foldl (\<lambda>total k. if shortFromMetaKey k \<noteq> None then total + (length k + length (the (meta k))) else total)
       0 (rng (dom meta))"

subsection \<open>Operations\<close>

definition readObjectMeta :: "('w, 'db) fsenv \<Rightarrow> string \<Rightarrow> ('w, 'db) S3FS \<Rightarrow> (string \<times> meta) result" where
  "readObjectMeta env path fs =
     (let key = s3KeyFromPath path
      in case HeadObject (fe_s3 env) key (fs_world fs) of
           Inr info \<Rightarrow> Inr (key, oi_UserMetadata info)
         | Inl _ \<Rightarrow>
             let dirKey = s3DirKey key
             in case HeadObject (fe_s3 env) dirKey (fs_world fs) of
                  Inr info \<Rightarrow> Inr (dirKey, oi_UserMetadata info)
                | Inl _ \<Rightarrow> Inl ErrNotExist)"

definition GetXattr :: "('w, 'db) fsenv \<Rightarrow> string \<Rightarrow> string \<Rightarrow> ('w, 'db) S3FS \<Rightarrow> bytes result" where
  "GetXattr env path name fs =
     (case xattrMetaKey name of
        Inl e \<Rightarrow> Inl e
      | Inr metaKey \<Rightarrow>
          (case readObjectMeta env path fs of
             Inl e \<Rightarrow> Inl e
           | Inr (_, meta) \<Rightarrow>
               (case findXattr (fe_rng env) meta metaKey of
                  None \<Rightarrow> Inl ErrNotExist
                | Some encoded \<Rightarrow>
                    (case base64_DecodeString encoded of
                       None \<Rightarrow> Inl (Wrap (''xattr '' @ name @ '': decode'') ErrNotExist)
                     | Some decoded \<Rightarrow> Inr decoded))))"

definition set_option_check :: "uint32 \<Rightarrow> bool \<Rightarrow> err option" where
  "set_option_check opt exists =
     (if opt = 1 then (if exists then Some ErrExist else None)
      else if opt = 2 then (if \<not> exists then Some ErrNotExist else None)
      else if opt = 0 then None
      else Some ErrInvalid)"

definition SetXattr ::
  "('w, 'db) fsenv \<Rightarrow> string \<Rightarrow> string \<Rightarrow> bytes \<Rightarrow> uint32 \<Rightarrow> ('w, 'db) S3FS \<Rightarrow> err option \<times> ('w, 'db) S3FS" where
  "SetXattr env path name value opt fs =
     (if length value > xattrValueMax then (Some (Wrap ''xattr value too large'' ErrInvalid), fs)
      else case xattrMetaKey name of
        Inl e \<Rightarrow> (Some e, fs)
      | Inr metaKey \<Rightarrow>
          (case readObjectMeta env path fs of
             Inl e \<Rightarrow> (Some e, fs)
           | Inr (key, meta) \<Rightarrow>
               (case set_option_check opt (findXattr (fe_rng env) meta metaKey \<noteq> None) of
                  Some e \<Rightarrow> (Some e, fs)
                | None \<Rightarrow>
                    let meta' = meta(metaKey \<mapsto> base64_EncodeToString value)
                    in if totalXattrBytes (fe_rng env) meta' > xattrMaxTotalBytes
                       then (Some (Wrap ''xattr total too large'' ErrInvalid), fs)
                       else set_meta env ''xattr set'' key meta' fs)))"

definition ListXattrs :: "('w, 'db) fsenv \<Rightarrow> string \<Rightarrow> ('w, 'db) S3FS \<Rightarrow> string list result" where
  "ListXattrs env path fs =
     (case readObjectMeta env path fs of
        Inl e \<Rightarrow> Inl e
      | Inr (_, meta) \<Rightarrow> Inr (List.map_filter shortFromMetaKey (fe_rng env (dom meta))))"

definition RemoveXattr :: "('w, 'db) fsenv \<Rightarrow> string \<Rightarrow> string \<Rightarrow> ('w, 'db) S3FS \<Rightarrow> err option \<times> ('w, 'db) S3FS" where
  "RemoveXattr env path name fs =
     (case xattrMetaKey name of
        Inl e \<Rightarrow> (Some e, fs)
      | Inr metaKey \<Rightarrow>
          (case readObjectMeta env path fs of
             Inl e \<Rightarrow> (Some e, fs)
           | Inr (key, meta) \<Rightarrow>
               if findXattr (fe_rng env) meta metaKey = None then (Some ErrNotExist, fs)
               else
                 let meta' = foldl (\<lambda>m k. if EqualFold k metaKey then m(k := None) else m) meta (fe_rng env (dom meta))
                 in set_meta env ''xattr remove'' key meta' fs))"

subsection \<open>Names and keys\<close>

text \<open>The names the operations accept.\<close>

definition xattr_name :: "string \<Rightarrow> bool" where
  "xattr_name name \<longleftrightarrow> name \<noteq> [] \<and> \<not> list_ex (\<lambda>bad. HasPrefix name bad) [''user.'', ''trusted.'', ''security.'', ''system.'']"

abbreviation slot :: "string \<Rightarrow> string" where
  "slot name \<equiv> xattrMetaPrefix @ hex_EncodeToString name"

lemma xattrMetaKey_iff: "xattrMetaKey name = Inr k \<longleftrightarrow> xattr_name name \<and> k = slot name"
  by (auto simp: xattrMetaKey_def xattr_name_def)

lemma ToLower_append: "ToLower (s @ t) = ToLower s @ ToLower t"
  by (simp add: ToLower_def)

lemma slot_fold: "EqualFold k (slot name) \<longleftrightarrow> ToLower k = ''xattr-'' @ hex_EncodeToString name"
proof -
  have "ToLower xattrMetaPrefix = ''xattr-''" by code_simp
  then show ?thesis by (simp add: EqualFold_def ToLower_append)
qed

lemma slot_fold_self [simp]: "EqualFold (slot name) (slot name)"
  by (simp add: EqualFold_def)

lemma slot_fold_inject: "EqualFold k (slot n) \<Longrightarrow> EqualFold k (slot n') \<Longrightarrow> n = n'"
  using hex.enc_inj by (simp add: slot_fold)

lemma slot_inject [simp]: "slot n = slot n' \<longleftrightarrow> n = n'"
  using hex.enc_inj by simp

text \<open>An entry is an attribute exactly when its key is the slot of a name, up to case.\<close>

lemma shortFromMetaKey_iff:
  assumes "name \<noteq> []"
  shows "shortFromMetaKey k = Some name \<longleftrightarrow> EqualFold k (slot name)"
proof -
  have p: "length xattrMetaPrefix = 6" "ToLower xattrMetaPrefix = ''xattr-''" by code_simp+
  show ?thesis
  proof
    assume s: "shortFromMetaKey k = Some name"
    then have k: "length k > 6" "ToLower (take 6 k) = ''xattr-''" "hex_DecodeString (drop 6 k) = Some name"
      by (auto simp: shortFromMetaKey_def p EqualFold_def split: if_splits)
    have "ToLower k = ToLower (take 6 k) @ ToLower (drop 6 k)" by (simp only: ToLower_append [symmetric] append_take_drop_id)
    with k hex_decode_fold [OF k(3)] show "EqualFold k (slot name)" by (simp add: slot_fold)
  next
    assume "EqualFold k (slot name)"
    then have l: "ToLower k = ''xattr-'' @ hex_EncodeToString name" by (simp add: slot_fold)
    have "length (ToLower k) > 6" using assms unfolding l by simp
    then have n: "length k > 6" by (simp add: ToLower_def)
    have "ToLower (take 6 k) = take 6 (ToLower k)" "ToLower (drop 6 k) = drop 6 (ToLower k)"
      by (simp_all add: ToLower_def take_map drop_map)
    then have t: "ToLower (take 6 k) = ''xattr-''" "ToLower (drop 6 k) = hex_EncodeToString name"
      by (simp_all add: l)
    then have "hex_DecodeString (drop 6 k) = Some name"
      using hex.dec_enc [of name] hex_decode_ToLower [of "drop 6 k"] by simp
    with n t show "shortFromMetaKey k = Some name" by (simp add: shortFromMetaKey_def p EqualFold_def)
  qed
qed

lemma shortFromMetaKey_neq_Nil: "shortFromMetaKey k \<noteq> Some []"
proof
  assume "shortFromMetaKey k = Some []"
  moreover have "length xattrMetaPrefix = 6" by code_simp
  ultimately have "length k > 6" "hex_DecodeString (drop 6 k) = Some []"
    by (auto simp: shortFromMetaKey_def split: if_splits)
  with hex_decode_fold [of "drop 6 k" "[]"] show False by (simp add: hex_EncodeToString_def ToLower_def)
qed

subsection \<open>Metadata as a map of attributes\<close>

text \<open>
  The names of metadata entries are headers of the object store and do not differ in case
  alone; there are finitely many.
\<close>

definition one_slot :: "meta \<Rightarrow> string \<Rightarrow> bool" where
  "one_slot m n \<longleftrightarrow> (\<forall>k\<in>dom m. \<forall>k'\<in>dom m. EqualFold k (slot n) \<longrightarrow> EqualFold k' (slot n) \<longrightarrow> k = k')"

definition meta_ok :: "meta \<Rightarrow> bool" where
  "meta_ok m \<longleftrightarrow> finite (dom m) \<and> (\<forall>k\<in>dom m. \<forall>k'\<in>dom m. EqualFold k k' \<longrightarrow> k = k')"

lemma meta_ok_one_slot: "meta_ok m \<Longrightarrow> one_slot m n"
  by (auto simp: meta_ok_def one_slot_def EqualFold_def)

lemma findXattr_None:
  assumes "range_ok rng" and "finite (dom m)"
  shows "findXattr rng m (slot n) = None \<longleftrightarrow> (\<forall>k\<in>dom m. \<not> EqualFold k (slot n))"
  using range_okD(1) [OF assms]
  by (auto simp: findXattr_def find_None_iff find_Some_iff split: option.splits) (metis nth_mem domD option.distinct(1))+

lemma findXattr_SomeD:
  assumes "range_ok rng" and "finite (dom m)" and "findXattr rng m (slot n) = Some v"
  shows "\<exists>k. EqualFold k (slot n) \<and> m k = Some v"
  using assms(3) by (auto simp: findXattr_def find_Some_iff split: option.splits intro: exI [of _ "slot n"])

lemma findXattr_iff:
  assumes "range_ok rng" and "finite (dom m)" and "one_slot m n"
  shows "findXattr rng m (slot n) = Some v \<longleftrightarrow> (\<exists>k. EqualFold k (slot n) \<and> m k = Some v)"
proof
  assume "\<exists>k. EqualFold k (slot n) \<and> m k = Some v"
  then obtain k where k: "EqualFold k (slot n)" "m k = Some v" by blast
  then obtain v' where v': "findXattr rng m (slot n) = Some v'" using findXattr_None [OF assms(1,2)] by blast
  then obtain k' where "EqualFold k' (slot n)" "m k' = Some v'" using findXattr_SomeD [OF assms(1,2)] by blast
  with k assms(3) have "k = k'" unfolding one_slot_def by blast
  with k v' \<open>m k' = Some v'\<close> show "findXattr rng m (slot n) = Some v" by simp
qed (rule findXattr_SomeD [OF assms(1,2)])

lemma findXattr_set [simp]: "findXattr rng (m(slot n \<mapsto> v)) (slot n) = Some v"
  by (simp add: findXattr_def)

text \<open>Entries that differ only outside the slot of a name give the same attribute.\<close>

lemma findXattr_frame:
  assumes "range_ok rng" and "finite (dom m)" and "finite (dom m')" and "one_slot m n"
    and "\<And>k. EqualFold k (slot n) \<Longrightarrow> m' k = m k"
  shows "findXattr rng m' (slot n) = findXattr rng m (slot n)"
proof -
  have "one_slot m' n" using assms(4,5) unfolding one_slot_def by (metis domIff)
  then have "findXattr rng m' (slot n) = Some v \<longleftrightarrow> findXattr rng m (slot n) = Some v" for v
    using assms by (auto simp: findXattr_iff)
  then show ?thesis by (metis option.exhaust)
qed

lemma fold_remove:
  "foldl (\<lambda>m k. if P k then m(k := None) else m) m ks = (\<lambda>k. if k \<in> set ks \<and> P k then None else m k)"
  by (induction ks arbitrary: m) (auto simp: fun_eq_iff)

lemma remove_all:
  assumes "range_ok rng" and "finite (dom m)"
  shows "foldl (\<lambda>m k. if EqualFold k mk then m(k := None) else m) m (rng (dom m)) = (\<lambda>k. if EqualFold k mk then None else m k)"
  unfolding fold_remove range_okD(1) [OF assms] by (auto simp: fun_eq_iff)

definition xattr_names :: "meta \<Rightarrow> string set" where
  "xattr_names m = {n. n \<noteq> [] \<and> (\<exists>k\<in>dom m. EqualFold k (slot n))}"

lemma listed_names:
  assumes "range_ok rng" and "finite (dom m)"
  shows "set (List.map_filter shortFromMetaKey (rng (dom m))) = xattr_names m"
proof -
  have "n \<in> set (List.map_filter shortFromMetaKey (rng (dom m))) \<longleftrightarrow> (\<exists>k\<in>dom m. shortFromMetaKey k = Some n)" for n
    using range_okD(1) [OF assms] by (auto simp: map_filter_def image_iff)
  moreover have "(\<exists>k\<in>dom m. shortFromMetaKey k = Some n) \<longleftrightarrow> n \<in> xattr_names m" for n
    by (cases "n = []") (simp_all add: xattr_names_def shortFromMetaKey_iff shortFromMetaKey_neq_Nil)
  ultimately show ?thesis by blast
qed

subsection \<open>The operations on the bucket\<close>

lemma readObjectMeta_object:
  assumes "s3_ok (fe_s3 env) objs" and "readObjectMeta env path fs = Inr (k, m)"
  obtains obj where "objs (fs_world fs) k = Some obj" and "m = so_meta obj"
  using assms(2) by (auto simp: readObjectMeta_def Let_def obj_info_def split: sum.splits dest!: s3_okD(1) [OF assms(1)])

lemma readObjectMeta_again:
  assumes "s3_ok (fe_s3 env) objs" and "s3_reads (fe_s3 env) objs" and "readObjectMeta env path fs = Inr (k, m)"
    and "objs (fs_world fs') = (objs (fs_world fs))(k \<mapsto> obj')"
  shows "readObjectMeta env path fs' = Inr (k, so_meta obj')"
proof -
  let ?k = "s3KeyFromPath path"
  have h: "HeadObject (fe_s3 env) x (fs_world g) = Inr (obj_info x o')" if "objs (fs_world g) x = Some o'" for x g o'
    using assms(2) that by (simp add: s3_reads_def)
  show ?thesis
  proof (cases "HeadObject (fe_s3 env) ?k (fs_world fs)")
    case (Inr i)
    with assms(3) have "k = ?k" by (simp add: readObjectMeta_def Let_def)
    with h [of fs' ?k obj'] assms(4) show ?thesis by (simp add: readObjectMeta_def Let_def obj_info_def)
  next
    case (Inl e)
    with assms(3) have k: "k = s3DirKey ?k" by (auto simp: readObjectMeta_def Let_def split: sum.splits)
    have n: "objs (fs_world fs) ?k = None" using h [of fs ?k] Inl by (cases "objs (fs_world fs) ?k") auto
    show ?thesis
    proof (cases "?k = s3DirKey ?k")
      case True
      with k h [of fs' ?k obj'] assms(4) show ?thesis by (simp add: readObjectMeta_def Let_def obj_info_def)
    next
      case False
      with k n assms(4) have "objs (fs_world fs') ?k = None" by simp
      then obtain e' where "HeadObject (fe_s3 env) ?k (fs_world fs') = Inl e'"
        using s3_okD(1) [OF assms(1), of ?k "fs_world fs'"] by (cases "HeadObject (fe_s3 env) ?k (fs_world fs')") auto
      with k h [of fs' k obj'] assms(4) show ?thesis by (simp add: readObjectMeta_def Let_def obj_info_def)
    qed
  qed
qed

lemma set_meta_outcome:
  assumes "s3_ok (fe_s3 env) objs" and "set_meta env label k m fs = (r, fs')" and "objs (fs_world fs) k = Some obj"
  obtains obj' where "so_data obj' = so_data obj" and "so_meta obj' = m"
    and "outcome r (objs (fs_world fs)) ((objs (fs_world fs))(k \<mapsto> obj')) (objs (fs_world fs'))"
proof -
  obtain r' where c: "CopyObjectWithMetadata (fe_s3 env) k m (fs_world fs) = (r', fs_world fs')" "r' = None \<longleftrightarrow> r = None"
    using assms(2) by (auto simp: set_meta_def split: prod.splits option.splits)
  with s3_okD(8) [OF assms(1) c(1)] assms(3) that show thesis by (auto simp: outcome_def)
qed

lemma SetXattr_cases:
  assumes "SetXattr env path name value opt fs = (r, fs')"
  obtains (refused) e where "r = Some e" and "fs' = fs"
  | (stored) k m where "readObjectMeta env path fs = Inr (k, m)" and "xattr_name name" and "length value \<le> xattrValueMax"
      and "set_option_check opt (findXattr (fe_rng env) m (slot name) \<noteq> None) = None"
      and "totalXattrBytes (fe_rng env) (m(slot name \<mapsto> base64_EncodeToString value)) \<le> xattrMaxTotalBytes"
      and "set_meta env ''xattr set'' k (m(slot name \<mapsto> base64_EncodeToString value)) fs = (r, fs')"
  using assms
  by (auto simp: SetXattr_def Let_def xattrMetaKey_iff not_less split: if_splits sum.splits prod.splits option.splits) metis

lemma RemoveXattr_cases:
  assumes "RemoveXattr env path name fs = (r, fs')"
  obtains (refused) e where "r = Some e" and "fs' = fs"
  | (removed) k m where "readObjectMeta env path fs = Inr (k, m)" and "xattr_name name"
      and "set_meta env ''xattr remove'' k
             (foldl (\<lambda>m k. if EqualFold k (slot name) then m(k := None) else m) m (fe_rng env (dom m))) fs = (r, fs')"
  using assms
  by (auto simp: RemoveXattr_def Let_def xattrMetaKey_iff split: if_splits sum.splits prod.splits)

lemma GetXattr_meta:
  assumes "readObjectMeta env path fs = Inr (k, m)"
  shows "GetXattr env path n fs =
     (if xattr_name n then
        (case findXattr (fe_rng env) m (slot n) of
           None \<Rightarrow> Inl ErrNotExist
         | Some encoded \<Rightarrow> (case base64_DecodeString encoded of None \<Rightarrow> Inl (Wrap (''xattr '' @ n @ '': decode'') ErrNotExist) | Some d \<Rightarrow> Inr d))
      else Inl ErrInvalid)"
proof (cases "xattr_name n")
  case True
  then have "xattrMetaKey n = Inr (slot n)" by (simp add: xattrMetaKey_iff)
  with True assms show ?thesis by (simp add: GetXattr_def)
next
  case False
  then have "xattrMetaKey n = Inl ErrInvalid" by (auto simp: xattrMetaKey_def xattr_name_def)
  with False show ?thesis by (simp add: GetXattr_def)
qed

lemma GetXattr_eqI:
  assumes "readObjectMeta env path fs = Inr (k, m)" and "readObjectMeta env path fs' = Inr (k, m')"
    and "range_ok (fe_rng env)" and "meta_ok m" and "finite (dom m')" and "\<And>x. EqualFold x (slot n) \<Longrightarrow> m' x = m x"
  shows "GetXattr env path n fs' = GetXattr env path n fs"
  using findXattr_frame [OF assms(3) _ assms(5) meta_ok_one_slot [OF assms(4), of n] assms(6)] assms(4)
  by (simp add: GetXattr_meta [OF assms(1)] GetXattr_meta [OF assms(2)] meta_ok_def)

subsection \<open>Properties\<close>

text \<open>What a file is apart from its extended attributes: its content and the other metadata.\<close>

definition file_part :: "s3obj \<Rightarrow> bytes \<times> meta" where
  "file_part obj = (so_data obj, \<lambda>x. if shortFromMetaKey x = None then so_meta obj x else None)"

lemma slot_entry: "xattr_name n \<Longrightarrow> EqualFold x (slot n) \<Longrightarrow> shortFromMetaKey x = Some n"
  by (simp add: shortFromMetaKey_iff xattr_name_def)

text \<open>One attribute changes, and nothing else.\<close>

lemma xattr_update:
  assumes "s3_ok (fe_s3 env) objs" and "s3_reads (fe_s3 env) objs" and "range_ok (fe_rng env)" and "meta_ok m"
    and "readObjectMeta env path fs = Inr (k, m)" and "set_meta env label k m' fs = (None, fs')" and "xattr_name name"
    and "finite (dom m')" and "\<And>x. \<not> EqualFold x (slot name) \<Longrightarrow> m' x = m x"
  shows "readObjectMeta env path fs' = Inr (k, m')"
    and "n \<noteq> name \<Longrightarrow> GetXattr env path n fs' = GetXattr env path n fs"
    and "map_option file_part (objs (fs_world fs') x) = map_option file_part (objs (fs_world fs) x)"
proof -
  obtain obj where o: "objs (fs_world fs) k = Some obj" "m = so_meta obj"
    by (rule readObjectMeta_object [OF assms(1,5)])
  obtain obj' where o': "so_data obj' = so_data obj" "so_meta obj' = m'" "objs (fs_world fs') = (objs (fs_world fs))(k \<mapsto> obj')"
    by (rule set_meta_outcome [OF assms(1,6) o(1)]) (auto simp: outcome_def)
  show r: "readObjectMeta env path fs' = Inr (k, m')"
    using readObjectMeta_again [OF assms(1,2,5) o'(3)] o'(2) by simp
  show "n \<noteq> name \<Longrightarrow> GetXattr env path n fs' = GetXattr env path n fs"
    by (rule GetXattr_eqI [OF assms(5) r assms(3,4,8)]) (metis assms(9) slot_fold_inject)
  have "file_part obj' = file_part obj"
    using o(2) o'(1,2) assms(9) slot_entry [OF assms(7)] by (fastforce simp: file_part_def fun_eq_iff)
  then show "map_option file_part (objs (fs_world fs') x) = map_option file_part (objs (fs_world fs) x)"
    using o(1) o'(3) by simp
qed

lemma xattr_names_set: "name \<noteq> [] \<Longrightarrow> xattr_names (m(slot name \<mapsto> v)) = insert name (xattr_names m)"
  by (auto simp: xattr_names_def dest: slot_fold_inject [OF slot_fold_self])

lemma xattr_names_remove: "xattr_names (\<lambda>x. if EqualFold x (slot name) then None else m x) = xattr_names m - {name}"
  by (auto simp: xattr_names_def dom_def dest: slot_fold_inject)


text \<open>The size the limit is on does not depend on the order of the loop over the metadata.\<close>

definition xattr_size :: "meta \<Rightarrow> nat" where
  "xattr_size m = (\<Sum>k\<in>{k \<in> dom m. shortFromMetaKey k \<noteq> None}. length k + length (the (m k)))"

lemma foldl_count:
  "foldl (\<lambda>t k. if P k then t + f k else t) (a :: nat) ks = a + sum_list (map f (filter P ks))"
  by (induction ks arbitrary: a) simp_all

lemma totalXattrBytes_eq:
  assumes "range_ok rng" and "finite (dom m)"
  shows "totalXattrBytes rng m = xattr_size m"
  using range_okD [OF assms]
  by (simp add: totalXattrBytes_def xattr_size_def foldl_count sum_list_distinct_conv_sum_set del: not_None_eq)

text \<open>
  C27. The limits on extended attributes hold: whatever \<open>SetXattr\<close> returns, either the bucket is as
  it was, or one object has new metadata and the same content, the value has at most 2048
  bytes, the name is one \<open>GetXattr\<close> accepts, all attributes of the object take at most 6144
  bytes as they are sent to the store, in particular the name and the encoded value do, and
  the attribute was absent for a create and present for a replace.
\<close>
theorem xattr_limits:
  assumes "s3_ok (fe_s3 env) objs" and "range_ok (fe_rng env)"
    and "\<forall>k obj. objs (fs_world fs) k = Some obj \<longrightarrow> finite (dom (so_meta obj))"
    and "SetXattr env path name value opt fs = (r, fs')"
  shows "objs (fs_world fs') = objs (fs_world fs) \<or>
     (\<exists>k obj obj'. objs (fs_world fs) k = Some obj \<and> objs (fs_world fs') = (objs (fs_world fs))(k \<mapsto> obj') \<and> so_data obj' = so_data obj \<and>
        length value \<le> 2048 \<and> xattr_name name \<and> xattr_size (so_meta obj') \<le> 6144 \<and>
        6 + 2 * length name + 4 * ((length value + 2) div 3) \<le> 6144 \<and>
        (opt = 1 \<longrightarrow> name \<notin> xattr_names (so_meta obj)) \<and> (opt = 2 \<longrightarrow> name \<in> xattr_names (so_meta obj)) \<and> opt \<le> 2)"
  using assms(4)
proof (cases rule: SetXattr_cases)
  case (stored k m)
  obtain obj where o: "objs (fs_world fs) k = Some obj" "m = so_meta obj"
    by (rule readObjectMeta_object [OF assms(1) stored(1)])
  let ?v = "base64_EncodeToString value"
  let ?m = "m(slot name \<mapsto> ?v)"
  obtain obj' where o': "so_data obj' = so_data obj" "so_meta obj' = ?m"
    "outcome r (objs (fs_world fs)) ((objs (fs_world fs))(k \<mapsto> obj')) (objs (fs_world fs'))"
    by (rule set_meta_outcome [OF assms(1) stored(6) o(1)])
  have d: "finite (dom m)" "finite (dom ?m)" using assms(3) o by auto
  have size: "xattr_size ?m \<le> 6144"
    using stored(5) totalXattrBytes_eq [OF assms(2) d(2)] by (simp add: xattrMaxTotalBytes_def)
  have n: "name \<noteq> []" using stored(2) by (simp add: xattr_name_def)
  have "shortFromMetaKey (slot name) = Some name" by (simp add: shortFromMetaKey_iff n)
  then have "length (slot name) + length ?v \<le> xattr_size ?m"
    unfolding xattr_size_def
    using member_le_sum [of "slot name" "{k \<in> dom ?m. shortFromMetaKey k \<noteq> None}" "\<lambda>k. length k + length (the (?m k))"] d(2) by simp
  with size have len: "6 + 2 * length name + 4 * ((length value + 2) div 3) \<le> 6144"
    by (simp add: length_base64 xattrMetaPrefix_def)
  have "findXattr (fe_rng env) m (slot name) \<noteq> None \<longleftrightarrow> name \<in> xattr_names m"
    using n by (auto simp: findXattr_None [OF assms(2) d(1)] xattr_names_def simp del: not_None_eq)
  with stored(4) have opt: "(opt = 1 \<longrightarrow> name \<notin> xattr_names m) \<and> (opt = 2 \<longrightarrow> name \<in> xattr_names m) \<and> opt \<le> 2"
    by (auto simp: set_option_check_def split: if_splits)
  have "objs (fs_world fs') = objs (fs_world fs) \<or> objs (fs_world fs') = (objs (fs_world fs))(k \<mapsto> obj')"
    using o'(3) by (auto simp: outcome_def split: if_splits)
  then show ?thesis
  proof
    assume w: "objs (fs_world fs') = (objs (fs_world fs))(k \<mapsto> obj')"
    show ?thesis
      by (intro disjI2 exI [of _ k] exI [of _ obj] exI [of _ obj'])
         (use w o o'(1,2) size len opt stored(2,3) in \<open>simp add: xattrValueMax_def\<close>)
  qed simp
qed simp

text \<open>The example: an attribute \<open>k\<close> with value \<open>v\<close> is given to the object of the example store.\<close>

lemma ex_xattr:
  "\<exists>fs'. SetXattr ex_fsenv ''/a'' ''k'' ''v'' 1 ex_fs_a = (None, fs') \<and> map_of (fs_world fs') ''a'' = Some ((ex_obj ''hello'')\<lparr>so_meta := [slot ''k'' \<mapsto> ''dg==''] \<rparr>)"
proof -
  have n: "xattr_name ''k''" by code_simp
  then have k: "xattrMetaKey ''k'' = Inr (slot ''k'')" by (simp add: xattrMetaKey_iff)
  have b: "base64_EncodeToString ''v'' = ''dg==''" by code_simp
  have r: "readObjectMeta ex_fsenv ''/a'' ex_fs_a = Inr (''a'', Map.empty)"
    by (simp add: readObjectMeta_def ex_paths obj_info_def)
  have f: "findXattr sorted_range Map.empty (slot ''k'') = None" by (simp add: findXattr_None)
  have "shortFromMetaKey (slot ''k'') = Some ''k''" by (simp add: shortFromMetaKey_iff)
  then have "{x \<in> dom [slot ''k'' \<mapsto> ''dg=='']. shortFromMetaKey x \<noteq> None} = {slot ''k''}" by auto
  then have "xattr_size [slot ''k'' \<mapsto> ''dg==''] = 12" by (simp add: xattr_size_def xattrMetaPrefix_def)
  then have t: "totalXattrBytes sorted_range [slot ''k'' \<mapsto> ''dg==''] = 12" by (simp add: totalXattrBytes_eq)
  show ?thesis
    by (simp add: SetXattr_def xattrValueMax_def k r f set_option_check_def b t xattrMaxTotalBytes_def set_meta_def Let_def)
qed

lemma ex_meta_ok: "\<forall>k obj. map_of (fs_world ex_fs_a) k = Some obj \<longrightarrow> meta_ok (so_meta obj)"
  by (simp add: meta_ok_def)


theorem xattr_limits_witness:
  "\<exists>fs' obj. SetXattr ex_fsenv ''/a'' ''k'' ''v'' 1 ex_fs_a = (None, fs') \<and> map_of (fs_world fs') ''a'' = Some obj \<and>
     so_data obj = ''hello'' \<and> xattr_size (so_meta obj) \<le> 6144"
proof -
  obtain fs' where s: "SetXattr ex_fsenv ''/a'' ''k'' ''v'' 1 ex_fs_a = (None, fs')"
    and m: "map_of (fs_world fs') ''a'' = Some ((ex_obj ''hello'')\<lparr>so_meta := [slot ''k'' \<mapsto> ''dg==''] \<rparr>)" using ex_xattr by blast
  have f: "\<forall>k obj. map_of (fs_world ex_fs_a) k = Some obj \<longrightarrow> finite (dom (so_meta obj))" by simp
  have "map_of (fs_world fs') \<noteq> map_of (fs_world ex_fs_a)"
  proof
    assume "map_of (fs_world fs') = map_of (fs_world ex_fs_a)"
    with m have "(ex_obj ''hello'')\<lparr>so_meta := [slot ''k'' \<mapsto> ''dg=='']\<rparr> = ex_obj ''hello''" by simp
    from arg_cong [OF this, of so_meta] show False by simp
  qed
  moreover have ok: "s3_ok (fe_s3 ex_fsenv) map_of" "range_ok (fe_rng ex_fsenv)" by simp_all
  ultimately obtain k obj obj' where o: "map_of (fs_world ex_fs_a) k = Some obj" "map_of (fs_world fs') = (map_of (fs_world ex_fs_a))(k \<mapsto> obj')"
    "so_data obj' = so_data obj" "xattr_size (so_meta obj') \<le> 6144"
    using xattr_limits [OF ok f s] by blast
  from o(1) have "k = ''a''" "obj = ex_obj ''hello''" by (simp_all split: if_splits)
  with o(2-4) s show ?thesis by simp
qed

subsection \<open>Names the store returns in another case\<close>

text \<open>
  \<open>SetXattr\<close> writes the canonical key and keeps the key the store returned, where the two differ
  in case: the update then sends both the old and the new value under one header name.
\<close>
lemma set_xattr_keeps_variant:
  assumes "s3_ok (fe_s3 env) objs" and "SetXattr env path name value opt fs = (None, fs')"
    and "readObjectMeta env path fs = Inr (k, m)" and "EqualFold x (slot name)" and "x \<noteq> slot name" and "m x = Some old"
  shows "\<exists>obj'. objs (fs_world fs') k = Some obj' \<and> so_meta obj' x = Some old \<and> so_meta obj' (slot name) = Some (base64_EncodeToString value)"
proof -
  from assms(2) have c: "set_meta env ''xattr set'' k (m(slot name \<mapsto> base64_EncodeToString value)) fs = (None, fs')"
    using assms(3) by (cases rule: SetXattr_cases) auto
  obtain obj where o: "objs (fs_world fs) k = Some obj" by (rule readObjectMeta_object [OF assms(1,3)])
  show ?thesis
    by (rule set_meta_outcome [OF assms(1) c o]) (use assms(5,6) in \<open>auto simp: outcome_def\<close>)
qed

end
