(* ===== verification/FsCoherence.thy ===== *)
theory FsCoherence
  imports FileSystem Xattr
begin

text \<open>
  What a client sees over a whole session: sequences of filesystem operations, each with its own
  reading of the clock, against one bucket. The metadata cache stays coherent with the bucket
  over every sequence of operations that report success, so that \<open>Stat\<close> tells the truth about
  files; and what was written, closed and opened again is what is read.
\<close>

subsection \<open>Coherent entries\<close>

text \<open>
  An entry is negative, or for a directory, or it belongs to a file key whose object has the
  entry's size and mode.
\<close>

definition attrs_ok :: "objects \<Rightarrow> string \<Rightarrow> int \<Rightarrow> uint32 \<Rightarrow> bool" where
  "attrs_ok m k sz mode \<longleftrightarrow> \<not> HasSuffix k ''/'' \<and>
     (\<exists>obj. m k = Some obj \<and> sz = int (length (so_data obj)) \<and> mode = parseMode (so_meta obj) False)"

definition entry_coh :: "objects \<Rightarrow> string \<Rightarrow> CacheEntry \<Rightarrow> bool" where
  "entry_coh m k e \<longleftrightarrow> ce_negative e \<or> ce_IsDir e \<or> attrs_ok m k (ce_Size e) (ce_Mode e)"

definition info_coh :: "objects \<Rightarrow> string \<Rightarrow> fileInfo \<Rightarrow> bool" where
  "info_coh m k info \<longleftrightarrow> fi_isDir info \<or> attrs_ok m k (fi_size info) (fi_mode info)"

definition fs_coh :: "('w \<Rightarrow> objects) \<Rightarrow> ('w, 'db) S3FS \<Rightarrow> bool" where
  "fs_coh objs fs \<longleftrightarrow> (\<forall>k e. fs_entries fs k = Some e \<longrightarrow> entry_coh (objs (fs_world fs)) k e)"

lemma entry_coh_cong: "m k = m' k \<Longrightarrow> entry_coh m k e = entry_coh m' k e"
  by (simp add: entry_coh_def attrs_ok_def)

lemma fs_coh_same:
  assumes "fs_coh objs fs" and "fs_entries fs' \<subseteq>\<^sub>m fs_entries fs" and "objs (fs_world fs') = objs (fs_world fs)"
  shows "fs_coh objs fs'"
  using assms map_leD [OF assms(2)] by (auto simp: fs_coh_def)

text \<open>A change of the bucket at keys whose entries are gone.\<close>

lemma fs_coh_change:
  assumes "fs_coh objs fs" and "fs_entries fs' \<subseteq>\<^sub>m fs_entries fs"
    and "\<And>k. objs (fs_world fs') k \<noteq> objs (fs_world fs) k \<Longrightarrow> fs_entries fs' k = None"
  shows "fs_coh objs fs'"
  unfolding fs_coh_def
proof (intro allI impI)
  fix k e assume e: "fs_entries fs' k = Some e"
  then have "objs (fs_world fs') k = objs (fs_world fs) k" using assms(3) by fastforce
  with assms(1) map_leD [OF assms(2) e] show "entry_coh (objs (fs_world fs')) k e"
    using entry_coh_cong [of "objs (fs_world fs')" k "objs (fs_world fs)" e] by (simp add: fs_coh_def)
qed

lemma fs_coh_cachePut:
  assumes "cache_wf env fs" and "fs_coh objs fs" and "info_coh (objs (fs_world fs)) k info"
  shows "fs_coh objs (cachePut env k info fs)"
  unfolding fs_coh_def
proof (intro allI impI)
  fix k' e assume "fs_entries (cachePut env k info fs) k' = Some e"
  from map_leD [OF cache_entries(1) [OF assms(1)] this]
  show "entry_coh (objs (fs_world (cachePut env k info fs))) k' e"
    using assms(2,3)
    by (auto simp: fs_coh_def entry_coh_def info_coh_def infoToCacheEntry_def CacheEntry_zero_def split: if_splits)
qed

lemma fs_coh_negative:
  assumes "cache_wf env fs" and "fs_coh objs fs"
  shows "fs_coh objs (cachePutNegative env k fs)"
  unfolding fs_coh_def
proof (intro allI impI)
  fix k' e assume "fs_entries (cachePutNegative env k fs) k' = Some e"
  from map_leD [OF cache_entries(2) [OF assms(1)] this]
  show "entry_coh (objs (fs_world (cachePutNegative env k fs))) k' e"
    using assms(2) by (auto simp: fs_coh_def entry_coh_def split: if_splits)
qed

lemma cacheInvalidate_le: "cache_wf env fs \<Longrightarrow> fs_entries (cacheInvalidate k fs) \<subseteq>\<^sub>m fs_entries fs"
  by (rule map_le_trans [OF cache_entries(3) upd_None_map_le])

lemma cacheInvalidate_None: "cache_wf env fs \<Longrightarrow> fs_entries (cacheInvalidate k fs) k = None"
  by (rule map_le_NoneD [OF cache_entries(3)]) simp_all

lemma fs_inode_coh: "fs_inode env k fs = (r, fs') \<Longrightarrow> fs_coh objs fs' = fs_coh objs fs \<and> cache_wf env fs' = cache_wf env fs"
  by (simp add: fs_coh_def cache_wf_def fs_inode_frame)

text \<open>Information built from a successful \<open>HeadObject\<close>.\<close>

lemma head_info_coh:
  assumes "s3_ok api objs" and "HeadObject api k w = Inr i" and "\<not> HasSuffix k ''/''"
  shows "info_coh (objs w) k (newFileInfoFromS3 name (oi_Size i) t isDir inode (oi_UserMetadata i))"
    and "info_coh (objs w) k (newFileInfoFromS3WithETag name (oi_Size i) t isDir inode (oi_UserMetadata i) etag)"
  using s3_okD(1) [OF assms(1,2)] assms(3)
  by (auto simp: info_coh_def attrs_ok_def newFileInfoFromS3_def newFileInfoFromS3WithETag_def obj_info_def)

lemma dir_info_coh:
  "info_coh m k (newDirInfo now name inode)" "info_coh m k (newFileInfoFromS3 name sz t True inode meta)"
  by (simp_all add: info_coh_def newDirInfo_def newFileInfoFromS3_def)

subsection \<open>The handlers keep the cache coherent\<close>

definition good :: "('w, 'db) fsenv \<Rightarrow> ('w \<Rightarrow> objects) \<Rightarrow> ('w, 'db) S3FS \<Rightarrow> bool" where
  "good env objs fs \<longleftrightarrow> cache_wf env fs \<and> fs_coh objs fs"

lemma goodD: "good env objs fs \<Longrightarrow> cache_wf env fs" "good env objs fs \<Longrightarrow> fs_coh objs fs"
  by (simp_all add: good_def)

lemma good_inode: "good env objs fs \<Longrightarrow> fs_inode env k fs = (r, fs') \<Longrightarrow> good env objs fs' \<and> fs_world fs' = fs_world fs"
  using fs_inode_coh [of env k fs r fs' objs] fs_inode_frame(1) [of env k fs r fs'] by (simp add: good_def)

lemma good_cachePut:
  "good env objs fs \<Longrightarrow> info_coh (objs (fs_world fs)) k info \<Longrightarrow> good env objs (cachePut env k info fs)"
  by (simp add: good_def cache_wf_ops fs_coh_cachePut)

lemma good_negative: "good env objs fs \<Longrightarrow> good env objs (cachePutNegative env k fs)"
  by (simp add: good_def cache_wf_ops fs_coh_negative)

lemma good_drop:
  assumes "good env objs fs"
  shows "good env objs (cacheInvalidate k fs)" "good env objs (cacheInvalidateParent k fs)" "good env objs (cachePutDirListing env k es fs)"
  using assms cacheInvalidate_le [of env fs] cacheInvalidateParent_le [of env fs] cache_entries(5) [of env fs]
  by (auto simp: good_def cache_wf_ops intro: fs_coh_same)

lemma good_dataCache: "good env objs fs \<Longrightarrow> dataCacheInvalidate env k fs = (r, fs') \<Longrightarrow> good env objs fs'"
  using dataCacheInvalidate_frame [of env k fs r fs'] by (simp add: good_def fs_coh_def cache_wf_def)

text \<open>
  Writes: \<open>fs1\<close> is the state after the bucket was changed, with the cache as before; the entries
  of the changed keys are invalidated or replaced.
\<close>

lemma good_write2:
  assumes "good env objs fs" and "fs_cache fs1 = fs_cache fs"
    and "\<And>x. x \<noteq> k \<Longrightarrow> x \<noteq> k' \<Longrightarrow> objs (fs_world fs1) x = objs (fs_world fs) x"
  shows "good env objs (cacheInvalidate k' (cacheInvalidate k fs1))"
proof -
  have wf: "cache_wf env fs1" and e: "fs_entries fs1 = fs_entries fs"
    using assms(1,2) by (simp_all add: good_def cache_wf_def fs_entries_def)
  let ?fs = "cacheInvalidate k' (cacheInvalidate k fs1)"
  note wf1 = cache_wf_ops(3) [OF wf, of k]
  note le = cacheInvalidate_le [OF wf1, of k']
  have n: "fs_entries ?fs k = None" "fs_entries ?fs k' = None"
    using map_le_NoneD [OF le cacheInvalidate_None [OF wf]] cacheInvalidate_None [OF wf1] by simp_all
  have "fs_coh objs ?fs"
  proof (rule fs_coh_change [OF goodD(2) [OF assms(1)]])
    show "fs_entries ?fs \<subseteq>\<^sub>m fs_entries fs" using map_le_trans [OF le cacheInvalidate_le [OF wf]] e by simp
    show "fs_entries ?fs x = None" if "objs (fs_world ?fs) x \<noteq> objs (fs_world fs) x" for x
      using that assms(3) [of x] n by (cases "x = k"; cases "x = k'") simp_all
  qed
  with wf1 show ?thesis by (simp add: good_def cache_wf_ops)
qed

lemma good_write:
  assumes "good env objs fs" and "fs_cache fs1 = fs_cache fs" and "\<And>x. x \<noteq> k \<Longrightarrow> objs (fs_world fs1) x = objs (fs_world fs) x"
  shows "good env objs (cacheInvalidate k fs1)"
proof -
  have wf: "cache_wf env fs1" and e: "fs_entries fs1 = fs_entries fs"
    using assms(1,2) by (simp_all add: good_def cache_wf_def fs_entries_def)
  have "fs_coh objs (cacheInvalidate k fs1)"
  proof (rule fs_coh_change [OF goodD(2) [OF assms(1)]])
    show "fs_entries (cacheInvalidate k fs1) \<subseteq>\<^sub>m fs_entries fs" using cacheInvalidate_le [OF wf] e by simp
    show "fs_entries (cacheInvalidate k fs1) x = None" if "objs (fs_world (cacheInvalidate k fs1)) x \<noteq> objs (fs_world fs) x" for x
      using that assms(3) [of x] cacheInvalidate_None [OF wf, of k] by (cases "x = k") simp_all
  qed
  with wf show ?thesis by (simp add: good_def cache_wf_ops)
qed

lemma good_write_put:
  assumes "good env objs fs" and "fs_cache fs1 = fs_cache fs" and "\<And>x. x \<noteq> k \<Longrightarrow> objs (fs_world fs1) x = objs (fs_world fs) x"
    and "info_coh (objs (fs_world fs1)) k info"
  shows "good env objs (cachePut env k info fs1)"
proof -
  have wf: "cache_wf env fs1" and e: "fs_entries fs1 = fs_entries fs"
    using assms(1,2) by (simp_all add: good_def cache_wf_def fs_entries_def)
  have "entry_coh (objs (fs_world fs1)) x en" if "fs_entries (cachePut env k info fs1) x = Some en" for x en
    using map_leD [OF cache_entries(1) [OF wf] that] assms(3) [of x] assms(4) goodD(2) [OF assms(1)] e
      entry_coh_cong [of "objs (fs_world fs1)" x "objs (fs_world fs)"]
    by (auto simp: fs_coh_def entry_coh_def info_coh_def infoToCacheEntry_def CacheEntry_zero_def split: if_splits)
  with wf show ?thesis by (simp add: good_def cache_wf_ops fs_coh_def)
qed

lemma good_new_object:
  assumes "good env objs fs" and "fs_cache fs1 = fs_cache fs" and "objs (fs_world fs) k = None"
    and "\<And>x. x \<noteq> k \<Longrightarrow> objs (fs_world fs1) x = objs (fs_world fs) x"
  shows "good env objs fs1"
proof -
  have "entry_coh (objs (fs_world fs1)) x en" if "entry_coh (objs (fs_world fs)) x en" for x en
    using that assms(3,4) by (cases "x = k") (auto simp: entry_coh_def attrs_ok_def)
  with assms(1,2) show ?thesis by (auto simp: good_def cache_wf_def fs_coh_def fs_entries_def)
qed

lemma file_key_suffix [simp]: "\<not> HasSuffix (s3KeyFromPath path) ''/''"
  using s3KeyFromPath_cases [of path] by (auto simp: HasSuffix_byte dest: canon_key_last)

lemma cacheGet_good:
  assumes "good env objs fs" and "cacheGet env k fs = (r, fs')"
  shows "good env objs fs'" and "fs_world fs' = fs_world fs"
    and "r = Some (Some fi) \<Longrightarrow> info_coh (objs (fs_world fs)) k fi"
proof -
  note g = goodD [OF assms(1)]
  have "good env objs fs' \<and> fs_world fs' = fs_world fs \<and> (\<forall>fi. r = Some (Some fi) \<longrightarrow> info_coh (objs (fs_world fs)) k fi)"
  proof (cases "fs_cache fs")
    case None
    with assms show ?thesis by (auto simp: cacheGet_def)
  next
    case (Some mc)
    have mc: "mc_inv mc" "range_ok (fe_rng env)" using g(1) Some by (simp_all add: cache_wf_def)
    define fs1 where "fs1 = fs\<lparr>fs_cache := Some (snd (GetEntry (fe_now env) k mc))\<rparr>"
    have "fs_entries fs1 \<subseteq>\<^sub>m fs_entries fs"
      using mc_entry_step [OF mc, of "McGet (fe_now env) k"] Some by (simp add: fs1_def fs_entries_def)
    moreover have w: "fs_world fs1 = fs_world fs" by (simp add: fs1_def)
    ultimately have g1: "good env objs fs1"
      using g GetEntry_ok(1) [OF mc(1)] mc(2) fs_coh_same [of objs fs fs1] by (simp add: good_def cache_wf_def fs1_def)
    obtain ri fs2 where i: "fs_inode env k fs1 = (ri, fs2)" by fastforce
    have g2: "good env objs fs2" "fs_world fs2 = fs_world fs" using good_inode [OF g1 i] w by simp_all
    show ?thesis
    proof (cases "fst (GetEntry (fe_now env) k mc)")
      case None
      with Some assms(2) g1 w show ?thesis by (auto simp: cacheGet_def fs1_def split: prod.splits)
    next
      case entry: (Some entry)
      then have "fs_entries fs k = Some entry"
        using GetEntry_view [OF mc(1), of "fe_now env" k] Some by (auto simp: fs_entries_def split: option.splits if_splits)
      then have coh: "entry_coh (objs (fs_world fs)) k entry" using g(2) by (simp add: fs_coh_def)
      show ?thesis
      proof (cases "IsNegative entry")
        case True
        with Some assms(2) entry g1 w show ?thesis by (auto simp: cacheGet_def fs1_def split: prod.splits)
      next
        case False
        have "fs' = fs2" and "r = Some (Some fi) \<Longrightarrow> fi_isDir fi = ce_IsDir entry \<and> fi_size fi = ce_Size entry \<and> fi_mode fi = ce_Mode entry" for fi
          using False Some assms(2) entry i by (auto simp: cacheGet_def fs1_def split: prod.splits sum.splits)
        with g2 coh False show ?thesis by (auto simp: info_coh_def entry_coh_def IsNegative_def)
      qed
    qed
  qed
  then show "good env objs fs'" "fs_world fs' = fs_world fs" "r = Some (Some fi) \<Longrightarrow> info_coh (objs (fs_world fs)) k fi"
    by blast+
qed

lemma stat_s3_good:
  assumes "good env objs fs" and "s3_ok (fe_s3 env) objs" and "\<not> HasSuffix k ''/''" and "stat_s3 env path k k' fs = (r, fs')"
  shows "good env objs fs' \<and> fs_world fs' = fs_world fs \<and> (\<forall>fi. r = Inr fi \<longrightarrow> info_coh (objs (fs_world fs)) k fi)"
proof -
  obtain ri fs1 where i: "fs_inode env k fs = (ri, fs1)" by fastforce
  obtain ri' fs2 where i': "fs_inode env k' fs = (ri', fs2)" by fastforce
  have g: "good env objs fs1" "fs_world fs1 = fs_world fs" "good env objs fs2" "fs_world fs2 = fs_world fs"
    using good_inode [OF assms(1) i] good_inode [OF assms(1) i'] by simp_all
  show ?thesis
  proof (cases "HeadObject (fe_s3 env) k (fs_world fs)")
    case (Inr oi)
    note coh = head_info_coh(1) [OF assms(2) Inr assms(3)]
    from Inr assms(4) i g coh show ?thesis
      by (auto simp: stat_s3_def Let_def split: sum.splits intro!: good_cachePut)
  next
    case (Inl e)
    with assms(1,4) i' g show ?thesis
      by (auto simp: stat_s3_def Let_def dir_info_coh split: sum.splits if_splits intro!: good_cachePut good_negative)
  qed
qed

lemma Stat_good:
  assumes "good env objs fs" and "s3_ok (fe_s3 env) objs" and "Stat env path fs = (r, fs')"
  shows "good env objs fs'" and "fs_world fs' = fs_world fs"
    and "r = Inr fi \<Longrightarrow> \<not> fi_isDir fi \<Longrightarrow> attrs_ok (objs (fs_world fs)) (s3KeyFromPath path) (fi_size fi) (fi_mode fi)"
proof -
  let ?k = "s3KeyFromPath path"
  have "good env objs fs' \<and> fs_world fs' = fs_world fs \<and>
    (\<forall>fi. r = Inr fi \<longrightarrow> fi_isDir fi \<or> attrs_ok (objs (fs_world fs)) ?k (fi_size fi) (fi_mode fi))"
  proof (cases "?k = []")
    case True
    then obtain fi where ri: "root_info env fs = (fi, fs')" "r = Inr fi"
      using assms(3) by (auto simp: Stat_def split: prod.splits)
    obtain ri' fs1 where i: "fs_inode env [] fs = (ri', fs1)" by fastforce
    from good_inode [OF assms(1) i] ri i show ?thesis by (auto simp: root_info_def newDirInfo_def)
  next
    case False
    from assms(3) this show ?thesis
    proof (cases rule: Stat_cases)
      case (file_hit fi)
      from cacheGet_good(1,2) [OF assms(1) file_hit(1)] cacheGet_good(3) [OF assms(1) file_hit(1) refl] file_hit(2)
      show ?thesis by (auto simp: info_coh_def)
    next
      case (dir_hit c fs1 fi)
      note a = cacheGet_good(1,2) [OF assms(1) dir_hit(1)]
      have "canon_key ?k" using s3KeyFromPath_cases [of path] False by blast
      then have "HasSuffix (s3DirKey ?k) ''/''" by (simp add: HasSuffix_byte)
      with cacheGet_good(1,2) [OF a(1) dir_hit(3)] cacheGet_good(3) [OF a(1) dir_hit(3) refl] dir_hit(4) a(2)
      show ?thesis by (auto simp: info_coh_def attrs_ok_def)
    next
      case (s3 c fs1 c' fs2)
      note a = cacheGet_good(1,2) [OF assms(1) s3(1)]
      note b = cacheGet_good(1,2) [OF a(1) s3(3)]
      from stat_s3_good [OF b(1) assms(2) file_key_suffix s3(5)] a(2) b(2) show ?thesis by (auto simp: info_coh_def)
    qed
  qed
  then show "good env objs fs'" "fs_world fs' = fs_world fs"
    "r = Inr fi \<Longrightarrow> \<not> fi_isDir fi \<Longrightarrow> attrs_ok (objs (fs_world fs)) ?k (fi_size fi) (fi_mode fi)"
    by blast+
qed

lemma default_info_coh:
  assumes "m k = Some obj" and "so_meta obj = posixMetadata DefaultUID DefaultGID DefaultFileMode" and "\<not> HasSuffix k ''/''"
    and "fi_size info = int (length (so_data obj))" and "fi_mode info = DefaultFileMode"
  shows "info_coh m k info"
  using assms by (simp add: info_coh_def attrs_ok_def)

lemma open_new_good:
  assumes "good env objs fs" and "s3_ok (fe_s3 env) objs" and "\<not> HasSuffix k ''/''" and "open_new env io path k fs = (Inr f, fs')"
  shows "good env objs fs'"
proof -
  let ?m = "posixMetadata DefaultUID DefaultGID DefaultFileMode"
  obtain inode fs1 where i: "fs_inode env k fs = (Inr inode, fs1)"
    using assms(4) by (auto simp: open_new_def split: prod.splits sum.splits)
  obtain w where p: "PutObject (fe_s3 env) k [] (int (length ([] :: bytes))) ?m (fs_world fs1) = (None, w)"
    using assms(4) i by (auto simp: open_new_def split: prod.splits option.splits)
  let ?info = "newFileInfoFromS3 (nameFromPath path) 0 (fe_now env) False inode Map.empty"
  have fs': "fs' = cacheInvalidateParent k (cachePut env k ?info (fs1\<lparr>fs_world := w\<rparr>))"
    using assms(4) i p by (simp add: open_new_def Let_def)
  obtain obj where o: "objs w = (objs (fs_world fs1))(k \<mapsto> obj)" "so_data obj = []" "so_meta obj = ?m"
    by (rule store.put_ok [OF assms(2) p])
  have "info_coh (objs w) k ?info"
    by (rule default_info_coh [where obj = obj]) (use o assms(3) in \<open>simp_all add: newFileInfoFromS3_def parseMode_missing\<close>)
  then show ?thesis
    unfolding fs' using good_inode [OF assms(1) i] o(1)
    by (intro good_drop good_write_put [where fs = fs1]) simp_all
qed

lemma OpenFile_good:
  assumes "good env objs fs" and "s3_ok (fe_s3 env) objs" and "OpenFile env io path flags perm fs = (Inr f, fs')"
  shows "good env objs fs'"
proof -
  let ?k = "s3KeyFromPath path"
  obtain ri fs1 where i: "fs_inode env ?k fs = (ri, fs1)" by fastforce
  obtain ri' fs2 where i': "fs_inode env (s3DirKey ?k) fs = (ri', fs2)" by fastforce
  obtain ri'' fs3 where i'': "fs_inode env [] fs = (ri'', fs3)" by fastforce
  note g = good_inode [OF assms(1) i] good_inode [OF assms(1) i'] good_inode [OF assms(1) i'']
  show ?thesis
  proof (cases "?k = []")
    case True
    with assms(3) g i'' show ?thesis by (auto simp: OpenFile_def root_info_def)
  next
    case False
    show ?thesis
    proof (cases "HeadObject (fe_s3 env) ?k (fs_world fs)")
      case (Inr oi)
      note coh = head_info_coh(2) [OF assms(2) Inr file_key_suffix]
      from False Inr assms(3) i g coh show ?thesis
        by (auto simp: OpenFile_def Let_def split: sum.splits if_splits intro!: good_cachePut)
    next
      case (Inl e)
      show ?thesis
      proof (cases "writable_flags flags")
        case True
        with False Inl assms(3) show ?thesis
          by (intro open_new_good [OF assms(1,2) file_key_suffix]) (simp add: OpenFile_def)
      next
        case nw: False
        with False Inl assms(3) have "open_dir env path (s3DirKey ?k) fs = (Inr f, fs')" by (simp add: OpenFile_def)
        with i' g show ?thesis
          by (auto simp: open_dir_def Let_def dir_info_coh split: sum.splits if_splits intro!: good_cachePut)
      qed
    qed
  qed
qed

lemma wf_Close_good:
  assumes "good env objs fs" and "s3_ok (fe_s3 env) objs" and "\<not> HasSuffix (wf_s3Key f) ''/''"
    and "wf_Close env io (f, fs) = (None, f', fs')"
  shows "good env objs fs'"
proof (cases "wf_closed f")
  case True
  with assms(1,4) show ?thesis by (simp add: wf_Close_def)
next
  case False
  let ?m = "posixMetadata DefaultUID DefaultGID DefaultFileMode" and ?k = "wf_s3Key f" and ?d = "tf_data (wf_tmp f)"
  obtain w where p: "PutObject (fe_s3 env) ?k ?d (int (length ?d)) ?m (fs_world fs) = (None, w)"
    using assms(4) False by (auto simp: wf_Close_def Let_def split: option.splits prod.splits)
  obtain r fs1 where d: "dataCacheInvalidate env ?k (cacheInvalidateParent ?k (cacheInvalidate ?k (fs\<lparr>fs_world := w\<rparr>))) = (r, fs1)"
    by fastforce
  obtain info where fs': "fs' = cachePut env ?k info fs1" "fi_size info = int (length ?d)" "fi_mode info = DefaultFileMode"
    using assms(4) False p d by (auto simp: wf_Close_def Let_def split: option.splits)
  obtain obj where o: "objs w = (objs (fs_world fs))(?k \<mapsto> obj)" "so_data obj = ?d" "so_meta obj = ?m"
    by (rule store.put_ok [OF assms(2) p])
  have "good env objs (cacheInvalidate ?k (fs\<lparr>fs_world := w\<rparr>))"
    by (rule good_write [OF assms(1)]) (simp_all add: o(1))
  then have "good env objs fs1" by (intro good_dataCache [OF _ d] good_drop(2))
  moreover have "fs_world fs1 = w" using dataCacheInvalidate_frame(1) [OF d] by simp
  ultimately show ?thesis
    unfolding fs'(1) using o assms(3) fs'(2,3) by (intro good_cachePut default_info_coh [where obj = obj]) simp_all
qed

lemma sf_Truncate_good:
  assumes "good env objs fs" and "s3_ok (fe_s3 env) objs" and "sf_Truncate env (f, fs) = (None, f', fs')"
  shows "good env objs fs'"
proof -
  let ?m = "posixMetadata DefaultUID DefaultGID DefaultFileMode"
  obtain w where p: "PutObject (fe_s3 env) (sf_s3Key f) [] (int (length ([] :: bytes))) ?m (fs_world fs) = (None, w)"
    and d: "dataCacheInvalidate env (sf_s3Key f) (cacheInvalidate (sf_s3Key f) (fs\<lparr>fs_world := w\<rparr>)) = (None, fs')"
    using assms(3) by (auto simp: sf_Truncate_def Let_def split: if_splits prod.splits option.splits)
  have "good env objs (cacheInvalidate (sf_s3Key f) (fs\<lparr>fs_world := w\<rparr>))"
    by (rule good_write [OF assms(1)]) (use store.put_frame [OF assms(2) p] in simp_all)
  then show ?thesis by (rule good_dataCache [OF _ d])
qed

lemma set_meta_good:
  assumes "good env objs fs" and "s3_ok (fe_s3 env) objs" and "set_meta env label k meta fs = (None, fs')"
  shows "good env objs fs'"
proof -
  obtain w where c: "CopyObjectWithMetadata (fe_s3 env) k meta (fs_world fs) = (None, w)"
    and fs': "fs' = cacheInvalidate k (fs\<lparr>fs_world := w\<rparr>)"
    using assms(3) by (auto simp: set_meta_def split: prod.splits option.splits)
  have "objs w x = objs (fs_world fs) x" if "x \<noteq> k" for x
    using s3_okD(8) [OF assms(2) c] that by (auto simp: outcome_def split: option.splits)
  then show ?thesis unfolding fs' by (intro good_write [OF assms(1)]) simp_all
qed

lemma Symlink_good:
  assumes "good env objs fs" and "s3_ok (fe_s3 env) objs" and "s3_reads (fe_s3 env) objs" and "Symlink env target link fs = (None, fs')"
  shows "good env objs fs'"
proof -
  let ?k = "s3KeyFromPath link"
  let ?m = "[MetaKeySymlinkTarget \<mapsto> target, MetaKeyUID \<mapsto> Itoa DefaultUID, MetaKeyGID \<mapsto> Itoa DefaultGID, MetaKeyMode \<mapsto> ''0777'']"
  obtain e w where h: "HeadObject (fe_s3 env) ?k (fs_world fs) = Inl e"
    and p: "PutObject (fe_s3 env) ?k [] (int (length ([] :: bytes))) ?m (fs_world fs) = (None, w)"
    and fs': "fs' = cacheInvalidateParent ?k (fs\<lparr>fs_world := w\<rparr>)"
    using assms(4) by (auto simp: Symlink_def Let_def split: if_splits sum.splits prod.splits option.splits)
  have "objs (fs_world fs) ?k = None" using h assms(3) by (cases "objs (fs_world fs) ?k") (auto simp: s3_reads_def)
  then have "good env objs (fs\<lparr>fs_world := w\<rparr>)"
    by (intro good_new_object [OF assms(1)]) (auto intro: store.put_frame [OF assms(2) p])
  then show ?thesis unfolding fs' by (intro good_drop)
qed

lemma move_object_good:
  assumes "good env objs fs" and "s3_ok (fe_s3 env) objs" and "move_object env m1 m2 k k' fs = (None, fs')"
  shows "good env objs fs'"
proof -
  obtain w w' where c: "CopyObject (fe_s3 env) k k' (fs_world fs) = (None, w)" "DeleteObject (fe_s3 env) k w = (None, w')"
    using assms(3) by (auto simp: move_object_def split: prod.splits option.splits)
  let ?f = "fs_renameKey env k k' (fs\<lparr>fs_world := w'\<rparr>)"
  let ?g = "cacheInvalidateParent k' (cacheInvalidateParent k (cacheInvalidate k' (cacheInvalidate k ?f)))"
  obtain r fs3 where d: "dataCacheInvalidate env k ?g = (r, fs3)" by fastforce
  have d': "dataCacheInvalidate env k' fs3 = (None, fs') \<or> fs' = fs3"
    using assms(3) c d by (auto simp: move_object_def Let_def split: option.splits)
  have "objs w' x = objs (fs_world fs) x" if "x \<noteq> k" "x \<noteq> k'" for x
    using s3_okD(7) [OF assms(2) c(1)] outcomeD(1) [OF s3_okD(6) [OF assms(2) c(2)] that(1)] that
    by (auto simp: outcome_def split: option.splits)
  then have "good env objs (cacheInvalidate k' (cacheInvalidate k ?f))"
    by (intro good_write2 [OF assms(1)]) simp_all
  then have "good env objs ?g" by (intro good_drop(2))
  then have g: "good env objs fs3" by (rule good_dataCache [OF _ d])
  from d' g show ?thesis by (auto intro: good_dataCache)
qed

lemma remove_object_good:
  assumes "good env objs fs" and "s3_ok (fe_s3 env) objs" and "remove_object env msg k fs = (None, fs')"
  shows "good env objs fs'"
proof -
  obtain w where c: "DeleteObject (fe_s3 env) k (fs_world fs) = (None, w)"
    using assms(3) by (auto simp: remove_object_def split: prod.splits option.splits)
  let ?f = "fs_removeKey env k (fs\<lparr>fs_world := w\<rparr>)"
  have d: "dataCacheInvalidate env k (cacheInvalidateParent k (cacheInvalidate k ?f)) = (None, fs')"
    using assms(3) c by (simp add: remove_object_def)
  have "good env objs (cacheInvalidate k ?f)"
    by (rule good_write [OF assms(1)]) (use store.delete_frame [OF assms(2) c] in simp_all)
  then show ?thesis by (intro good_dataCache [OF _ d] good_drop(2))
qed

lemma MkdirAll_good:
  assumes "good env objs fs" and "s3_ok (fe_s3 env) objs" and "MkdirAll env path perm fs = (None, fs')"
  shows "good env objs fs'"
proof -
  let ?d = "s3DirKey (s3KeyFromPath path)"
  obtain w where c: "CreateDirMarker (fe_s3 env) ?d (fs_world fs) = (None, w)"
    using assms(3) by (auto simp: MkdirAll_def Let_def split: prod.splits option.splits)
  obtain ri fs1 where i: "fs_inode env ?d (fs\<lparr>fs_world := w\<rparr>) = (ri, fs1)" by fastforce
  have fs': "fs' = cacheInvalidateParent ?d (cacheInvalidate (s3KeyFromPath path) (cacheInvalidate ?d fs1))"
    using assms(3) c i by (auto simp: MkdirAll_def Let_def split: sum.splits)
  have "objs w x = objs (fs_world fs) x" if "x \<noteq> ?d" for x
    using s3_okD(9) [OF assms(2) c] that by (auto simp: outcome_def)
  then have "good env objs (cacheInvalidate ?d fs1)"
    using fs_inode_frame [OF i] by (intro good_write [OF assms(1)]) simp_all
  then show ?thesis unfolding fs' by (rule good_drop(2) [OF good_drop(1)])
qed

lemma Copy_good:
  assumes "good env objs fs" and "s3_ok (fe_s3 env) objs" and "fs_Copy env src dst fs = (None, fs')"
  shows "good env objs fs'"
proof -
  obtain w where c: "CopyObject (fe_s3 env) (s3KeyFromPath src) (s3KeyFromPath dst) (fs_world fs) = (None, w)"
    and fs': "fs' = cacheInvalidateParent (s3KeyFromPath dst) (cacheInvalidate (s3KeyFromPath dst) (fs\<lparr>fs_world := w\<rparr>))"
    using assms(3) by (auto simp: fs_Copy_def Let_def split: prod.splits option.splits)
  have "objs w x = objs (fs_world fs) x" if "x \<noteq> s3KeyFromPath dst" for x
    using s3_okD(7) [OF assms(2) c] that by (auto simp: outcome_def split: option.splits)
  then show ?thesis unfolding fs' by (intro good_drop good_write [OF assms(1)]) simp_all
qed

lemma readdir_cached_good:
  assumes "good env objs fs" and "readdir_cached env ces infos fs = (r, fs')"
  shows "good env objs fs' \<and> fs_world fs' = fs_world fs"
  using assms
proof (induction env ces infos fs rule: readdir_cached.induct)
  case (2 env ce ces infos fs)
  obtain ri fs1 where i: "fs_inode env (ce_S3Key ce) fs = (ri, fs1)" by fastforce
  note g = good_inode [OF 2(3) i]
  show ?case
  proof (cases "nameFromS3Key (ce_S3Key ce) = []")
    case True
    with 2(1) [OF refl True] 2(3,4) show ?thesis by (simp add: Let_def)
  next
    case False
    show ?thesis
    proof (cases ri)
      case (Inl e)
      with 2(4) False i g show ?thesis by (auto simp: Let_def)
    next
      case (Inr inode)
      with 2(2) [OF refl False i [unfolded Inr, symmetric] refl] g 2(4) False i show ?thesis by (auto simp: Let_def)
    qed
  qed
qed simp

lemma listed_info_coh:
  assumes "s3_reads api objs" and "listing_ok p (objs w) es" and "e \<in> set es" and "isDir = (le_IsDir e \<or> HasSuffix (le_Key e) ''/'')"
  shows "info_coh (objs w) (le_Key e) (newFileInfoFromS3 name (le_Size e) t isDir inode
           (if isDir then Map.empty else case HeadObject api (le_Key e) w of Inl _ \<Rightarrow> Map.empty | Inr i \<Rightarrow> oi_UserMetadata i))"
proof (cases isDir)
  case True
  then show ?thesis by (simp add: info_coh_def newFileInfoFromS3_def)
next
  case False
  with assms(2-4) obtain obj where o: "objs w (le_Key e) = Some obj" "le_Size e = int (length (so_data obj))"
    unfolding listing_ok_def by (metis (no_types, lifting))
  then have "HeadObject api (le_Key e) w = Inr (obj_info (le_Key e) obj)" using assms(1) by (simp add: s3_reads_def)
  with o False assms(4) show ?thesis
    by (simp add: info_coh_def attrs_ok_def newFileInfoFromS3_def obj_info_def)
qed

lemma readdir_s3_good:
  assumes "good env objs fs" and "s3_reads (fe_s3 env) objs" and "listing_ok p (objs (fs_world fs)) es" and "set entries \<subseteq> set es"
    and "readdir_s3 env pfx entries infos ces fs = (r, fs')"
  shows "good env objs fs' \<and> fs_world fs' = fs_world fs"
  using assms
proof (induction env pfx entries infos ces fs rule: readdir_s3.induct)
  case (2 env pfx entry entries infos ces fs)
  let ?name = "TrimSuffix (TrimPrefix (le_Key entry) pfx) ''/''" and ?d = "le_IsDir entry \<or> HasSuffix (le_Key entry) ''/''"
  obtain ri fs1 where i: "fs_inode env (le_Key entry) fs = (ri, fs1)" by fastforce
  note g = good_inode [OF 2(3) i]
  show ?case
  proof (cases "?name = []")
    case True
    with 2(1) [OF refl True 2(3-5)] 2(6,7) show ?thesis by (simp add: Let_def)
  next
    case False
    show ?thesis
    proof (cases ri)
      case (Inl e)
      with 2(7) False i g show ?thesis by (auto simp: Let_def)
    next
      case (Inr inode)
      let ?meta = "if ?d then Map.empty else case HeadObject (fe_s3 env) (le_Key entry) (fs_world fs1) of
          Inl _ \<Rightarrow> Map.empty | Inr i \<Rightarrow> oi_UserMetadata i"
      let ?fi = "newFileInfoFromS3 ?name (le_Size entry) (le_LastModified entry) ?d inode ?meta"
      have "info_coh (objs (fs_world fs1)) (le_Key entry) ?fi"
        unfolding conjunct2 [OF g] by (rule listed_info_coh [OF 2(4,5)]) (use 2(6) in auto)
      with g have gp: "good env objs (cachePut env (le_Key entry) ?fi fs1)" by (intro good_cachePut) simp_all
      have r: "readdir_s3 env pfx entries (infos @ [?fi]) (ces @ [infoToCacheEntry (le_Key entry) ?fi])
          (cachePut env (le_Key entry) ?fi fs1) = (r, fs')"
        using 2(7) False i Inr by (simp add: Let_def)
      have "good env objs fs' \<and> fs_world fs' = fs_world (cachePut env (le_Key entry) ?fi fs1)"
        by (rule 2(2) [OF refl False refl i [unfolded Inr, symmetric] refl refl refl gp 2(4)]) (use 2(5,6) g r in simp_all)
      with g show ?thesis by simp
    qed
  qed
qed simp

lemma Readdir_good:
  assumes "good env objs fs" and "s3_ok (fe_s3 env) objs" and "s3_reads (fe_s3 env) objs" and "sf_Readdir env count f fs = (r, fs')"
  shows "good env objs fs'"
proof -
  define pfx where "pfx = (if sf_s3Key f \<noteq> [] \<and> \<not> HasSuffix (sf_s3Key f) ''/'' then sf_s3Key f @ ''/'' else sf_s3Key f)"
  show ?thesis
  proof (cases "sf_isDir f")
    case False
    with assms(1,4) show ?thesis by (simp add: sf_Readdir_def)
  next
    case dir: True
    show ?thesis
    proof (cases "cacheGetDirListing env pfx fs")
      case (Some ces)
      obtain rc fc where c: "readdir_cached env ces [] fs = (rc, fc)" by fastforce
      have "fs' = fc" using assms(4) dir Some c by (auto simp: sf_Readdir_def pfx_def Let_def split: sum.splits)
      with readdir_cached_good [OF assms(1) c] show ?thesis by simp
    next
      case None
      show ?thesis
      proof (cases "ListObjects (fe_s3 env) pfx (fs_world fs)")
        case (Inl e)
        with assms(1,4) dir None show ?thesis by (simp add: sf_Readdir_def pfx_def Let_def)
      next
        case (Inr entries)
        obtain rs fs1 where s: "readdir_s3 env pfx entries [] [] fs = (rs, fs1)" by fastforce
        have g: "good env objs fs1"
          using readdir_s3_good [OF assms(1,3) s3_okD(4) [OF assms(2) Inr] subset_refl s] by simp
        have "fs' = fs1 \<or> (\<exists>ces. fs' = cachePutDirListing env pfx ces fs1)"
          using assms(4) dir None Inr s by (auto simp: sf_Readdir_def pfx_def [symmetric] Let_def split: sum.splits prod.splits)
        with g show ?thesis by (auto intro: good_drop)
      qed
    qed
  qed
qed

subsection \<open>Sessions\<close>

datatype fs_op =
    OpStat string | OpOpen tmp_io string int uint32 | OpClose tmp_io s3WritableFile | OpReaddir int s3File
  | OpChmod string uint32 | OpChown string int int | OpSymlink string string | OpRename string string | OpRemove string
  | OpMkdirAll string uint32 | OpCopy string string | OpSetXattr string string bytes uint32 | OpRemoveXattr string string
  | OpRead nat "(int \<Rightarrow> put_io) \<times> (bytes \<Rightarrow> reader)" nat s3File | OpTruncate s3File

text \<open>One operation: whether it reported success, where reading may also find nothing, and the new state.\<close>

fun fs_step :: "('w, 'db) fsenv \<Rightarrow> fs_op \<Rightarrow> ('w, 'db) S3FS \<Rightarrow> bool \<times> ('w, 'db) S3FS" where
  "fs_step env (OpStat path) fs = (True, snd (Stat env path fs))"
| "fs_step env (OpOpen io path flags perm) fs = (let (r, fs') = OpenFile env io path flags perm fs in (is_ok r, fs'))"
| "fs_step env (OpClose io f) fs = (let (r, _, fs') = wf_Close env io (f, fs) in (r = None, fs'))"
| "fs_step env (OpReaddir count f) fs = (True, snd (sf_Readdir env count f fs))"
| "fs_step env (OpChmod path mode) fs = (let (r, fs') = Chmod env path mode fs in (r = None, fs'))"
| "fs_step env (OpChown path uid gid) fs = (let (r, fs') = Chown env path uid gid fs in (r = None, fs'))"
| "fs_step env (OpSymlink target link) fs = (let (r, fs') = Symlink env target link fs in (r = None, fs'))"
| "fs_step env (OpRename old new) fs = (let (r, fs') = Rename env old new fs in (r = None, fs'))"
| "fs_step env (OpRemove path) fs = (let (r, fs') = Remove env path fs in (r = None, fs'))"
| "fs_step env (OpMkdirAll path perm) fs = (let (r, fs') = MkdirAll env path perm fs in (r = None, fs'))"
| "fs_step env (OpCopy src dst) fs = (let (r, fs') = fs_Copy env src dst fs in (r = None, fs'))"
| "fs_step env (OpSetXattr path name value opt) fs = (let (r, fs') = SetXattr env path name value opt fs in (r = None, fs'))"
| "fs_step env (OpRemoveXattr path name) fs = (let (r, fs') = RemoveXattr env path name fs in (r = None, fs'))"
| "fs_step env (OpRead fuel rio p f) fs = (case sf_Read fuel env rio p (f, fs) of None \<Rightarrow> (False, fs) | Some (r, f', fs') \<Rightarrow> (True, fs'))"
| "fs_step env (OpTruncate f) fs = (let (r, f', fs') = sf_Truncate env (f, fs) in (r = None, fs'))"

text \<open>Files are closed under the key of a file, as \<open>OpenFile\<close> made them.\<close>

fun fs_op_ok :: "fs_op \<Rightarrow> bool" where
  "fs_op_ok (OpClose io f) = (\<not> HasSuffix (wf_s3Key f) ''/'')"
| "fs_op_ok _ = True"

fun fs_run :: "('w, 'db) fsenv \<Rightarrow> (time \<times> fs_op) list \<Rightarrow> ('w, 'db) S3FS \<Rightarrow> ('w, 'db) S3FS option" where
  "fs_run env [] fs = Some fs"
| "fs_run env ((now, x) # xs) fs =
     (case fs_step (env\<lparr>fe_now := now\<rparr>) x fs of (True, fs') \<Rightarrow> fs_run env xs fs' | (False, _) \<Rightarrow> None)"

lemma fs_step_good:
  assumes "good env objs fs" and "s3_ok (fe_s3 env) objs" and "s3_reads (fe_s3 env) objs" and "fs_op_ok x"
    and "fs_step env x fs = (True, fs')"
  shows "good env objs fs'"
proof (cases x)
  case (OpStat path)
  with assms(5) show ?thesis using Stat_good(1) [OF assms(1,2)] by (metis fs_step.simps(1) prod.collapse snd_conv)
next
  case (OpOpen io path flags perm)
  with assms(5) show ?thesis by (auto simp: is_ok_iff split: prod.splits intro: OpenFile_good [OF assms(1,2)])
next
  case (OpClose io f)
  with assms(4,5) show ?thesis by (auto split: prod.splits intro: wf_Close_good [OF assms(1,2)])
next
  case (OpReaddir count f)
  with assms(5) show ?thesis using Readdir_good [OF assms(1-3)] by (metis fs_step.simps(4) prod.collapse snd_conv)
next
  case (OpChmod path mode)
  with assms(5) show ?thesis
    by (auto simp: Chmod_def split: prod.splits option.splits intro: set_meta_good [OF assms(1,2)])
next
  case (OpChown path uid gid)
  with assms(5) show ?thesis
    by (auto simp: Chown_def Let_def split: prod.splits option.splits intro: set_meta_good [OF assms(1,2)])
next
  case (OpSymlink target link)
  with assms(5) show ?thesis by (auto split: prod.splits intro: Symlink_good [OF assms(1-3)])
next
  case (OpRename old new)
  with assms(5) show ?thesis
    by (auto simp: Rename_def Let_def split: prod.splits sum.splits intro: move_object_good [OF assms(1,2)])
next
  case (OpRemove path)
  with assms(5) show ?thesis
    by (auto simp: Remove_def Let_def split: prod.splits sum.splits intro: remove_object_good [OF assms(1,2)])
next
  case (OpMkdirAll path perm)
  with assms(5) show ?thesis by (auto split: prod.splits intro: MkdirAll_good [OF assms(1,2)])
next
  case (OpCopy src dst)
  with assms(5) show ?thesis by (auto split: prod.splits intro: Copy_good [OF assms(1,2)])
next
  case (OpSetXattr path name v opt)
  with assms(5) have s: "SetXattr env path name v opt fs = (None, fs')" by (auto split: prod.splits)
  then show ?thesis by (cases rule: SetXattr_cases) (auto intro: set_meta_good [OF assms(1,2)])
next
  case (OpRemoveXattr path name)
  with assms(5) have s: "RemoveXattr env path name fs = (None, fs')" by (auto split: prod.splits)
  then show ?thesis by (cases rule: RemoveXattr_cases) (auto intro: set_meta_good [OF assms(1,2)])
next
  case (OpRead fuel rio p f)
  with assms(5) obtain dco where "fs' = fs\<lparr>fs_dataCache := dco\<rparr> \<or> fs' = fs"
    by (auto simp: sf_Read_def Let_def split: option.splits if_splits prod.splits)
  with assms(1) show ?thesis by (auto simp: good_def cache_wf_def fs_coh_def fs_entries_def)
next
  case (OpTruncate f)
  with assms(5) have "sf_Truncate env (f, fs) = (None, snd (sf_Truncate env (f, fs)))" "fs' = snd (snd (sf_Truncate env (f, fs)))"
    by (auto split: prod.splits)
  then show ?thesis using sf_Truncate_good [OF assms(1,2)] by (metis prod.collapse)
qed

lemma good_now [simp]: "good (env\<lparr>fe_now := t\<rparr>) objs fs = good env objs fs"
  by (simp add: good_def cache_wf_def)

lemma fs_run_good:
  assumes "good env objs fs" and "s3_ok (fe_s3 env) objs" and "s3_reads (fe_s3 env) objs" and "\<forall>(t, x)\<in>set xs. fs_op_ok x"
    and "fs_run env xs fs = Some fs'"
  shows "good env objs fs'"
  using assms
proof (induction xs arbitrary: fs)
  case (Cons tx xs)
  obtain t x where tx: "tx = (t, x)" by fastforce
  obtain fs1 where st: "fs_step (env\<lparr>fe_now := t\<rparr>) x fs = (True, fs1)" and run: "fs_run env xs fs1 = Some fs'"
    using Cons.prems(5) tx by (auto split: prod.splits bool.splits)
  have "good (env\<lparr>fe_now := t\<rparr>) objs fs1"
    by (rule fs_step_good [OF _ _ _ _ st]) (use Cons.prems tx in auto)
  with Cons.IH [OF _ Cons.prems(2,3) _ run] Cons.prems(4) show ?case by simp
qed simp

text \<open>
  C3. Attributes agree with the bucket: after any session of operations that reported success,
  at whatever times, starting with an empty metadata cache, the size and mode \<open>Stat\<close> shows for a
  file, from its cache or not, are those of the object under the path's key.
\<close>
theorem stat_agrees_with_bucket:
  assumes "s3_ok (fe_s3 env) objs" and "s3_reads (fe_s3 env) objs" and "range_ok (fe_rng env)"
    and "fs_cache fs = Some (NewMetadataCache config)" and "\<forall>(t, x)\<in>set xs. fs_op_ok x" and "fs_run env xs fs = Some fs1"
    and "Stat env path fs1 = (Inr fi, fs2)" and "\<not> fi_isDir fi"
  shows "\<exists>obj. objs (fs_world fs1) (s3KeyFromPath path) = Some obj \<and> fi_size fi = int (length (so_data obj)) \<and>
           fi_mode fi = parseMode (so_meta obj) False"
proof -
  have "good env objs fs"
    using assms(3,4) by (simp add: good_def cache_wf_def fs_coh_def fs_entries_def NewMetadataCache_inv mc_view_def fresh_cache)
  then have "good env objs fs1" by (rule fs_run_good [OF _ assms(1,2,5,6)])
  from Stat_good(3) [OF this assms(1,7) refl assms(8)] show ?thesis by (auto simp: attrs_ok_def)
qed

lemma cacheGet_miss: "fs_entries fs k = None \<Longrightarrow> cacheGet env k fs = (None, fs)"
  by (auto simp: cacheGet_def GetEntry_def fs_entries_def mc_view_def split: option.splits)

lemma Stat_miss:
  assumes "fs_entries fs k = None" and "fs_entries fs (s3DirKey k) = None" and "s3KeyFromPath path = k" and "k \<noteq> []"
  shows "Stat env path fs = stat_s3 env path k (s3DirKey k) fs"
  using assms by (simp add: Stat_def cacheGet_miss)

lemma ex_entries: "fs_entries ex_fs_a = Map.empty"
  by (simp add: fs_entries_def fun_eq_iff mc_view_def fresh_cache)

text \<open>The example: an object is looked at, so that it is cached, and given mode 0600.\<close>

lemma ex_session:
  "\<exists>fs1 fi fs2. fs_run ex_fsenv [(0, OpStat ''/a''), (1, OpChmod ''/a'' 384)] ex_fs_a = Some fs1 \<and>
     Stat ex_fsenv ''/a'' fs1 = (Inr fi, fs2) \<and> \<not> fi_isDir fi \<and>
     map_of (fs_world fs1) ''a'' = Some ((ex_obj ''hello'')\<lparr>so_meta := [MetaKeyMode \<mapsto> FormatUint 384 8]\<rparr>)"
proof -
  let ?env = "ex_fsenv\<lparr>fe_now := 0\<rparr>"
  have i: "fs_inode env ''a'' fs = (Inr 2, fs)" if "fs_handles fs = mem_s1" "fe_bolt env = mem_bolt" for env and fs :: "(memstore, memdb) S3FS"
    using that by (simp add: fs_inode_def GetOrCreateInode_def mem_s1_keys)
  have d: "s3DirKey ''a'' = ''a/''" by code_simp
  obtain info where s1: "Stat ?env ''/a'' ex_fs_a = (Inr info, cachePut ?env ''a'' info ex_fs_a)"
    using i [of ex_fs_a ?env] by (simp add: Stat_miss [OF _ _ ex_paths(1)] ex_entries stat_s3_def Let_def)
  let ?fs = "cachePut ?env ''a'' info ex_fs_a"
  let ?w = "mem_set ''a'' ((ex_obj ''hello'')\<lparr>so_meta := [MetaKeyMode \<mapsto> FormatUint 384 8]\<rparr>) (fs_world ex_fs_a)"
  let ?fsc = "cacheInvalidate ''a'' (?fs\<lparr>fs_world := ?w\<rparr>)"
  have "Perm (384 :: uint32) = 384" by (simp add: Perm_def)
  then have s2: "Chmod (ex_fsenv\<lparr>fe_now := 1\<rparr>) ''/a'' 384 ?fs = (None, ?fsc)"
    by (simp add: Chmod_def find_object_def ex_paths set_meta_def obj_info_def)
  have wf: "cache_wf ?env ?fs" by (intro cache_wf_ops fs_inv_cache_wf) (use ex_fs_a_inv in \<open>simp add: fs_inv_def\<close>)
  then have "cache_wf ?env (?fs\<lparr>fs_world := ?w\<rparr>)" by (simp add: cache_wf_def)
  note le = cache_entries(3) [OF this, of "''a''"]
  have e: "fs_entries ?fs ''a/'' = None"
    by (rule map_le_NoneD [OF cache_entries(1) [OF fs_inv_cache_wf]])
       (use ex_fs_a_inv in \<open>simp_all add: fs_inv_def ex_entries\<close>)
  have n: "fs_entries ?fsc ''a'' = None" "fs_entries ?fsc ''a/'' = None"
    by (rule map_le_NoneD [OF le], simp add: e)+
  have m: "map_of (fs_world ?fsc) ''a'' = Some ((ex_obj ''hello'')\<lparr>so_meta := [MetaKeyMode \<mapsto> FormatUint 384 8]\<rparr>)"
    by (simp add: mem_set_def)
  have "\<exists>fi fs2. Stat ex_fsenv ''/a'' ?fsc = (Inr fi, fs2) \<and> \<not> fi_isDir fi"
    using i [of ?fsc ex_fsenv] n m
    by (simp add: Stat_miss [OF _ _ ex_paths(1)] d stat_s3_def Let_def newFileInfoFromS3_def obj_info_def HasSuffix_byte)
  moreover have "fs_run ex_fsenv [(0, OpStat ''/a''), (1, OpChmod ''/a'' 384)] ex_fs_a = Some ?fsc"
    using s1 s2 by simp
  ultimately show ?thesis using m by blast
qed

theorem stat_agrees_with_bucket_witness:
  "\<exists>fs1 fi fs2. fs_run ex_fsenv [(0, OpStat ''/a''), (1, OpChmod ''/a'' 384)] ex_fs_a = Some fs1 \<and>
     Stat ex_fsenv ''/a'' fs1 = (Inr fi, fs2) \<and> fi_size fi = 5 \<and> fi_mode fi = 384"
proof -
  obtain fs1 fi fs2 where r: "fs_run ex_fsenv [(0, OpStat ''/a''), (1, OpChmod ''/a'' 384)] ex_fs_a = Some fs1"
    "Stat ex_fsenv ''/a'' fs1 = (Inr fi, fs2)" "\<not> fi_isDir fi"
    "map_of (fs_world fs1) ''a'' = Some ((ex_obj ''hello'')\<lparr>so_meta := [MetaKeyMode \<mapsto> FormatUint 384 8]\<rparr>)"
    using ex_session by blast
  have "parseMode [MetaKeyMode \<mapsto> FormatUint 384 8] False = 384"
    using parseMode_stored [of "[MetaKeyMode \<mapsto> FormatUint 384 8]" 384 False] by simp
  with stat_agrees_with_bucket [OF _ _ _ ex_fs_a_simps(3) _ r(1-3), of map_of] r(1,2,4) show ?thesis
    by (auto simp: ex_paths)
qed



subsection \<open>Reading back what was written\<close>

text \<open>A client reading a file to its end, \<open>p\<close> bytes at a time, as \<open>io.ReadAll\<close> does; \<open>n\<close> bounds the number of reads.\<close>

primrec read_all ::
  "nat \<Rightarrow> nat \<Rightarrow> ('w, 'db) fsenv \<Rightarrow> (int \<Rightarrow> put_io) \<times> (bytes \<Rightarrow> reader) \<Rightarrow> nat \<Rightarrow> s3File \<times> ('w, 'db) S3FS \<Rightarrow> bytes option" where
  "read_all 0 fuel env rio p st = None"
| "read_all (Suc n) fuel env rio p st =
     (case sf_Read fuel env rio p st of
        Some ((x, None), st') \<Rightarrow> map_option ((@) x) (read_all n fuel env rio p st')
      | Some ((x, Some EOF), st') \<Rightarrow> Some x
      | _ \<Rightarrow> None)"

text \<open>A file open for reading at an offset up to which it has been read from the start.\<close>

definition reading :: "('w, 'db) fsenv \<Rightarrow> (int \<Rightarrow> put_io) \<times> (bytes \<Rightarrow> reader) \<Rightarrow> bytes \<Rightarrow> s3File \<times> ('w, 'db) S3FS \<Rightarrow> bool" where
  "reading env rio d = (\<lambda>(g, fs).
     \<not> sf_closed g \<and> \<not> sf_isDir g \<and> fi_size (sf_info g) = int (length d) \<and> 0 \<le> sf_offset g \<and> sf_offset g \<le> int (length d) \<and>
     env_ok (file_renv env rio fs) (sf_s3Key g) d \<and> coherent (sf_s3Key g) (sf_etag g) d (fs_dataCache fs) \<and>
     (case sf_chunked g of
        None \<Rightarrow> sf_offset g = 0
      | Some r \<Rightarrow> buf_ok d r \<and> cr_s3Key r = sf_s3Key g \<and> cr_etag r = sf_etag g \<and> from_start (sf_offset g) r (fs_dataCache fs)))"

lemma sf_Read_step:
  assumes "reading env rio d (g, fs)" and "2 * p + 1 \<le> fuel"
  obtains st where "sf_Read fuel env rio p (g, fs) = Some (expected_read d p (sf_offset g), st)"
    and "sf_offset g < int (length d) \<longrightarrow> reading env rio d st \<and> sf_offset (fst st) = sf_offset g + int (length (take p (drop (nat (sf_offset g)) d)))"
proof -
  define r where "r = (case sf_chunked g of None \<Rightarrow> newChunkReader (sf_s3Key g) (fi_size (sf_info g)) (sf_etag g) | Some r \<Rightarrow> r)"
  have r: "buf_ok d r" "cr_s3Key r = sf_s3Key g" "cr_etag r = sf_etag g" "from_start (sf_offset g) r (fs_dataCache fs)"
    using assms(1) new_ok [of d] unfolding r_def reading_def
    by (auto simp: from_start_def split: option.splits)
  have c: "env_ok (file_renv env rio fs) (cr_s3Key r) d" "coherent (cr_s3Key r) (cr_etag r) d (fs_dataCache fs)" "0 \<le> sf_offset g"
    using assms(1) r by (simp_all add: reading_def)
  obtain r' dco where a: "ReadAt fuel (file_renv env rio fs) p (sf_offset g) (r, fs_dataCache fs) = Some (expected_read d p (sf_offset g), r', dco)"
      "buf_ok d r'" "coherent (cr_s3Key r) (cr_etag r) d dco" "same_file r (fs_dataCache fs) r' dco"
      "sf_offset g < cr_size r \<longrightarrow> from_start (sf_offset g + int (length (take p (drop (nat (sf_offset g)) d)))) r' dco"
      "cr_size r \<le> sf_offset g \<longrightarrow> r' = r \<and> dco = fs_dataCache fs"
    by (rule ReadAt_ok [OF c(1) r(1) c(2,3) r(4) assms(2)])
  let ?x = "take p (drop (nat (sf_offset g)) d)"
  let ?g = "g\<lparr>sf_chunked := Some r', sf_offset := sf_offset g + int (length ?x)\<rparr>"
  obtain er where e: "expected_read d p (sf_offset g) = (?x, er)" by (simp add: expected_read_def Let_def)
  have "sf_Read fuel env rio p (g, fs) = Some (expected_read d p (sf_offset g), ?g, fs\<lparr>fs_dataCache := dco\<rparr>)"
    using assms(1) a(1) unfolding e r_def by (simp add: sf_Read_def reading_def split: option.splits)
  moreover have "reading env rio d (?g, fs\<lparr>fs_dataCache := dco\<rparr>)" if "sf_offset g < int (length d)"
  proof -
    have "cr_size r = int (length d)" using r(1) by (simp add: buf_ok_def)
    with that a r assms(1) show ?thesis
      by (auto simp: reading_def same_file_def file_renv_def)
  qed
  ultimately show thesis by (intro that) auto
qed

lemma take_app_rest: "take p (drop a d) @ drop (a + length (take p (drop a d))) d = drop a d"
proof -
  have "drop (a + length (take p (drop a d))) d = drop p (drop a d)" by (auto simp: add.commute min_def)
  then show ?thesis by (simp only: append_take_drop_id)
qed

lemma read_all_exact:
  assumes "reading env rio d (g, fs)" and "2 * p + 1 \<le> fuel" and "0 < p" and "int (length d) - sf_offset g < int n"
  shows "read_all n fuel env rio p (g, fs) = Some (drop (nat (sf_offset g)) d)"
  using assms
proof (induction n arbitrary: g fs)
  case 0
  then show ?case by (simp add: reading_def)
next
  case (Suc n)
  let ?x = "take p (drop (nat (sf_offset g)) d)"
  have off: "0 \<le> sf_offset g" "sf_offset g \<le> int (length d)" using Suc.prems(1) by (simp_all add: reading_def)
  obtain st where s: "sf_Read fuel env rio p (g, fs) = Some (expected_read d p (sf_offset g), st)"
    "sf_offset g < int (length d) \<longrightarrow> reading env rio d st \<and> sf_offset (fst st) = sf_offset g + int (length ?x)"
    by (rule sf_Read_step [OF Suc.prems(1,2)])
  obtain g' fs' where st: "st = (g', fs')" by fastforce
  show ?case
  proof (cases "?x = [] \<or> sf_offset g + int (length ?x) \<ge> int (length d)")
    case True
    have "?x = drop (nat (sf_offset g)) d" using True Suc.prems(3) off by auto
    with True s(1) show ?thesis by (simp add: expected_read_def Let_def)
  next
    case False
    then have lt: "sf_offset g < int (length d)" by simp
    with s(2) st have g': "reading env rio d (g', fs')" "sf_offset g' = sf_offset g + int (length ?x)" by simp_all
    have "0 < length ?x" using False by blast
    then have "int (length d) - sf_offset g' < int n" using Suc.prems(4) g'(2) by linarith
    from Suc.IH [OF g'(1) Suc.prems(2,3) this]
    have "read_all n fuel env rio p (g', fs') = Some (drop (nat (sf_offset g) + length ?x) d)"
      using g'(2) off by (simp add: nat_add_distrib)
    moreover have "?x @ drop (nat (sf_offset g) + length ?x) d = drop (nat (sf_offset g)) d"
      by (rule take_app_rest)
    moreover have "sf_Read fuel env rio p (g, fs) = Some ((?x, None), g', fs')"
      using s(1) st False by (simp add: expected_read_def Let_def)
    ultimately show ?thesis by simp
  qed
qed

lemma Open_existing:
  assumes "s3_reads (fe_s3 env) objs" and "objs (fs_world fs) (s3KeyFromPath path) = Some obj" and "s3KeyFromPath path \<noteq> []"
    and "fs_Open env io path fs = (Inr nf, fs')"
  obtains info where "nf = ReadFile (new_s3File path (s3KeyFromPath path) info False (so_etag obj))"
    and "fi_size info = int (length (so_data obj))" and "fs_world fs' = fs_world fs" and "fs_dataCache fs' = fs_dataCache fs"
proof -
  let ?k = "s3KeyFromPath path"
  have h: "HeadObject (fe_s3 env) ?k (fs_world fs) = Inr (obj_info ?k obj)" using assms(1,2) by (simp add: s3_reads_def)
  have nw: "\<not> writable_flags O_RDONLY" by (simp add: writable_flags_def O_RDONLY_def)
  obtain inode fs1 where i: "fs_inode env ?k fs = (Inr inode, fs1)"
    using assms(3,4) h nw by (auto simp: fs_Open_def OpenFile_def Let_def split: prod.splits sum.splits)
  obtain info where "nf = ReadFile (new_s3File path ?k info False (so_etag obj))" "fs' = cachePut env ?k info fs1"
    and "fi_size info = int (length (so_data obj))"
    using assms(3,4) h nw i
    by (auto simp: fs_Open_def OpenFile_def Let_def obj_info_def newFileInfoFromS3WithETag_def newFileInfoFromS3_def)
  with fs_inode_frame(1,3) [OF i] show thesis by (intro that [of info]) simp_all
qed

lemma Open_reading:
  assumes "s3_reads (fe_s3 env) objs" and "objs (fs_world fs) (s3KeyFromPath path) = Some obj" and "s3KeyFromPath path \<noteq> []"
    and "fs_Open env io path fs = (Inr nf, fs')" and "\<forall>x. reads_as (snd rio x) x"
    and "coherent (s3KeyFromPath path) (so_etag obj) (so_data obj) (fs_dataCache fs)"
  obtains g where "nf = ReadFile g" and "reading env rio (so_data obj) (g, fs')" and "sf_offset g = 0"
proof -
  let ?k = "s3KeyFromPath path"
  obtain info where f: "nf = ReadFile (new_s3File path ?k info False (so_etag obj))" "fi_size info = int (length (so_data obj))"
      "fs_world fs' = fs_world fs" "fs_dataCache fs' = fs_dataCache fs"
    by (rule Open_existing [OF assms(1-4)])
  have "env_ok (file_renv env rio fs') ?k (so_data obj)"
    by (rule env_ok_reads [where objs = objs]) (use assms(1,2,5) f(3) in \<open>simp_all add: file_renv_def\<close>)
  then have "reading env rio (so_data obj) (new_s3File path ?k info False (so_etag obj), fs')"
    using assms(6) f(2,4) by (simp add: reading_def new_s3File_def)
  with f(1) show thesis by (rule that) (simp add: new_s3File_def)
qed

text \<open>
  C4. What is written is what is read: an existing file is opened for writing, read, written,
  truncated and positioned in any order, closed and opened again; reading it to its end, in
  pieces of any size, gives exactly the content those operations leave in a local file, as long
  as the data cache holds nothing else under the new version's entity tag.
\<close>
theorem written_content_reads_back:
  assumes "s3_ok (fe_s3 env) objs" and "s3_reads (fe_s3 env) objs" and "s3KeyFromPath path \<noteq> []"
    and "objs (fs_world fs) (s3KeyFromPath path) = Some obj" and "writable_flags flags"
    and "OpenFile env tmp_ok path flags perm fs = (Inr (WriteFile f), fs1)"
    and "xs \<noteq> []" and "run_ops (wf_step env fs1) xs f = (ys, f')" and "wf_Close env io (f', fs1) = (None, f'', fs2)"
    and "fs_Open env io' path fs2 = (Inr nf, fs3)" and "\<forall>x. reads_as (snd rio x) x" and "0 < p" and "2 * p + 1 \<le> fuel"
    and "\<forall>obj'. objs (fs_world fs2) (s3KeyFromPath path) = Some obj' \<longrightarrow>
           coherent (s3KeyFromPath path) (so_etag obj') (so_data obj') (fs_dataCache fs2)"
  shows "\<exists>t g. run_ops posix_step xs \<lparr>tf_data = so_data obj, tf_pos = 0\<rparr> = (ys, t) \<and> nf = ReadFile g \<and>
           read_all (Suc (length (tf_data t))) fuel env rio p (g, fs3) = Some (tf_data t)"
proof -
  let ?k = "s3KeyFromPath path"
  have h: "HeadObject (fe_s3 env) ?k (fs_world fs) = Inr (obj_info ?k obj)" using assms(2,4) by (simp add: s3_reads_def)
  obtain info where f: "newWritableFile tmp_ok path ?k info = Inr f" and w: "fs_world fs1 = fs_world fs"
    by (rule OpenFile_existing [OF assms(3) h assms(5,6)]) simp
  have fo: "wf_ok f" "wf_s3Key f = ?k" "wf_abs (so_data obj) f = \<lparr>tf_data = so_data obj, tf_pos = 0\<rparr>"
    using f by (auto simp: newWritableFile_def wf_ok_def wf_abs_def)
  have g: "GetObject (fe_s3 env) (wf_s3Key f) (fs_world fs1) = Inr (\<lparr>rd_data = so_data obj, rd_err = None\<rparr>, obj_info ?k obj)"
    using assms(2,4) fo(2) w by (simp add: s3_reads_def)
  note r = wf_run_refines [OF fo(1) g assms(8)]
  have nc: "\<not> wf_closed f'" "wf_abs (so_data obj) f' = wf_tmp f'" "wf_s3Key f' = ?k"
    using r assms(7) fo(2) by (simp_all add: wf_ok_def wf_abs_def)
  obtain obj' where o: "objs (fs_world fs2) ?k = Some obj'" "so_data obj' = tf_data (wf_tmp f')"
    by (rule wf_Close_uploads [OF assms(1) nc(1) assms(9)]) (simp add: nc(3))
  obtain gf where gf: "nf = ReadFile gf" "reading env rio (so_data obj') (gf, fs3)" "sf_offset gf = 0"
    by (rule Open_reading [OF assms(2) o(1) assms(3,10,11)]) (use assms(14) o(1) in simp)
  have "read_all (Suc (length (so_data obj'))) fuel env rio p (gf, fs3) = Some (so_data obj')"
    using read_all_exact [OF gf(2) assms(13,12), of "Suc (length (so_data obj'))"] gf(3) by simp
  with gf(1) o(2) r nc(2) fo(3) show ?thesis by simp
qed

definition ex_fs_p :: "(memstore, memdb) S3FS" where
  "ex_fs_p = NewS3FS [(''a'', ex_obj ''hello'')] mem_s1 None None"

lemma ex_fs_p_simps [simp]:
  "fs_world ex_fs_p = [(''a'', ex_obj ''hello'')]" "fs_handles ex_fs_p = mem_s1" "fs_cache ex_fs_p = None" "fs_dataCache ex_fs_p = None"
  by (simp_all add: ex_fs_p_def NewS3FS_def)

theorem written_content_reads_back_witness:
  "\<exists>f fs1 ys f' f'' fs2 g fs3.
     OpenFile ex_fsenv tmp_ok ''/a'' O_RDWR 0 ex_fs_p = (Inr (WriteFile f), fs1) \<and>
     run_ops (wf_step ex_fsenv fs1) [FSeek 4 0, FWrite ''!!''] f = (ys, f') \<and>
     wf_Close ex_fsenv tmp_ok (f', fs1) = (None, f'', fs2) \<and> fs_Open ex_fsenv tmp_ok ''/a'' fs2 = (Inr (ReadFile g), fs3) \<and>
     read_all 7 9 ex_fsenv (\<lambda>_. io_fine, \<lambda>x. \<lparr>rd_data = x, rd_err = None\<rparr>) 4 (g, fs3) = Some ''hell!!''"
proof -
  let ?rio = "(\<lambda>_. io_fine, \<lambda>x. \<lparr>rd_data = x, rd_err = None\<rparr>)" and ?xs = "[FSeek 4 0, FWrite ''!!'']"
  have i: "fs_inode ex_fsenv ''a'' fs = (Inr 2, fs)" if "fs_handles fs = mem_s1" for fs :: "(memstore, memdb) S3FS"
    using that by (simp add: fs_inode_def GetOrCreateInode_def mem_s1_keys)
  have fl: "writable_flags O_RDWR" "\<not> writable_flags O_RDONLY"
    by (simp_all add: writable_flags_def O_RDWR_def O_WRONLY_def O_CREATE_def O_RDONLY_def)
  obtain f where o: "OpenFile ex_fsenv tmp_ok ''/a'' O_RDWR 0 ex_fs_p = (Inr (WriteFile f), ex_fs_p)"
      and f: "\<not> wf_closed f" "wf_s3Key f = ''a''" "wf_ok f"
    using i [of ex_fs_p] fl by (simp add: OpenFile_def ex_paths newWritableFile_def Let_def cachePut_def cache_op_def wf_ok_def)
  obtain ys f' where r: "run_ops (wf_step ex_fsenv ex_fs_p) ?xs f = (ys, f')" by fastforce
  have "GetObject mem_api ''a'' (fs_world ex_fs_p) = Inr (\<lparr>rd_data = ''hello'', rd_err = None\<rparr>, obj_info ''a'' (ex_obj ''hello''))"
    using mem_api_reads unfolding s3_reads_def by simp
  then have f': "wf_ok f'" "wf_s3Key f' = ''a''" using wf_run_refines [OF f(3) _ r] f(2) by auto
  let ?d = "tf_data (wf_tmp f')" and ?m = "posixMetadata DefaultUID DefaultGID DefaultFileMode"
  let ?fsb = "ex_fs_p\<lparr>fs_world := mem_set ''a'' (mem_obj ?d ?m) (fs_world ex_fs_p)\<rparr>"
  obtain f'' where c: "wf_Close ex_fsenv tmp_ok (f', ex_fs_p) = (None, f'', ?fsb)"
    using f' by (simp add: wf_Close_def wf_ok_def dataCacheInvalidate_def cacheInvalidateParent_def cacheInvalidate_def cache_op_def
        cachePut_def Let_def)
  obtain nf fs3 where g: "fs_Open ex_fsenv tmp_ok ''/a'' ?fsb = (Inr nf, fs3)"
    using i [of ?fsb] fl by (simp add: fs_Open_def OpenFile_def ex_paths Let_def mem_set_def)
  have p: "run_ops posix_step ?xs \<lparr>tf_data = ''hello'', tf_pos = 0\<rparr> = ([OSeek (Inr 4), OWrite 2 None], \<lparr>tf_data = ''hell!!'', tf_pos = 6\<rparr>)"
    by (simp add: tmp_Seek_def SeekStart_def tmp_write_def write_at_def)
  have "\<exists>t g. run_ops posix_step ?xs \<lparr>tf_data = ''hello'', tf_pos = 0\<rparr> = (ys, t) \<and> nf = ReadFile g \<and>
      read_all (Suc (length (tf_data t))) 9 ex_fsenv ?rio 4 (g, fs3) = Some (tf_data t)"
    using written_content_reads_back [OF _ _ _ _ fl(1) o _ r c g, of map_of "ex_obj ''hello''" ?rio 4 9]
    by (simp add: ex_paths reads_as_def coherent_def del: run_ops.simps read_all.simps)
  then obtain gf where "nf = ReadFile gf" "read_all (Suc (length ''hell!!'')) 9 ex_fsenv ?rio 4 (gf, fs3) = Some ''hell!!''"
    unfolding p by (auto simp del: read_all.simps)
  moreover have "Suc (length ''hell!!'') = 7" by simp
  ultimately have "read_all 7 9 ex_fsenv ?rio 4 (gf, fs3) = Some ''hell!!''" "nf = ReadFile gf" by (simp_all only:)
  with o r c g show ?thesis by blast
qed

end
