(* ===== verification/FsInvariant.thy ===== *)
theory FsInvariant
  imports FsCoherence
begin

text \<open>
  What holds of the filesystem whatever happens: the invariants of the handle store and of both
  caches survive every operation, successful or not, with the network, the local disk, the
  database and the clock answering differently each time. The sessions of the coherence theory
  ask every operation to succeed; here they may all fail.
\<close>

subsection \<open>The reader and the data cache\<close>

definition dco_ok :: "DataCacheConfig option \<Rightarrow> DataCache option \<Rightarrow> bool" where
  "dco_ok d dco \<longleftrightarrow> map_option dc_config dco = d \<and> (\<forall>dc. dco = Some dc \<longrightarrow> dc_inv dc \<and> dc_bounded dc)"

lemma dco_ok_Get:
  assumes "dco_ok d (Some dc)" and "dc_Get os now k etag dc = Inr (r, dc')"
  shows "dco_ok d (Some dc')"
proof -
  have dc: "dc_inv dc" "dc_bounded dc" using assms(1) by (simp_all add: dco_ok_def)
  show ?thesis
    by (rule dc_Get_ok [OF dc(1), of os now k etag])
       (use assms dc(2) in \<open>auto simp: dco_ok_def dc_bounded_def\<close>)
qed

lemma dc_Put_config:
  assumes "dc_inv dc" and "dc_bounded dc"
  shows "dc_config (snd (dc_Put os io now k etag data dc)) = dc_config dc"
proof (cases "put_io_ok io")
  case True
  show ?thesis by (rule dc_Put_success [OF assms(1) True, of os now k etag data])
      (use assms(2) in \<open>simp_all add: dc_bounded_def\<close>)
qed (rule dc_Put_failed(3) [OF assms(1)])

lemma fetch_s3_dco:
  assumes "dco_ok d dco" and "fetch_s3 env off len (r, dco) = (e, r', dco')"
  shows "dco_ok d dco'"
  using assms dc_Put_any(1,2) dc_Put_config
  by (auto simp: fetch_s3_def dco_ok_def Let_def split: sum.splits prod.splits if_splits option.splits)

lemma fetchChunk_dco:
  assumes "dco_ok d dco" and "fetchChunk env off (r, dco) = (e, r', dco')"
  shows "dco_ok d dco'"
proof (cases "uses_cache r dco")
  case False
  with assms show ?thesis by (auto simp: fetchChunk_def Let_def split: if_splits intro: fetch_s3_dco)
next
  case True
  then obtain dc where dc: "dco = Some dc" by (cases dco) (auto simp: uses_cache_def)
  show ?thesis
  proof (cases "dc_Get (re_os env) (re_now env) (cr_s3Key r) (cr_etag r) dc")
    case (Inl x)
    with assms True dc show ?thesis by (auto simp: fetchChunk_def Let_def split: if_splits intro: fetch_s3_dco)
  next
    case (Inr x)
    obtain f dcx where x: "x = (f, dcx)" by fastforce
    have g: "dco_ok d (Some dcx)" using dco_ok_Get [of d dc] assms(1) Inr dc x by simp
    with assms True dc Inr x show ?thesis
      by (auto simp: fetchChunk_def Let_def split: if_splits option.splits prod.splits intro: fetch_s3_dco [OF g])
  qed
qed

lemma read_loop_dco:
  assumes "dco_ok d dco" and "read_loop fuel env p out off r dco = Some (e, out', off', r', dco')"
  shows "dco_ok d dco'"
  using assms
proof (induction fuel arbitrary: out off r dco)
  case 0
  then show ?case by (auto simp: read_loop.simps split: if_splits)
next
  case (Suc fuel)
  obtain e1 r1 dco1 where f: "fetchChunk env off (r, dco) = (e1, r1, dco1)" by (metis prod_cases3)
  have d: "dco_ok d dco1" by (rule fetchChunk_dco [OF Suc.prems(1) f])
  from Suc.prems d show ?case
    unfolding read_loop.simps f
    by (auto simp: Let_def split: if_splits option.splits dest: Suc.IH [OF Suc.prems(1)] Suc.IH [OF d])
qed

lemma ReadAt_dco:
  assumes "dco_ok d dco" and "ReadAt fuel env p off (r, dco) = Some (x, r', dco')"
  shows "dco_ok d dco'"
  using assms by (auto simp: ReadAt_def Let_def split: if_splits option.splits prod.splits dest: read_loop_dco)

subsection \<open>The invariant of the filesystem\<close>

text \<open>
  The invariant with two additions: the caches still have the configuration \<open>c\<close> they were made
  with, and cached listings hold only keys the handle store can represent. A bucket with a key consisting of a single zero byte is outside the model: that is
  the name under which the handle store keeps the root.
\<close>

definition fs_configs :: "('w, 'db) S3FS \<Rightarrow> CacheConfig option \<times> DataCacheConfig option" where
  "fs_configs fs = (map_option mc_config (fs_cache fs), map_option dc_config (fs_dataCache fs))"

definition fs_safe :: "CacheConfig option \<times> DataCacheConfig option \<Rightarrow> ('w, 'db) fsenv \<Rightarrow> ('w, 'db) S3FS \<Rightarrow> bool" where
  "fs_safe c env fs \<longleftrightarrow> fs_inv env fs \<and> fs_configs fs = c \<and>
     (\<forall>p l. fs_listings fs p = Some l \<longrightarrow> list_all (\<lambda>ce. boltable (ce_S3Key ce)) (dl_entries l))"

definition lists_boltable :: "'w S3API \<Rightarrow> bool" where
  "lists_boltable api \<longleftrightarrow> (\<forall>p w es. ListObjects api p w = Inr es \<longrightarrow> list_all (\<lambda>e. boltable (le_Key e)) es)"

lemma fs_safeD: "fs_safe c env fs \<Longrightarrow> fs_inv env fs"
  "fs_safe c env fs \<Longrightarrow> fs_listings fs p = Some l \<Longrightarrow> list_all (\<lambda>ce. boltable (ce_S3Key ce)) (dl_entries l)"
  by (auto simp: fs_safe_def)

lemma fs_safe_mono: "fs_safe c env fs \<Longrightarrow> fs_inv env fs' \<Longrightarrow> fs_configs fs' = fs_configs fs \<Longrightarrow> fs_listings fs' \<subseteq>\<^sub>m fs_listings fs \<Longrightarrow> fs_safe c env fs'"
  unfolding fs_safe_def by (blast dest: map_leD)

lemma fs_safe_world [simp]: "fs_safe c env (fs\<lparr>fs_world := w\<rparr>) = fs_safe c env fs"
  by (simp add: fs_safe_def fs_configs_def)

lemma fs_safe_data: "fs_safe c env fs \<Longrightarrow> dco_ok (snd c) dco \<Longrightarrow> fs_safe c env (fs\<lparr>fs_dataCache := dco\<rparr>)"
  by (auto simp: fs_safe_def fs_inv_def dco_ok_def fs_listings_def fs_configs_def)

lemma fs_safe_dco: "fs_safe c env fs \<Longrightarrow> dco_ok (snd c) (fs_dataCache fs)"
  by (auto simp: fs_safe_def fs_inv_def dco_ok_def fs_configs_def)

lemma cache_listings:
  assumes "fs_inv env fs"
  shows "fs_listings (cachePut env k info fs) \<subseteq>\<^sub>m fs_listings fs" "fs_listings (cachePutNegative env k fs) \<subseteq>\<^sub>m fs_listings fs"
    "fs_listings (cacheInvalidate k fs) \<subseteq>\<^sub>m fs_listings fs" "fs_listings (cacheInvalidateParent k fs) \<subseteq>\<^sub>m fs_listings fs"
    "fs_listings (cachePutDirListing env k es fs) \<subseteq>\<^sub>m (fs_listings fs)(k \<mapsto> \<lparr>dl_entries = es, dl_cachedAt = fe_now env\<rparr>)"
proof -
  note step = cache_op_step(3) [OF fs_inv_cache_wf [OF assms]]
  have drop: "map_apply (MDrop P) m \<subseteq>\<^sub>m m" for P and m :: "string \<Rightarrow> dirListingEntry option"
    by (auto simp: map_le_def dom_def)
  show "fs_listings (cachePut env k info fs) \<subseteq>\<^sub>m fs_listings fs" "fs_listings (cachePutNegative env k fs) \<subseteq>\<^sub>m fs_listings fs"
    "fs_listings (cachePutDirListing env k es fs) \<subseteq>\<^sub>m (fs_listings fs)(k \<mapsto> \<lparr>dl_entries = es, dl_cachedAt = fe_now env\<rparr>)"
    using step [of "McPut (fe_now env) k (infoToCacheEntry k info)"] step [of "McPutNegative (fe_now env) k"] step [of "McPutDir (fe_now env) k es"]
    by (simp_all add: cache_ops [where env = env])
  show "fs_listings (cacheInvalidate k fs) \<subseteq>\<^sub>m fs_listings fs" "fs_listings (cacheInvalidateParent k fs) \<subseteq>\<^sub>m fs_listings fs"
    using map_le_trans [OF step [of "McInvalidate k"]] map_le_trans [OF step [of "McInvalidate (parentPrefix k)"]] drop
    by (simp_all only: cache_ops [where env = env] listing_effect.simps)
qed

lemma cache_op_configs:
  assumes "fs_inv env fs"
  shows "fs_configs (cache_op (mc_step (fe_rng env) x) fs) = fs_configs fs"
  using mc_step_ok(3) fs_invD(2,4) [OF assms] by (auto simp: cache_op_def fs_configs_def split: option.split)

lemma cache_configs:
  assumes "fs_inv env fs"
  shows "fs_configs (cachePut env k info fs) = fs_configs fs" "fs_configs (cachePutNegative env k fs) = fs_configs fs"
    "fs_configs (cacheInvalidate k fs) = fs_configs fs" "fs_configs (cacheInvalidateParent k fs) = fs_configs fs"
    "fs_configs (cachePutDirListing env k es fs) = fs_configs fs"
  by (simp_all only: cache_ops [where env = env] cache_op_configs [OF assms])

lemma cache_safe [inv_intros]:
  assumes "fs_safe c env fs"
  shows "fs_safe c env (cachePut env k info fs)" "fs_safe c env (cachePutNegative env k fs)" "fs_safe c env (cacheInvalidate k fs)"
    "fs_safe c env (cacheInvalidateParent k fs)"
    "list_all (\<lambda>ce. boltable (ce_S3Key ce)) es \<Longrightarrow> fs_safe c env (cachePutDirListing env k es fs)"
proof -
  note inv = fs_safeD(1) [OF assms]
  show "fs_safe c env (cachePut env k info fs)" "fs_safe c env (cachePutNegative env k fs)" "fs_safe c env (cacheInvalidate k fs)"
    "fs_safe c env (cacheInvalidateParent k fs)"
    by (rule fs_safe_mono [OF assms cache_inv(1) [OF inv] cache_configs(1) [OF inv] cache_listings(1) [OF inv]] fs_safe_mono [OF assms cache_inv(2) [OF inv] cache_configs(2) [OF inv] cache_listings(2) [OF inv]]
        fs_safe_mono [OF assms cache_inv(3) [OF inv] cache_configs(3) [OF inv] cache_listings(3) [OF inv]] fs_safe_mono [OF assms cache_inv(4) [OF inv] cache_configs(4) [OF inv] cache_listings(4) [OF inv]])+
  assume "list_all (\<lambda>ce. boltable (ce_S3Key ce)) es"
  with assms cache_inv(5) [OF inv] cache_configs(5) [OF inv] show "fs_safe c env (cachePutDirListing env k es fs)"
    unfolding fs_safe_def by (auto dest!: map_leD [OF cache_listings(5) [OF inv]] split: if_splits)
qed

lemma fs_inode_safe [inv_intros]:
  assumes "fs_safe c env fs" and "boltable k" and "fs_inode env k fs = (r, fs')"
  shows "fs_safe c env fs'"
  using assms(1) fs_inode_ok(1) [OF fs_safeD(1) [OF assms(1)] assms(2,3)] fs_inode_frame(2,3,5) [OF assms(3)]
  by (simp add: fs_safe_def fs_configs_def)

lemma fs_removeKey_safe [inv_intros]: "fs_safe c env fs \<Longrightarrow> fs_safe c env (fs_removeKey env k fs)"
  unfolding fs_safe_def by (auto simp: fs_removeKey_def fs_inv_def RemoveByKey_inv fs_configs_def)

lemma fs_renameKey_safe [inv_intros]: "fs_safe c env fs \<Longrightarrow> boltable k' \<Longrightarrow> fs_safe c env (fs_renameKey env k k' fs)"
  unfolding fs_safe_def by (simp add: fs_renameKey_inv fs_configs_def)

lemma dataCacheInvalidate_safe [inv_intros]:
  assumes "fs_safe c env fs" and "dataCacheInvalidate env k fs = (r, fs')"
  shows "fs_safe c env fs'"
proof -
  note inv = fs_safeD(1) [OF assms(1)]
  have "map_option dc_config (fs_dataCache fs') = map_option dc_config (fs_dataCache fs)"
    using assms(2) dc_Invalidate_ok [OF fs_invD(5) [OF inv] fs_invD(2) [OF inv]]
    by (auto simp: dataCacheInvalidate_def split: option.splits sum.splits) (metis sum.inject(2))
  with assms(1) dataCacheInvalidate_ok(2) [OF inv assms(2)] dataCacheInvalidate_frame(2,5) [OF assms(2)] show ?thesis
    by (simp add: fs_safe_def fs_configs_def)
qed

lemma boltable_dir_root [simp]: "boltable (s3DirKey k)" "boltable []"
  by (auto simp: boltable_def s3DirKey_def nul_key_def append_eq_Cons_conv HasSuffix_byte)

subsection \<open>One lemma per operation\<close>

lemma cacheGet_safe [inv_intros]:
  assumes "fs_safe c env fs" and "boltable k" and "cacheGet env k fs = (r, fs')"
  shows "fs_safe c env fs'"
proof (cases "fs_cache fs")
  case None
  with assms show ?thesis by (simp add: cacheGet_def)
next
  case (Some mc)
  define fs1 where "fs1 = fs\<lparr>fs_cache := Some (snd (GetEntry (fe_now env) k mc))\<rparr>"
  have "mc_dirListings (snd (GetEntry (fe_now env) k mc)) \<subseteq>\<^sub>m mc_dirListings mc"
    using mc_listing_step [OF fs_invD(4) [OF fs_safeD(1) [OF assms(1)] Some] fs_invD(2) [OF fs_safeD(1) [OF assms(1)]], of "McGet (fe_now env) k"]
    by simp
  then have "fs_listings fs1 \<subseteq>\<^sub>m fs_listings fs" using Some by (simp add: fs1_def fs_listings_def)
  moreover have "fs_configs fs1 = fs_configs fs" using Some by (simp add: fs1_def fs_configs_def)
  ultimately have s1: "fs_safe c env fs1"
    using fs_safe_mono [OF assms(1) cacheGet_cache_inv [OF fs_safeD(1) [OF assms(1)] Some]] by (simp add: fs1_def)
  have "fs' = fs1 \<or> fs' = snd (fs_inode env k fs1)"
    using assms(3) Some by (auto simp: cacheGet_def fs1_def Let_def split: prod.splits option.splits sum.splits if_splits)
  with s1 fs_inode_safe [OF s1 assms(2)] show ?thesis by (metis prod.collapse)
qed

lemma root_info_safe: "fs_safe c env fs \<Longrightarrow> root_info env fs = (fi, fs') \<Longrightarrow> fs_safe c env fs'"
  by (auto simp: root_info_def split: prod.splits dest: fs_inode_safe [OF _ boltable_dir_root(2)])

lemma stat_s3_safe:
  assumes "fs_safe c env fs" and "boltable k" and "boltable k'" and "stat_s3 env path k k' fs = (r, fs')"
  shows "fs_safe c env fs'"
proof -
  obtain r1 f1 where i1: "fs_inode env k fs = (r1, f1)" by fastforce
  obtain r2 f2 where i2: "fs_inode env k' fs = (r2, f2)" by fastforce
  have "fs_safe c env f1" "fs_safe c env f2" by (rule fs_inode_safe [OF assms(1,2) i1] fs_inode_safe [OF assms(1,3) i2])+
  with assms(1,4) i1 i2 show ?thesis
    by (auto simp: stat_s3_def Let_def split: sum.splits if_splits intro!: cache_safe)
qed

lemma Stat_safe:
  assumes "fs_safe c env fs" and "boltable (s3KeyFromPath path)" and "Stat env path fs = (r, fs')"
  shows "fs_safe c env fs'"
proof (cases "s3KeyFromPath path = []")
  case True
  with assms show ?thesis by (auto simp: Stat_def split: prod.splits intro: root_info_safe)
next
  case False
  let ?k = "s3KeyFromPath path"
  obtain r1 fs1 where g1: "cacheGet env ?k fs = (r1, fs1)" by fastforce
  obtain r2 fs2 where g2: "cacheGet env (s3DirKey ?k) fs1 = (r2, fs2)" by fastforce
  have s1: "fs_safe c env fs1" by (rule cacheGet_safe [OF assms(1,2) g1])
  have s2: "fs_safe c env fs2" by (rule cacheGet_safe [OF s1 _ g2]) simp
  from assms(3) False g1 g2 have "fs' = fs1 \<or> fs' = fs2 \<or> stat_s3 env path ?k (s3DirKey ?k) fs2 = (r, fs')"
    by (auto simp: Stat_def Let_def split: option.splits)
  with s1 s2 stat_s3_safe [OF s2 assms(2) boltable_dir_root(1)] show ?thesis by auto
qed

lemma open_dir_safe:
  assumes "fs_safe c env fs" and "boltable k" and "open_dir env path k fs = (r, fs')"
  shows "fs_safe c env fs'"
proof -
  obtain r1 f1 where i1: "fs_inode env k fs = (r1, f1)" by fastforce
  have "fs_safe c env f1" by (rule fs_inode_safe [OF assms(1,2) i1])
  with assms(1,3) i1 show ?thesis by (auto simp: open_dir_def Let_def split: sum.splits if_splits intro!: cache_safe)
qed

lemma open_new_safe:
  assumes "fs_safe c env fs" and "boltable k" and "open_new env io path k fs = (r, fs')"
  shows "fs_safe c env fs'"
proof -
  obtain r1 f1 where i1: "fs_inode env k fs = (r1, f1)" by fastforce
  have "fs_safe c env f1" by (rule fs_inode_safe [OF assms(1,2) i1])
  then have "fs_safe c env (f1\<lparr>fs_world := w\<rparr>)" for w by simp
  with assms(3) i1 \<open>fs_safe c env f1\<close> show ?thesis
    by (auto simp: open_new_def Let_def split: sum.splits prod.splits option.splits intro!: cache_safe)
qed

lemma OpenFile_safe:
  assumes "fs_safe c env fs" and "boltable (s3KeyFromPath path)" and "OpenFile env io path flags perm fs = (r, fs')"
  shows "fs_safe c env fs'"
proof -
  let ?k = "s3KeyFromPath path"
  obtain r1 f1 where i1: "fs_inode env ?k fs = (r1, f1)" by fastforce
  have "fs_safe c env f1" by (rule fs_inode_safe [OF assms(1,2) i1])
  with assms i1 show ?thesis
    by (auto simp: OpenFile_def Let_def split: sum.splits if_splits prod.splits
        intro!: cache_safe intro: root_info_safe open_new_safe open_dir_safe [OF assms(1) boltable_dir_root(1)])
qed

lemma wf_Close_safe:
  assumes "fs_safe c env fs" and "wf_Close env io (f, fs) = (r, f', fs')"
  shows "fs_safe c env fs'"
proof -
  have d: "fs_safe c env fs1" if "dataCacheInvalidate env k (cacheInvalidateParent k' (cacheInvalidate k'' (fs\<lparr>fs_world := w\<rparr>))) = (e, fs1)" for k k' k'' w e fs1
    by (rule dataCacheInvalidate_safe [OF _ that]) (intro cache_safe, simp add: assms(1))
  from assms show ?thesis
    by (auto simp: wf_Close_def Let_def split: if_splits option.splits prod.splits intro!: cache_safe dest: d)
qed

lemma set_meta_safe: "fs_safe c env fs \<Longrightarrow> set_meta env label k m fs = (r, fs') \<Longrightarrow> fs_safe c env fs'"
  by (auto simp: set_meta_def split: prod.splits option.splits intro!: cache_safe)

lemma Symlink_safe: "fs_safe c env fs \<Longrightarrow> Symlink env target link fs = (r, fs') \<Longrightarrow> fs_safe c env fs'"
  by (auto simp: Symlink_def Let_def split: if_splits sum.splits prod.splits option.splits intro!: cache_safe)

lemma move_object_safe:
  assumes "fs_safe c env fs" and "boltable k'" and "move_object env m1 m2 k k' fs = (r, fs')"
  shows "fs_safe c env fs'"
proof -
  have s: "fs_safe c env (cacheInvalidateParent a (cacheInvalidateParent b (cacheInvalidate p (cacheInvalidate q (fs_renameKey env k k' (fs\<lparr>fs_world := w\<rparr>))))))" for a b p q w
    by (intro cache_safe fs_renameKey_safe assms(2)) (simp add: assms(1))
  from assms(1,3) show ?thesis
    by (auto simp: move_object_def Let_def split: prod.splits option.splits dest: dataCacheInvalidate_safe [OF s] dataCacheInvalidate_safe)
qed

lemma remove_object_safe:
  assumes "fs_safe c env fs" and "remove_object env msg k fs = (r, fs')"
  shows "fs_safe c env fs'"
proof -
  have s: "fs_safe c env (cacheInvalidateParent a (cacheInvalidate b (fs_removeKey env k (fs\<lparr>fs_world := w\<rparr>))))" for a b w
    by (intro cache_safe fs_removeKey_safe) (simp add: assms(1))
  from assms show ?thesis
    by (auto simp: remove_object_def split: prod.splits option.splits dest: dataCacheInvalidate_safe [OF s])
qed

lemma MkdirAll_safe:
  assumes "fs_safe c env fs" and "MkdirAll env path perm fs = (r, fs')"
  shows "fs_safe c env fs'"
proof -
  have i: "fs_safe c env f1" if "fs_inode env (s3DirKey k) (fs\<lparr>fs_world := w\<rparr>) = (r1, f1)" for k w r1 f1
    by (rule fs_inode_safe [OF _ _ that]) (simp_all add: assms(1))
  from assms show ?thesis
    by (auto simp: MkdirAll_def Let_def split: prod.splits option.splits sum.splits intro!: cache_safe dest: i)
qed

lemma Copy_safe: "fs_safe c env fs \<Longrightarrow> fs_Copy env src dst fs = (r, fs') \<Longrightarrow> fs_safe c env fs'"
  by (auto simp: fs_Copy_def Let_def split: prod.splits option.splits intro!: cache_safe)

lemma readdir_cached_safe:
  assumes "fs_safe c env fs" and "list_all (\<lambda>ce. boltable (ce_S3Key ce)) ces" and "readdir_cached env ces infos fs = (r, fs')"
  shows "fs_safe c env fs'"
  using assms
proof (induction ces arbitrary: infos fs)
  case (Cons ce ces)
  obtain r1 f1 where i1: "fs_inode env (ce_S3Key ce) fs = (r1, f1)" by fastforce
  have "fs_safe c env f1" by (rule fs_inode_safe [OF Cons.prems(1) _ i1]) (use Cons.prems(2) in simp)
  with Cons.prems i1 show ?case by (auto simp: Let_def split: if_splits sum.splits dest: Cons.IH)
qed simp

lemma readdir_s3_safe:
  assumes "fs_safe c env fs" and "list_all (\<lambda>e. boltable (le_Key e)) es" and "list_all (\<lambda>ce. boltable (ce_S3Key ce)) ces"
    and "readdir_s3 env pfx es infos ces fs = (r, fs')"
  shows "fs_safe c env fs' \<and> (\<forall>infos' ces'. r = Inr (infos', ces') \<longrightarrow> list_all (\<lambda>ce. boltable (ce_S3Key ce)) ces')"
  using assms
proof (induction es arbitrary: infos ces fs)
  case (Cons e es)
  obtain r1 f1 where i1: "fs_inode env (le_Key e) fs = (r1, f1)" by fastforce
  have s1: "fs_safe c env f1" by (rule fs_inode_safe [OF Cons.prems(1) _ i1]) (use Cons.prems(2) in simp)
  have es: "list_all (\<lambda>e. boltable (le_Key e)) es" "boltable (le_Key e)" using Cons.prems(2) by simp_all
  have key: "ce_S3Key (infoToCacheEntry k info) = k" for k info by (simp add: infoToCacheEntry_def)
  show ?case
  proof (cases "TrimSuffix (TrimPrefix (le_Key e) pfx) ''/'' = []")
    case True
    with Cons.prems(4) have "readdir_s3 env pfx es infos ces fs = (r, fs')" by simp
    then show ?thesis by (rule Cons.IH [OF Cons.prems(1) es(1) Cons.prems(3)])
  next
    case named: False
    show ?thesis
    proof (cases r1)
      case (Inl err)
      with Cons.prems(4) named i1 s1 show ?thesis by (auto simp: Let_def)
    next
      case (Inr inode)
      with Cons.prems(4) named i1 obtain fi where
        "readdir_s3 env pfx es (infos @ [fi]) (ces @ [infoToCacheEntry (le_Key e) fi]) (cachePut env (le_Key e) fi f1) = (r, fs')"
        by (simp add: Let_def)
      then show ?thesis by (rule Cons.IH [OF cache_safe(1) [OF s1] es(1), rotated]) (use Cons.prems(3) es(2) key in simp)
    qed
  qed
qed auto

lemma Readdir_safe:
  assumes "fs_safe c env fs" and "lists_boltable (fe_s3 env)" and "sf_Readdir env count f fs = (r, fs')"
  shows "fs_safe c env fs'"
proof (cases "sf_isDir f")
  case False
  with assms show ?thesis by (simp add: sf_Readdir_def)
next
  case dir: True
  define pfx where "pfx = (if sf_s3Key f \<noteq> [] \<and> \<not> HasSuffix (sf_s3Key f) ''/'' then sf_s3Key f @ ''/'' else sf_s3Key f)"
  show ?thesis
  proof (cases "cacheGetDirListing env pfx fs")
    case (Some ces)
    then obtain mc l where "fs_cache fs = Some mc" "mc_dirListings mc pfx = Some l" "ces = dl_entries l"
      by (auto simp: cacheGetDirListing_def GetDirListing_def split: option.splits if_splits)
    then have "list_all (\<lambda>ce. boltable (ce_S3Key ce)) ces"
      using fs_safeD(2) [OF assms(1), of pfx l] by (simp add: fs_listings_def)
    note s = readdir_cached_safe [OF assms(1) this]
    from assms(3) dir Some show ?thesis
      by (auto simp: sf_Readdir_def pfx_def [symmetric] Let_def split: prod.splits sum.splits dest: s)
  next
    case None
    show ?thesis
    proof (cases "ListObjects (fe_s3 env) pfx (fs_world fs)")
      case (Inl e)
      with assms dir None show ?thesis by (simp add: sf_Readdir_def pfx_def [symmetric] Let_def)
    next
      case (Inr es)
      obtain r1 fs1 where rd: "readdir_s3 env pfx es [] [] fs = (r1, fs1)" by fastforce
      have "list_all (\<lambda>e. boltable (le_Key e)) es" using assms(2) Inr by (auto simp: lists_boltable_def)
      note s = readdir_s3_safe [OF assms(1) this _ rd]
      from assms(3) dir None Inr rd s show ?thesis
        by (auto simp: sf_Readdir_def pfx_def [symmetric] Let_def split: sum.splits intro!: cache_safe)
    qed
  qed
qed

lemma sf_Read_safe:
  assumes "fs_safe c env fs" and "sf_Read fuel env rio p (f, fs) = Some (r, f', fs')"
  shows "fs_safe c env fs'"
  using assms
  by (auto simp: sf_Read_def Let_def split: if_splits option.splits prod.splits
      intro!: fs_safe_data dest: ReadAt_dco [OF fs_safe_dco [OF assms(1)]])

lemma sf_Truncate_safe:
  assumes "fs_safe c env fs" and "sf_Truncate env (f, fs) = (r, f', fs')"
  shows "fs_safe c env fs'"
proof -
  have d: "fs_safe c env fs1" if "dataCacheInvalidate env k (cacheInvalidate k' (fs\<lparr>fs_world := w\<rparr>)) = (e, fs1)" for k k' w e fs1
    by (rule dataCacheInvalidate_safe [OF _ that]) (intro cache_safe, simp add: assms(1))
  from assms show ?thesis
    by (auto simp: sf_Truncate_def Let_def split: if_splits option.splits prod.splits dest: d)
qed

subsection \<open>Histories\<close>

text \<open>The keys an operation may ask the handle store to create.\<close>

fun op_boltable :: "fs_op \<Rightarrow> bool" where
  "op_boltable (OpStat path) = boltable (s3KeyFromPath path)"
| "op_boltable (OpOpen io path flags perm) = boltable (s3KeyFromPath path)"
| "op_boltable (OpRename old new) = boltable (s3KeyFromPath new)"
| "op_boltable _ = True"

text \<open>One operation with its own surroundings, its outcome ignored.\<close>

definition fs_exec :: "('w, 'db) fsenv \<times> fs_op \<Rightarrow> ('w, 'db) S3FS \<Rightarrow> ('w, 'db) S3FS" where
  "fs_exec = (\<lambda>(env, x) fs. snd (fs_step env x fs))"

lemma fs_step_safe:
  assumes "fs_safe c env fs" and "lists_boltable (fe_s3 env)" and "op_boltable x"
  shows "fs_safe c env (snd (fs_step env x fs))"
proof (cases x)
  case (OpStat path)
  with assms(3) show ?thesis using Stat_safe [OF assms(1)] by (metis fs_step.simps(1) op_boltable.simps(1) prod.collapse snd_conv)
next
  case (OpOpen io path flags perm)
  with assms show ?thesis by (auto split: prod.splits intro: OpenFile_safe)
next
  case (OpClose io f)
  with assms show ?thesis by (auto split: prod.splits intro: wf_Close_safe)
next
  case (OpReaddir count f)
  then show ?thesis using Readdir_safe [OF assms(1,2)] by (metis fs_step.simps(4) prod.collapse snd_conv)
next
  case (OpChmod path mode)
  with assms show ?thesis by (auto simp: Chmod_def Let_def split: prod.splits option.splits intro: set_meta_safe)
next
  case (OpChown path uid gid)
  with assms show ?thesis by (auto simp: Chown_def Let_def split: prod.splits option.splits intro: set_meta_safe)
next
  case (OpSymlink target link)
  with assms show ?thesis by (auto split: prod.splits intro: Symlink_safe)
next
  case (OpRename old new)
  with assms show ?thesis by (auto simp: Rename_def Let_def split: prod.splits sum.splits intro: move_object_safe move_object_safe [OF _ boltable_dir_root(1)])
next
  case (OpRemove path)
  with assms show ?thesis by (auto simp: Remove_def Let_def split: prod.splits sum.splits if_splits intro: remove_object_safe)
next
  case (OpMkdirAll path perm)
  with assms show ?thesis by (auto split: prod.splits intro: MkdirAll_safe)
next
  case (OpCopy src dst)
  with assms show ?thesis by (auto split: prod.splits intro: Copy_safe)
next
  case (OpSetXattr path name v opt)
  obtain r fs' where s: "SetXattr env path name v opt fs = (r, fs')" by fastforce
  then have "fs_safe c env fs'" by (cases rule: SetXattr_cases) (use assms(1) in \<open>auto intro: set_meta_safe\<close>)
  with s OpSetXattr show ?thesis by simp
next
  case (OpRemoveXattr path name)
  obtain r fs' where s: "RemoveXattr env path name fs = (r, fs')" by fastforce
  then have "fs_safe c env fs'" by (cases rule: RemoveXattr_cases) (use assms(1) in \<open>auto intro: set_meta_safe\<close>)
  with s OpRemoveXattr show ?thesis by simp
next
  case (OpRead fuel rio p f)
  with assms show ?thesis by (auto split: option.splits intro: sf_Read_safe)
next
  case (OpTruncate f)
  with assms show ?thesis by (auto split: prod.splits intro: sf_Truncate_safe)
qed

text \<open>
  A step may meet any surroundings with the same kind of database. A listing carries no zero
  byte, since S3 answers it in XML.
\<close>

definition step_ok :: "'db bolt \<Rightarrow> ('w, 'db) fsenv \<times> fs_op \<Rightarrow> bool" where
  "step_ok B = (\<lambda>(env, x). fe_bolt env = B \<and> range_ok (fe_rng env) \<and> lists_boltable (fe_s3 env) \<and> op_boltable x)"

lemma fs_safe_env: "fs_safe c env fs \<Longrightarrow> fe_bolt env' = fe_bolt env \<Longrightarrow> range_ok (fe_rng env') \<Longrightarrow> fs_safe c env' fs"
  by (simp add: fs_safe_def fs_inv_def)

definition fs_safe_on :: "CacheConfig option \<times> DataCacheConfig option \<Rightarrow> 'db bolt \<Rightarrow> ('w, 'db) S3FS \<Rightarrow> bool" where
  "fs_safe_on c B fs \<longleftrightarrow> (\<forall>env. fe_bolt env = B \<longrightarrow> range_ok (fe_rng env) \<longrightarrow> fs_safe c env fs)"

interpretation fs_history: machine fs_exec "fs_safe_on c B :: ('w, 'db) S3FS \<Rightarrow> bool" "step_ok B" for c and B :: "'db bolt"
proof
  fix fs :: "('w, 'db) S3FS" and x :: "('w, 'db) fsenv \<times> fs_op"
  assume "fs_safe_on c B fs" and "step_ok B x"
  then obtain env y where x: "x = (env, y)" "fe_bolt env = B" and "fs_safe c env (snd (fs_step env y fs))"
    by (auto simp: step_ok_def fs_safe_on_def intro: fs_step_safe)
  then show "fs_safe_on c B (fs_exec x fs)"
    by (auto simp: fs_safe_on_def fs_exec_def x(1) simp flip: x(2) intro: fs_safe_env)
qed

end
