(* ===== verification/GoFloat.thy ===== *)
theory GoFloat
  imports Complex_Main "HOL-Library.Log_Nat"
begin

text \<open>
  Go's \<open>float64\<close> as the rational numbers it represents: every operation computes the exact
  result and rounds it to 53 significant bits, to the nearest value and to the even one of two.
  The gateway computes with token counts, rates and seconds, far from the ends of the exponent
  range, so infinities, subnormal numbers and NaN are left out.

  The lemmas give what the clients need: integers below \<open>2\<^sup>5\<^sup>3\<close> are exact, and the relative
  error of one operation is at most \<open>2\<^sup>-\<^sup>5\<^sup>3\<close>.
\<close>

definition round_half_even :: "rat \<Rightarrow> int" where
  "round_half_even y =
     (let f = \<lfloor>y\<rfloor>; d = y - of_int f
      in if d < 1 / 2 \<or> d = 1 / 2 \<and> even f then f else f + 1)"

definition f64_exp :: "rat \<Rightarrow> int" where
  "f64_exp x =
     (let (p, q) = quotient_of x; e = bitlen p - bitlen q
      in if x < 2 powi e then e - 1 else e)"

definition f64 :: "rat \<Rightarrow> rat" where
  "f64 x = (if x = 0 then 0 else let u = 2 powi (f64_exp \<bar>x\<bar> - 52) in of_int (round_half_even (x / u)) * u)"

definition f64_eps :: rat where
  "f64_eps = 1 / 2 ^ 53"

lemma f64_eps_bounds [simp]: "0 < f64_eps" "f64_eps < 1" "0 \<le> f64_eps"
  by (simp_all add: f64_eps_def)

lemma round_half_even_near: "\<bar>of_int (round_half_even y) - y\<bar> \<le> 1 / 2"
  using floor_correct [of y] by (auto simp: round_half_even_def Let_def abs_le_iff)

lemma round_half_even_int [simp]: "round_half_even (of_int n) = n"
  by (simp add: round_half_even_def)

lemma f64_0 [simp]: "f64 0 = 0"
  by (simp add: f64_def)

lemma bitlen_pos_bounds:
  assumes "0 < p"
  shows "(2 :: rat) powi (bitlen p - 1) \<le> of_int p" and "of_int p < (2 :: rat) powi bitlen p"
proof -
  have b: "2 ^ nat (bitlen p - 1) \<le> p" "p < 2 ^ nat (bitlen p)" using bitlen_bounds [OF assms] by simp_all
  have n: "0 \<le> bitlen p" "0 \<le> bitlen p - 1" using assms bitlen_nonneg [of p] bitlen_eq_zero_iff [of p] by linarith+
  have "(2 :: rat) powi (bitlen p - 1) = of_int (2 ^ nat (bitlen p - 1))" using n by (simp add: power_int_def)
  with b(1) show "(2 :: rat) powi (bitlen p - 1) \<le> of_int p" by (simp only: of_int_le_iff)
  have "(2 :: rat) powi bitlen p = of_int (2 ^ nat (bitlen p))" using n by (simp add: power_int_def)
  with b(2) show "of_int p < (2 :: rat) powi bitlen p" by (simp only: of_int_less_iff)
qed

lemma f64_exp_bounds:
  assumes "0 < x"
  shows "2 powi f64_exp x \<le> x" and "x < 2 powi (f64_exp x + 1)"
proof -
  obtain p q where pq: "quotient_of x = (p, q)" by fastforce
  then have q: "0 < q" and x: "x = of_int p / of_int q" by (auto dest: quotient_of_denom_pos quotient_of_div)
  with assms have p: "0 < p" by (simp add: zero_less_divide_iff)
  let ?e = "bitlen p - bitlen q"
  note bp = bitlen_pos_bounds [OF p] and bq = bitlen_pos_bounds [OF q]
  have "2 powi (?e - 1) = 2 powi (bitlen p - 1) / (2 :: rat) powi bitlen q" by (simp add: power_int_diff)
  also have "\<dots> \<le> x" unfolding x using bp bq p q by (intro frac_le) simp_all
  finally have lo: "2 powi (?e - 1) \<le> x" .
  have "x < 2 powi bitlen p / (2 :: rat) powi (bitlen q - 1)" unfolding x using bp bq p q by (intro frac_less) simp_all
  also have "\<dots> = 2 powi (?e + 1)" by (simp add: power_int_diff power_int_add)
  finally have hi: "x < 2 powi (?e + 1)" .
  have e: "f64_exp x = (if x < 2 powi ?e then ?e - 1 else ?e)" by (simp add: f64_exp_def pq)
  show "2 powi f64_exp x \<le> x" "x < 2 powi (f64_exp x + 1)" using lo hi by (simp_all add: e)
qed

lemma f64_error:
  assumes "0 \<le> x"
  shows "\<bar>f64 x - x\<bar> \<le> x * f64_eps"
proof (cases "x = 0")
  case False
  let ?u = "2 powi (f64_exp x - 52) :: rat"
  have u: "0 < ?u" by simp
  have "f64 x - x = (of_int (round_half_even (x / ?u)) - x / ?u) * ?u" using False assms u by (simp add: f64_def Let_def left_diff_distrib)
  then have "\<bar>f64 x - x\<bar> = \<bar>of_int (round_half_even (x / ?u)) - x / ?u\<bar> * ?u" using u by (simp add: abs_mult)
  also have "\<dots> \<le> 1 / 2 * ?u" using round_half_even_near u by (intro mult_right_mono) auto
  also have "\<dots> = 2 powi f64_exp x * f64_eps" by (simp add: power_int_diff f64_eps_def)
  also have "\<dots> \<le> x * f64_eps" using f64_exp_bounds(1) [of x] assms False by (intro mult_right_mono) simp_all
  finally show ?thesis .
qed simp

lemma f64_le: "0 \<le> x \<Longrightarrow> f64 x \<le> x * (1 + f64_eps)"
  using f64_error [of x] by (simp add: abs_le_iff algebra_simps del: mult_le_cancel_left)

lemma f64_ge: "0 \<le> x \<Longrightarrow> x * (1 - f64_eps) \<le> f64 x"
  using f64_error [of x] by (simp add: abs_le_iff algebra_simps del: mult_le_cancel_left)

lemma f64_nonneg: "0 \<le> x \<Longrightarrow> 0 \<le> f64 x"
  by (rule order_trans [OF mult_nonneg_nonneg f64_ge]) (simp_all add: less_imp_le)

lemma f64_neg:
  assumes "x < 0"
  shows "f64 x < 0"
proof -
  define u where "u = (2 :: rat) powi (f64_exp \<bar>x\<bar> - 52)"
  have u: "0 < u" by (simp add: u_def)
  have "u * 1 \<le> u * 2 ^ 52" using u by (intro mult_left_mono) simp_all
  also have "\<dots> = 2 powi f64_exp \<bar>x\<bar>" by (simp add: u_def power_int_diff)
  also have "\<dots> \<le> - x" using f64_exp_bounds(1) [of "\<bar>x\<bar>"] assms by simp
  finally have "x / u \<le> - 1" using u by (simp add: pos_divide_le_eq)
  with round_half_even_near [of "x / u"] have "of_int (round_half_even (x / u)) < (0 :: rat)" by linarith
  with u assms show ?thesis unfolding f64_def Let_def u_def [symmetric] by (simp add: mult_neg_pos)
qed

lemma f64_sign: "0 \<le> f64 x \<longleftrightarrow> 0 \<le> x"
  using f64_nonneg [of x] f64_neg [of x] by linarith

lemma f64_mono_le: "0 \<le> x \<Longrightarrow> x \<le> y \<Longrightarrow> f64 x \<le> y * (1 + f64_eps)"
  by (rule order_trans [OF f64_le]) (simp_all add: mult_right_mono)

lemma f64_int:
  assumes "0 \<le> n" and "n < 2 ^ 53"
  shows "f64 (of_int n) = of_int n"
proof (cases "n = 0")
  case False
  let ?e = "f64_exp (of_int n)"
  have "2 powi ?e \<le> (of_int n :: rat)" using f64_exp_bounds(1) [of "of_int n"] assms False by simp
  also have "\<dots> < of_int (2 ^ 53)" using assms(2) by (simp only: of_int_less_iff)
  also have "\<dots> = 2 powi 53" by simp
  finally have less: "2 powi ?e < (2 powi 53 :: rat)" .
  have e: "?e < 53"
  proof (rule ccontr)
    assume "\<not> ?e < 53"
    then have "2 powi 53 \<le> (2 powi ?e :: rat)" by (intro power_int_increasing) simp_all
    with less show False by linarith
  qed
  have "(2 :: rat) powi (?e - 52) = inverse (2 powi (52 - ?e))" by (metis power_int_minus minus_diff_eq)
  also have "(2 :: rat) powi (52 - ?e) = of_int (2 ^ nat (52 - ?e))" using e by (simp add: power_int_def)
  finally have u: "(2 :: rat) powi (?e - 52) = 1 / of_int (2 ^ nat (52 - ?e))" by (simp only: inverse_eq_divide)
  have "of_int n / 2 powi (?e - 52) = (of_int (n * 2 ^ nat (52 - ?e)) :: rat)" unfolding u by simp
  then have "round_half_even (of_int n / 2 powi (?e - 52)) = n * 2 ^ nat (52 - ?e)" by (simp only: round_half_even_int)
  then show ?thesis using assms False by (simp add: f64_def Let_def u)
qed simp

end
