(* ===== verification/GoTime.thy ===== *)
theory GoTime
  imports GoStrings GoFloat
begin

text \<open>
  The parts of package \<open>time\<close> that compute: \<open>Duration.Seconds\<close> in \<open>float64\<close>, with bounds on its
  error, and \<open>ParseDuration\<close>, with the termination of its loop and the range of its results.
\<close>

subsection \<open>Seconds\<close>

text \<open>\<open>time.Duration.Seconds\<close>: whole seconds and the rest apart, both towards zero.\<close>

definition Seconds :: "time \<Rightarrow> rat" where
  "Seconds d =
     (let sec = sgn d * (\<bar>d\<bar> div second); nsec = sgn d * (\<bar>d\<bar> mod second)
      in f64 (f64 (of_int sec) + f64 (f64 (of_int nsec) / 1000000000)))"

text \<open>The exact number of seconds.\<close>

definition secs :: "time \<Rightarrow> rat" where
  "secs d = of_int d / 1000000000"

lemma secs_simps [simp]: "secs (d + e) = secs d + secs e" "secs (d - e) = secs d - secs e" "secs 0 = 0"
  by (simp_all add: secs_def add_divide_distrib diff_divide_distrib)

lemma secs_mono: "d \<le> e \<Longrightarrow> secs d \<le> secs e"
  by (simp add: secs_def divide_right_mono)

lemma Seconds_bounds:
  assumes "0 \<le> d"
  shows "0 \<le> Seconds d" and "Seconds d \<le> secs d * (1 + f64_eps) ^ 3"
proof -
  let ?p = "1 + f64_eps"
  let ?s = "f64 (of_int (d div second)) :: rat" and ?m = "f64 (of_int (d mod second)) :: rat"
  have d: "sgn d * (\<bar>d\<bar> div second) = d div second" "sgn d * (\<bar>d\<bar> mod second) = d mod second"
    using assms by (cases "d = 0"; simp)+
  have n: "0 \<le> d div second" "0 \<le> d mod second" using assms by (simp_all add: pos_imp_zdiv_nonneg_iff)
  have s: "0 \<le> ?s" "?s \<le> of_int (d div second) * ?p" and m: "0 \<le> ?m" "?m \<le> of_int (d mod second) * ?p"
    using n by (auto intro!: f64_nonneg f64_le)
  have "?m / 1000000000 \<le> secs (d mod second) * ?p" using divide_right_mono [OF m(2), of 1000000000] by (simp add: secs_def)
  then have q: "0 \<le> f64 (?m / 1000000000)" "f64 (?m / 1000000000) \<le> secs (d mod second) * ?p * ?p"
    using m(1) f64_mono_le [of "?m / 1000000000" "secs (d mod second) * ?p"] by (simp_all add: f64_nonneg)
  have e: "Seconds d = f64 (?s + f64 (?m / 1000000000))" by (simp only: Seconds_def Let_def d)
  show "0 \<le> Seconds d" unfolding e using s q by (intro f64_nonneg) simp
  have "of_int (d div second) * ?p * 1 \<le> of_int (d div second) * ?p * ?p"
    using n(1) by (intro mult_left_mono mult_nonneg_nonneg) simp_all
  with s have "?s \<le> of_int (d div second) * ?p * ?p" by simp
  with q have "?s + f64 (?m / 1000000000) \<le> (of_int (d div second) + secs (d mod second)) * ?p * ?p"
    by (simp add: distrib_right)
  also have "of_int (d div second) + secs (d mod second) = secs d"
  proof -
    have "d = d div second * second + d mod second" by simp
    then have "(of_int d :: rat) = of_int (d div second) * 1000000000 + of_int (d mod second)"
      by (metis of_int_add of_int_mult of_int_numeral)
    then show ?thesis by (simp add: secs_def field_simps)
  qed
  finally have "Seconds d \<le> secs d * ?p * ?p * ?p"
    unfolding e using s q by (intro f64_mono_le) simp_all
  then show "Seconds d \<le> secs d * ?p ^ 3" by (simp add: power3_eq_cube mult.assoc)
qed

subsection \<open>time.ParseDuration\<close>

fun leadingInt :: "nat \<Rightarrow> string \<Rightarrow> (nat \<times> string) option" where
  "leadingInt x [] = Some (x, [])"
| "leadingInt x (c # s) =
     (case digit_val c of
        None \<Rightarrow> Some (x, c # s)
      | Some d \<Rightarrow>
          if x > 2 ^ 63 div 10 then None
          else let y = x * 10 + d in if y > 2 ^ 63 then None else leadingInt y s)"

text \<open>Digits of a fraction that no longer fit are dropped.\<close>

fun leadingFraction :: "nat \<Rightarrow> rat \<Rightarrow> bool \<Rightarrow> string \<Rightarrow> nat \<times> rat \<times> string" where
  "leadingFraction x scale overflow [] = (x, scale, [])"
| "leadingFraction x scale overflow (c # s) =
     (case digit_val c of
        None \<Rightarrow> (x, scale, c # s)
      | Some d \<Rightarrow>
          if overflow then leadingFraction x scale True s
          else if x > (2 ^ 63 - 1) div 10 then leadingFraction x scale True s
          else let y = x * 10 + d
               in if y > 2 ^ 63 then leadingFraction x scale True s else leadingFraction y (f64 (scale * 10)) False s)"

definition micro_sign :: string where
  "micro_sign = [char_of (0xC2 :: nat), char_of (0xB5 :: nat), CHR ''s'']"

definition greek_mu :: string where
  "greek_mu = [char_of (0xCE :: nat), char_of (0xBC :: nat), CHR ''s'']"

definition unitMap :: "string \<Rightarrow> nat option" where
  "unitMap = map_of [(''ns'', 1), (''us'', 1000), (micro_sign, 1000), (greek_mu, 1000), (''ms'', 1000000),
     (''s'', 1000000000), (''m'', 60000000000), (''h'', 3600000000000)]"

definition unit_char :: "char \<Rightarrow> bool" where
  "unit_char c \<longleftrightarrow> c \<noteq> CHR ''.'' \<and> digit_val c = None"

text \<open>
  One item of a duration: a number, with the integers before and after the decimal point and
  the scale of the latter, and its unit.
\<close>

definition duration_number :: "string \<Rightarrow> (nat \<times> nat \<times> rat \<times> string) option" where
  "duration_number s =
     (if \<not> (hd s = CHR ''.'' \<or> digit_val (hd s) \<noteq> None) then None
      else case leadingInt 0 s of
        None \<Rightarrow> None
      | Some (v, s1) \<Rightarrow>
          if s1 \<noteq> [] \<and> hd s1 = CHR ''.'' then
            (case leadingFraction 0 1 False (tl s1) of
               (f, scale, s2) \<Rightarrow>
                 if length s1 = length s \<and> length s2 = length (tl s1) then None else Some (v, f, scale, s2))
          else if length s1 = length s then None
          else Some (v, 0, 1, s1))"

definition duration_scaled :: "nat \<Rightarrow> nat \<Rightarrow> rat \<Rightarrow> nat \<Rightarrow> nat option" where
  "duration_scaled v f scale unit =
     (if v > 2 ^ 63 div unit then None
      else if f > 0 then
        let v' = v * unit + nat \<lfloor>f64 (f64 (of_nat f) * f64 (of_nat unit / scale))\<rfloor>
        in if v' > 2 ^ 63 then None else Some v'
      else Some (v * unit))"

definition duration_item :: "string \<Rightarrow> (nat \<times> string) result" where
  "duration_item s =
     (case duration_number s of
        None \<Rightarrow> Inl (Errorf ''time: invalid duration'')
      | Some (v, f, scale, s2) \<Rightarrow>
          let u = takeWhile unit_char s2
          in if u = [] then Inl (Errorf ''time: missing unit in duration'')
             else case unitMap u of
               None \<Rightarrow> Inl (Errorf ''time: unknown unit in duration'')
             | Some unit \<Rightarrow>
                 (case duration_scaled v f scale unit of
                    None \<Rightarrow> Inl (Errorf ''time: invalid duration'')
                  | Some v' \<Rightarrow> Inr (v', dropWhile unit_char s2)))"

lemma leadingInt_shorter: "leadingInt x s = Some (y, s') \<Longrightarrow> length s' \<le> length s"
  by (induction s arbitrary: x) (auto simp: Let_def split: option.splits if_splits intro: le_SucI)

lemma leadingFraction_shorter: "leadingFraction x sc ov s = (y, sc', s') \<Longrightarrow> length s' \<le> length s"
  by (induction s arbitrary: x sc ov) (auto simp: Let_def split: option.splits if_splits intro: le_SucI)

text \<open>Every item takes at least the characters of its unit, so the loop over the items ends.\<close>

lemma duration_number_shorter:
  assumes "duration_number s = Some (v, f, scale, s2)"
  shows "length s2 \<le> length s"
proof -
  obtain w s1 where i: "leadingInt 0 s = Some (w, s1)"
    using assms by (auto simp: duration_number_def split: if_splits option.splits)
  have "length s1 \<le> length s" by (rule leadingInt_shorter [OF i])
  with assms i leadingFraction_shorter [of 0 1 False "tl s1"] show ?thesis
    by (auto simp: duration_number_def split: if_splits prod.splits dest: order_trans)
qed

lemma duration_item_shorter:
  assumes "duration_item s = Inr (v, s')"
  shows "length s' < length s"
proof -
  obtain w f sc s2 where n: "duration_number s = Some (w, f, sc, s2)" and u: "takeWhile unit_char s2 \<noteq> []" "s' = dropWhile unit_char s2"
    using assms by (auto simp: duration_item_def Let_def simp del: takeWhile_eq_Nil_iff split: if_splits option.splits)
  have "length s2 = length (takeWhile unit_char s2) + length s'"
    unfolding u(2) by (metis length_append takeWhile_dropWhile_id)
  moreover have "0 < length (takeWhile unit_char s2)" using u(1) by blast
  ultimately show ?thesis using duration_number_shorter [OF n] by linarith
qed

function duration_loop :: "nat \<Rightarrow> string \<Rightarrow> nat result" where
  "duration_loop d s =
     (if s = [] then Inr d
      else case duration_item s of
        Inl e \<Rightarrow> Inl e
      | Inr (v, s') \<Rightarrow>
          let d' = (d + v) mod 2 ^ 64
          in if d' > 2 ^ 63 then Inl (Errorf ''time: invalid duration'') else duration_loop d' s')"
  by pat_completeness auto
termination
  by (relation "measure (\<lambda>(d, s). length s)") (auto simp: duration_item_shorter)

declare duration_loop.simps [simp del]

definition ParseDuration :: "string \<Rightarrow> int result" where
  "ParseDuration orig =
     (let neg = (orig \<noteq> [] \<and> hd orig = CHR ''-'');
          s = (if orig \<noteq> [] \<and> (hd orig = CHR ''-'' \<or> hd orig = CHR ''+'') then tl orig else orig)
      in if s = ''0'' then Inr 0
         else if s = [] then Inl (Errorf ''time: invalid duration'')
         else case duration_loop 0 s of
           Inl e \<Rightarrow> Inl e
         | Inr d \<Rightarrow>
             if neg then Inr (- int d)
             else if d > 2 ^ 63 - 1 then Inl (Errorf ''time: invalid duration'')
             else Inr (int d))"

lemma duration_loop_le: "d \<le> 2 ^ 63 \<Longrightarrow> duration_loop d s = Inr n \<Longrightarrow> n \<le> 2 ^ 63"
proof (induction d s rule: duration_loop.induct)
  case (1 d s)
  show ?case
  proof (cases "s = []")
    case True
    with 1(2,3) show ?thesis by (simp add: duration_loop.simps)
  next
    case False
    note step = 1(3) [unfolded duration_loop.simps [of d s]]
    show ?thesis
    proof (cases "duration_item s")
      case (Inr x)
      obtain v s' where x: "x = (v, s')" by fastforce
      with False Inr step have r: "\<not> (d + v) mod 2 ^ 64 > 2 ^ 63" "duration_loop ((d + v) mod 2 ^ 64) s' = Inr n"
        by (auto simp only: Let_def sum.case prod.case if_False split: if_splits)
      then have "(d + v) mod 2 ^ 64 \<le> 2 ^ 63" by (simp only: not_less)
      then show ?thesis by (rule 1(1) [OF False Inr x [symmetric] refl r(1) _ r(2)])
    next
      case (Inl e)
      with step False show ?thesis by simp
    qed
  qed
qed

lemma ParseDuration_range: "ParseDuration s = Inr t \<Longrightarrow> - (2 ^ 63) \<le> t \<and> t < 2 ^ 63"
  using duration_loop_le [of 0] by (fastforce simp: ParseDuration_def Let_def split: if_splits sum.splits)

end
