(* ===== verification/Config.thy ===== *)
theory Config
  imports GoTime
begin

text \<open>
  The configuration (\<open>internal/config/config.go\<close>, \<open>tls.go\<close>). The environment is a function from variable names to values, the empty string for
  an unset variable as \<open>os.Getenv\<close> gives. Certificates are opaque: loading a key pair, reading
  a file and extracting the certificates of a pool are inputs of \<open>BuildTLSConfig\<close>.

  The lemmas say exactly which environments are accepted and with what result, and that TLS,
  once enabled, is never built with less than what was configured.
\<close>

subsection \<open>Numbers\<close>

lemma ParseInt_range:
  assumes "ParseInt s b bits = Inr n"
  shows "- (2 ^ (bits - 1)) \<le> n \<and> n < 2 ^ (bits - 1)"
proof -
  have p: "0 < (2 :: int) ^ (bits - 1)" by simp
  show ?thesis
    using assms by (auto simp: ParseInt_def Let_def simp del: One_nat_def split: if_splits option.splits intro: order.strict_trans1 [OF _ p] order_trans [of _ 0])
qed

subsection \<open>The configuration\<close>

record S3Config =
  s3_Endpoint :: string
  s3_AccessKey :: string
  s3_SecretKey :: string
  s3_Bucket :: string
  s3_Region :: string
  s3_UseSSL :: bool
  s3_PathStyle :: bool

record NFSConfig =
  nfs_Port :: int
  nfs_BindAddr :: string

record HealthConfig =
  health_Port :: int

record CacheSettings =
  cache_MetadataTTL :: time
  cache_DataDir :: string
  cache_DataMaxSize :: int

record LogConfig =
  log_Level :: string

record TLSConfig =
  tls_Enable :: bool
  tls_CertFile :: string
  tls_KeyFile :: string
  tls_ClientCAFile :: string
  tls_MinVersion :: string

record Config =
  cfg_S3 :: S3Config
  cfg_NFS :: NFSConfig
  cfg_Health :: HealthConfig
  cfg_Cache :: CacheSettings
  cfg_Log :: LogConfig
  cfg_TLS :: TLSConfig

definition default_config :: Config where
  "default_config = \<lparr>
     cfg_S3 = \<lparr>s3_Endpoint = ''localhost:9000'', s3_AccessKey = [], s3_SecretKey = [], s3_Bucket = ''data'',
               s3_Region = ''us-east-1'', s3_UseSSL = True, s3_PathStyle = True\<rparr>,
     cfg_NFS = \<lparr>nfs_Port = 2049, nfs_BindAddr = ''0.0.0.0''\<rparr>,
     cfg_Health = \<lparr>health_Port = 9090\<rparr>,
     cfg_Cache = \<lparr>cache_MetadataTTL = 60 * second, cache_DataDir = ''/var/cache/s3gw'',
                  cache_DataMaxSize = 10 * 1024 * 1024 * 1024\<rparr>,
     cfg_Log = \<lparr>log_Level = ''info''\<rparr>,
     cfg_TLS = \<lparr>tls_Enable = False, tls_CertFile = [], tls_KeyFile = [], tls_ClientCAFile = [], tls_MinVersion = ''1.3''\<rparr>\<rparr>"

type_synonym environ = "string \<Rightarrow> string"

text \<open>The three shapes of an override: a string, a flag, and a value that may fail to parse.\<close>

definition env_str :: "environ \<Rightarrow> string \<Rightarrow> string \<Rightarrow> string" where
  "env_str getenv name old = (let v = getenv name in if v \<noteq> [] then v else old)"

definition env_flag :: "environ \<Rightarrow> string \<Rightarrow> bool \<Rightarrow> bool" where
  "env_flag getenv name old = (let v = getenv name in if v \<noteq> [] then v = ''true'' \<or> v = ''1'' else old)"

definition env_parsed :: "environ \<Rightarrow> string \<Rightarrow> (string \<Rightarrow> 'a result) \<Rightarrow> 'a \<Rightarrow> 'a result" where
  "env_parsed getenv name parse old =
     (let v = getenv name
      in if v \<noteq> [] then (case parse v of Inl e \<Rightarrow> Inl (Wrap (''invalid '' @ name) e) | Inr x \<Rightarrow> Inr x) else Inr old)"

definition env_S3 :: "environ \<Rightarrow> S3Config \<Rightarrow> S3Config" where
  "env_S3 getenv c = \<lparr>
     s3_Endpoint = env_str getenv ''S3_ENDPOINT'' (s3_Endpoint c),
     s3_AccessKey = env_str getenv ''S3_ACCESS_KEY'' (s3_AccessKey c),
     s3_SecretKey = env_str getenv ''S3_SECRET_KEY'' (s3_SecretKey c),
     s3_Bucket = env_str getenv ''S3_BUCKET'' (s3_Bucket c),
     s3_Region = env_str getenv ''S3_REGION'' (s3_Region c),
     s3_UseSSL = env_flag getenv ''S3_USE_SSL'' (s3_UseSSL c),
     s3_PathStyle = env_flag getenv ''S3_PATH_STYLE'' (s3_PathStyle c)\<rparr>"

definition env_TLS :: "environ \<Rightarrow> TLSConfig \<Rightarrow> TLSConfig" where
  "env_TLS getenv c = \<lparr>
     tls_Enable = env_flag getenv ''NFS_TLS_ENABLE'' (tls_Enable c),
     tls_CertFile = env_str getenv ''NFS_TLS_CERT_FILE'' (tls_CertFile c),
     tls_KeyFile = env_str getenv ''NFS_TLS_KEY_FILE'' (tls_KeyFile c),
     tls_ClientCAFile = env_str getenv ''NFS_TLS_CLIENT_CA_FILE'' (tls_ClientCAFile c),
     tls_MinVersion = env_str getenv ''NFS_TLS_MIN_VERSION'' (tls_MinVersion c)\<rparr>"

definition check_TLS :: "TLSConfig \<Rightarrow> err option" where
  "check_TLS t =
     (if tls_Enable t then
        if tls_CertFile t = [] \<or> tls_KeyFile t = []
        then Some (Errorf ''NFS_TLS_ENABLE=true requires NFS_TLS_CERT_FILE and NFS_TLS_KEY_FILE'')
        else if tls_MinVersion t \<in> {[], ''1.2'', ''1.3''} then None
        else Some (Errorf (''invalid NFS_TLS_MIN_VERSION '' @ quoted (tls_MinVersion t) @
          '' (want '' @ quoted ''1.2'' @ '' or '' @ quoted ''1.3'' @ '')''))
      else None)"

definition Load :: "environ \<Rightarrow> Config result" where
  "Load getenv =
     (let cfg = default_config; s3 = env_S3 getenv (cfg_S3 cfg); tls = env_TLS getenv (cfg_TLS cfg)
      in res_bind (env_parsed getenv ''NFS_PORT'' Atoi (nfs_Port (cfg_NFS cfg))) (\<lambda>port.
         res_bind (env_parsed getenv ''HEALTH_PORT'' Atoi (health_Port (cfg_Health cfg))) (\<lambda>hport.
         res_bind (env_parsed getenv ''CACHE_DATA_MAX_SIZE'' (\<lambda>v. ParseInt v 10 64) (cache_DataMaxSize (cfg_Cache cfg))) (\<lambda>size.
         res_bind (env_parsed getenv ''CACHE_METADATA_TTL'' ParseDuration (cache_MetadataTTL (cfg_Cache cfg))) (\<lambda>ttl.
         case check_TLS tls of
           Some e \<Rightarrow> Inl e
         | None \<Rightarrow>
             if s3_AccessKey s3 = [] \<or> s3_SecretKey s3 = []
             then Inl (Errorf ''S3_ACCESS_KEY and S3_SECRET_KEY environment variables are required'')
             else Inr \<lparr>
               cfg_S3 = s3,
               cfg_NFS = \<lparr>nfs_Port = port, nfs_BindAddr = env_str getenv ''NFS_BIND_ADDR'' (nfs_BindAddr (cfg_NFS cfg))\<rparr>,
               cfg_Health = \<lparr>health_Port = hport\<rparr>,
               cfg_Cache = \<lparr>cache_MetadataTTL = ttl, cache_DataDir = env_str getenv ''CACHE_DATA_DIR'' (cache_DataDir (cfg_Cache cfg)),
                            cache_DataMaxSize = size\<rparr>,
               cfg_Log = \<lparr>log_Level = env_str getenv ''LOG_LEVEL'' (log_Level (cfg_Log cfg))\<rparr>,
               cfg_TLS = tls\<rparr>)))))"

subsection \<open>In-band TLS\<close>

datatype tlsVersion = VersionTLS12 | VersionTLS13
datatype clientAuth = NoClientCert | RequireAndVerifyClientCert

text \<open>The fields of \<open>tls.Config\<close> the gateway sets, over opaque certificates and pools.\<close>

record ('cert, 'pool) tls_Config =
  tc_Certificates :: "'cert list"
  tc_MinVersion :: tlsVersion
  tc_ClientCAs :: "'pool option"
  tc_ClientAuth :: clientAuth

text \<open>
  What the file system and \<open>crypto/x509\<close> answer: the key pair of two files, the bytes of a
  file, and the pool with the certificates of a PEM text, or nothing if it holds none.
\<close>

record ('cert, 'pool) tls_io =
  LoadX509KeyPair :: "string \<Rightarrow> string \<Rightarrow> 'cert result"
  tls_ReadFile :: "string \<Rightarrow> bytes result"
  AppendCertsFromPEM :: "bytes \<Rightarrow> 'pool option"

definition BuildTLSConfig :: "('cert, 'pool) tls_io \<Rightarrow> TLSConfig \<Rightarrow> ('cert, 'pool) tls_Config option result" where
  "BuildTLSConfig io t =
     (if \<not> tls_Enable t then Inr None
      else case LoadX509KeyPair io (tls_CertFile t) (tls_KeyFile t) of
        Inl e \<Rightarrow> Inl (Wrap ''load TLS cert/key'' e)
      | Inr cert \<Rightarrow>
          let min = (if tls_MinVersion t = ''1.2'' then VersionTLS12 else VersionTLS13);
              cfg = \<lparr>tc_Certificates = [cert], tc_MinVersion = min, tc_ClientCAs = None, tc_ClientAuth = NoClientCert\<rparr>
          in if tls_ClientCAFile t = [] then Inr (Some cfg)
             else case tls_ReadFile io (tls_ClientCAFile t) of
               Inl e \<Rightarrow> Inl (Wrap ''read client CA'' e)
             | Inr caBytes \<Rightarrow>
                 (case AppendCertsFromPEM io caBytes of
                    None \<Rightarrow> Inl (Errorf (''client CA file '' @ tls_ClientCAFile t @ '' contains no usable certs''))
                  | Some pool \<Rightarrow> Inr (Some (cfg\<lparr>tc_ClientCAs := Some pool, tc_ClientAuth := RequireAndVerifyClientCert\<rparr>))))"

subsection \<open>Properties\<close>

definition int64 :: "int \<Rightarrow> bool" where
  "int64 n \<longleftrightarrow> - (2 ^ 63) \<le> n \<and> n < 2 ^ 63"

definition config_ok :: "Config \<Rightarrow> bool" where
  "config_ok cfg \<longleftrightarrow>
     s3_AccessKey (cfg_S3 cfg) \<noteq> [] \<and> s3_SecretKey (cfg_S3 cfg) \<noteq> [] \<and> s3_Endpoint (cfg_S3 cfg) \<noteq> [] \<and> s3_Bucket (cfg_S3 cfg) \<noteq> [] \<and>
     cache_DataDir (cfg_Cache cfg) \<noteq> [] \<and>
     int64 (nfs_Port (cfg_NFS cfg)) \<and> int64 (health_Port (cfg_Health cfg)) \<and>
     int64 (cache_DataMaxSize (cfg_Cache cfg)) \<and> int64 (cache_MetadataTTL (cfg_Cache cfg)) \<and>
     (tls_Enable (cfg_TLS cfg) \<longrightarrow>
        tls_CertFile (cfg_TLS cfg) \<noteq> [] \<and> tls_KeyFile (cfg_TLS cfg) \<noteq> [] \<and> tls_MinVersion (cfg_TLS cfg) \<in> {''1.2'', ''1.3''})"

text \<open>The environments \<open>Load\<close> accepts.\<close>

definition set_ok :: "environ \<Rightarrow> string \<Rightarrow> (string \<Rightarrow> 'a result) \<Rightarrow> bool" where
  "set_ok getenv name parse \<longleftrightarrow> getenv name = [] \<or> is_ok (parse (getenv name))"

definition environ_ok :: "environ \<Rightarrow> bool" where
  "environ_ok getenv \<longleftrightarrow>
     set_ok getenv ''NFS_PORT'' Atoi \<and> set_ok getenv ''HEALTH_PORT'' Atoi \<and>
     set_ok getenv ''CACHE_DATA_MAX_SIZE'' (\<lambda>v. ParseInt v 10 64) \<and> set_ok getenv ''CACHE_METADATA_TTL'' ParseDuration \<and>
     (getenv ''NFS_TLS_ENABLE'' \<in> {''true'', ''1''} \<longrightarrow>
        getenv ''NFS_TLS_CERT_FILE'' \<noteq> [] \<and> getenv ''NFS_TLS_KEY_FILE'' \<noteq> [] \<and>
        getenv ''NFS_TLS_MIN_VERSION'' \<in> {[], ''1.2'', ''1.3''}) \<and>
     getenv ''S3_ACCESS_KEY'' \<noteq> [] \<and> getenv ''S3_SECRET_KEY'' \<noteq> []"

lemma env_parsed_Inr:
  "env_parsed getenv name parse old = Inr x \<longleftrightarrow> (if getenv name = [] then x = old else parse (getenv name) = Inr x)"
  by (auto simp: env_parsed_def Let_def split: sum.splits)

lemma env_parsed_ok: "(\<exists>x. env_parsed getenv name parse old = Inr x) \<longleftrightarrow> set_ok getenv name parse"
  by (auto simp: env_parsed_Inr set_ok_def is_ok_iff)

lemma env_str_simps:
  "env_str getenv name [] = getenv name"
  "old \<noteq> [] \<Longrightarrow> env_str getenv name old \<noteq> []"
  "env_str getenv name ''1.3'' = v \<longleftrightarrow> getenv name = v \<and> v \<noteq> [] \<or> getenv name = [] \<and> v = ''1.3''"
  by (auto simp: env_str_def Let_def)

lemma env_flag_False: "env_flag getenv name False \<longleftrightarrow> getenv name = ''true'' \<or> getenv name = ''1''"
  by (auto simp: env_flag_def Let_def)

lemma env_TLS_default:
  "env_TLS getenv (cfg_TLS default_config) =
     \<lparr>tls_Enable = (getenv ''NFS_TLS_ENABLE'' = ''true'' \<or> getenv ''NFS_TLS_ENABLE'' = ''1''), tls_CertFile = getenv ''NFS_TLS_CERT_FILE'',
      tls_KeyFile = getenv ''NFS_TLS_KEY_FILE'', tls_ClientCAFile = getenv ''NFS_TLS_CLIENT_CA_FILE'',
      tls_MinVersion = env_str getenv ''NFS_TLS_MIN_VERSION'' ''1.3''\<rparr>"
  by (simp add: env_TLS_def default_config_def env_str_simps(1) env_flag_False)

lemma check_TLS_env:
  "check_TLS (env_TLS getenv (cfg_TLS default_config)) = None \<longleftrightarrow>
     (getenv ''NFS_TLS_ENABLE'' \<in> {''true'', ''1''} \<longrightarrow>
        getenv ''NFS_TLS_CERT_FILE'' \<noteq> [] \<and> getenv ''NFS_TLS_KEY_FILE'' \<noteq> [] \<and>
        getenv ''NFS_TLS_MIN_VERSION'' \<in> {[], ''1.2'', ''1.3''})"
  unfolding env_TLS_default check_TLS_def by (auto simp: env_str_simps)

lemma env_S3_default:
  "s3_AccessKey (env_S3 getenv (cfg_S3 default_config)) = getenv ''S3_ACCESS_KEY''"
  "s3_SecretKey (env_S3 getenv (cfg_S3 default_config)) = getenv ''S3_SECRET_KEY''"
  "s3_Endpoint (env_S3 getenv (cfg_S3 default_config)) \<noteq> []" "s3_Bucket (env_S3 getenv (cfg_S3 default_config)) \<noteq> []"
  by (simp_all add: env_S3_def default_config_def env_str_simps(1,2))

text \<open>What \<open>Load\<close> returns, part by part.\<close>

lemma Load_Inr:
  "Load getenv = Inr cfg \<longleftrightarrow>
     env_parsed getenv ''NFS_PORT'' Atoi 2049 = Inr (nfs_Port (cfg_NFS cfg)) \<and>
     env_parsed getenv ''HEALTH_PORT'' Atoi 9090 = Inr (health_Port (cfg_Health cfg)) \<and>
     env_parsed getenv ''CACHE_DATA_MAX_SIZE'' (\<lambda>v. ParseInt v 10 64) 10737418240 = Inr (cache_DataMaxSize (cfg_Cache cfg)) \<and>
     env_parsed getenv ''CACHE_METADATA_TTL'' ParseDuration (60 * second) = Inr (cache_MetadataTTL (cfg_Cache cfg)) \<and>
     cfg_TLS cfg = env_TLS getenv (cfg_TLS default_config) \<and> check_TLS (cfg_TLS cfg) = None \<and>
     cfg_S3 cfg = env_S3 getenv (cfg_S3 default_config) \<and> getenv ''S3_ACCESS_KEY'' \<noteq> [] \<and> getenv ''S3_SECRET_KEY'' \<noteq> [] \<and>
     nfs_BindAddr (cfg_NFS cfg) = env_str getenv ''NFS_BIND_ADDR'' ''0.0.0.0'' \<and>
     cache_DataDir (cfg_Cache cfg) = env_str getenv ''CACHE_DATA_DIR'' ''/var/cache/s3gw'' \<and>
     log_Level (cfg_Log cfg) = env_str getenv ''LOG_LEVEL'' ''info''"
  unfolding Load_def Let_def res_bind_Inr env_S3_default
  by (cases cfg; cases "cfg_NFS cfg"; cases "cfg_Health cfg"; cases "cfg_Cache cfg"; cases "cfg_Log cfg")
     (auto simp: default_config_def split: option.splits if_splits)

lemma Load_ok: "is_ok (Load getenv) \<longleftrightarrow> environ_ok getenv"
proof -
  let ?p = "env_parsed getenv"
  have e: "environ_ok getenv \<longleftrightarrow>
      (\<exists>x. ?p ''NFS_PORT'' Atoi 2049 = Inr x) \<and> (\<exists>x. ?p ''HEALTH_PORT'' Atoi 9090 = Inr x) \<and>
      (\<exists>x. ?p ''CACHE_DATA_MAX_SIZE'' (\<lambda>v. ParseInt v 10 64) 10737418240 = Inr x) \<and>
      (\<exists>x. ?p ''CACHE_METADATA_TTL'' ParseDuration (60 * second) = Inr x) \<and>
      check_TLS (env_TLS getenv (cfg_TLS default_config)) = None \<and> getenv ''S3_ACCESS_KEY'' \<noteq> [] \<and> getenv ''S3_SECRET_KEY'' \<noteq> []"
      (is "_ \<longleftrightarrow> ?A")
    by (simp only: env_parsed_ok check_TLS_env environ_ok_def)
  show ?thesis
    unfolding e is_ok_iff
  proof
    assume "\<exists>cfg. Load getenv = Inr cfg"
    then show ?A unfolding Load_Inr by auto
  next
    assume ?A
    then show "\<exists>cfg. Load getenv = Inr cfg"
      unfolding Load_def Let_def res_bind_Inr env_S3_default by (auto simp: default_config_def)
  qed
qed

lemma env_parsed_int64:
  assumes "env_parsed getenv name parse old = Inr n" and "\<And>v m. parse v = Inr m \<Longrightarrow> int64 m" and "int64 old"
  shows "int64 n"
  using assms by (auto simp: env_parsed_Inr split: if_splits)

lemma parsed_int64: "ParseInt v 10 64 = Inr n \<Longrightarrow> int64 n" "Atoi v = Inr n \<Longrightarrow> int64 n" "ParseDuration v = Inr n \<Longrightarrow> int64 n"
  using ParseInt_range [of v 10 64 n] ParseDuration_range [of v n] by (simp_all add: int64_def Atoi_def)

lemma Load_config_ok:
  assumes "Load getenv = Inr cfg"
  shows "config_ok cfg"
proof -
  from assms [unfolded Load_Inr]
  have p: "env_parsed getenv ''NFS_PORT'' Atoi 2049 = Inr (nfs_Port (cfg_NFS cfg))"
    "env_parsed getenv ''HEALTH_PORT'' Atoi 9090 = Inr (health_Port (cfg_Health cfg))"
    "env_parsed getenv ''CACHE_DATA_MAX_SIZE'' (\<lambda>v. ParseInt v 10 64) 10737418240 = Inr (cache_DataMaxSize (cfg_Cache cfg))"
    "env_parsed getenv ''CACHE_METADATA_TTL'' ParseDuration (60 * second) = Inr (cache_MetadataTTL (cfg_Cache cfg))"
    and t: "cfg_TLS cfg = env_TLS getenv (cfg_TLS default_config)" "check_TLS (cfg_TLS cfg) = None"
    and c: "cfg_S3 cfg = env_S3 getenv (cfg_S3 default_config)" "getenv ''S3_ACCESS_KEY'' \<noteq> []" "getenv ''S3_SECRET_KEY'' \<noteq> []"
      "cache_DataDir (cfg_Cache cfg) = env_str getenv ''CACHE_DATA_DIR'' ''/var/cache/s3gw''"
    by blast+
  have "int64 (nfs_Port (cfg_NFS cfg))" by (rule env_parsed_int64 [OF p(1) parsed_int64(2)]) (simp_all add: int64_def)
  moreover have "int64 (health_Port (cfg_Health cfg))" by (rule env_parsed_int64 [OF p(2) parsed_int64(2)]) (simp_all add: int64_def)
  moreover have "int64 (cache_DataMaxSize (cfg_Cache cfg))" by (rule env_parsed_int64 [OF p(3) parsed_int64(1)]) (simp_all add: int64_def)
  moreover have "int64 (cache_MetadataTTL (cfg_Cache cfg))" by (rule env_parsed_int64 [OF p(4) parsed_int64(3)]) (simp_all add: int64_def)
  moreover have "tls_Enable (cfg_TLS cfg) \<longrightarrow>
      tls_CertFile (cfg_TLS cfg) \<noteq> [] \<and> tls_KeyFile (cfg_TLS cfg) \<noteq> [] \<and> tls_MinVersion (cfg_TLS cfg) \<in> {''1.2'', ''1.3''}"
    using t(2) by (auto simp: t(1) env_TLS_default check_TLS_def env_str_simps split: if_splits)
  ultimately show ?thesis using c by (simp add: config_ok_def env_S3_default env_str_simps(2))
qed

text \<open>
  C25. \<open>Load\<close> accepts exactly the environments in which every numeric variable that is set parses,
  both credentials are given, and TLS, where it is enabled, has a certificate, a key and a known
  version; and the configuration it returns is well formed: the credentials, the endpoint, the
  bucket and the cache directory are non-empty, all numbers are 64-bit integers, and enabled TLS
  is completely specified.
\<close>
theorem load_sound_and_complete:
  "(is_ok (Load getenv) \<longleftrightarrow> environ_ok getenv) \<and> (\<forall>cfg. Load getenv = Inr cfg \<longrightarrow> config_ok cfg)"
  by (simp add: Load_ok Load_config_ok)

text \<open>An environment with the two credentials, a port, a duration and TLS.\<close>

definition ex_environ :: environ where
  "ex_environ = (\<lambda>_. [])(''S3_ACCESS_KEY'' := ''k'', ''S3_SECRET_KEY'' := ''s'', ''NFS_PORT'' := ''2050'',
     ''CACHE_METADATA_TTL'' := ''90s'', ''NFS_TLS_ENABLE'' := ''1'', ''NFS_TLS_CERT_FILE'' := ''c'', ''NFS_TLS_KEY_FILE'' := ''p'',
     ''NFS_TLS_MIN_VERSION'' := ''1.2'', ''NFS_TLS_CLIENT_CA_FILE'' := ''a'')"

lemma ex_parsed: "Atoi ''2050'' = Inr 2050" "ParseDuration ''90s'' = Inr 90000000000"
  by (simp_all add: Atoi_def ParseInt_def HasPrefix_def Let_def digit_val_def ParseDuration_def duration_loop.simps
      duration_item_def duration_number_def duration_scaled_def unit_char_def unitMap_def micro_sign_def greek_mu_def)

lemma ex_environ_ok: "environ_ok ex_environ"
  by (simp add: environ_ok_def set_ok_def ex_environ_def ex_parsed)

theorem load_sound_and_complete_witness:
  "\<exists>cfg. Load ex_environ = Inr cfg \<and> config_ok cfg \<and> nfs_Port (cfg_NFS cfg) = 2050 \<and> cache_MetadataTTL (cfg_Cache cfg) = 90000000000"
proof -
  from load_sound_and_complete [of ex_environ] ex_environ_ok obtain cfg where c: "Load ex_environ = Inr cfg" "config_ok cfg" by (auto simp: is_ok_iff)
  from c(1) have "nfs_Port (cfg_NFS cfg) = 2050" "cache_MetadataTTL (cfg_Cache cfg) = 90000000000"
    by (simp_all add: Load_Inr env_parsed_def ex_environ_def ex_parsed)
  with c show ?thesis by blast
qed

text \<open>
  C24. TLS is what the environment asked for: with an environment that \<open>Load\<close> accepts, a successful
  \<open>BuildTLSConfig\<close> returns no configuration exactly when TLS is not enabled; otherwise it serves the
  key pair of the two configured files, takes version 1.2 only if it is asked for and 1.3 in
  every other case, and with a client CA file it requires certificates verified against the
  pool read from that file.
\<close>
theorem tls_as_configured:
  assumes "Load getenv = Inr cfg" and "BuildTLSConfig io (cfg_TLS cfg) = Inr r"
  shows "case r of
      None \<Rightarrow> getenv ''NFS_TLS_ENABLE'' \<notin> {''true'', ''1''}
    | Some c \<Rightarrow> getenv ''NFS_TLS_ENABLE'' \<in> {''true'', ''1''} \<and>
        (\<exists>cert. LoadX509KeyPair io (getenv ''NFS_TLS_CERT_FILE'') (getenv ''NFS_TLS_KEY_FILE'') = Inr cert \<and> tc_Certificates c = [cert]) \<and>
        tc_MinVersion c = (if getenv ''NFS_TLS_MIN_VERSION'' = ''1.2'' then VersionTLS12 else VersionTLS13) \<and>
        (if getenv ''NFS_TLS_CLIENT_CA_FILE'' = [] then tc_ClientAuth c = NoClientCert
         else tc_ClientAuth c = RequireAndVerifyClientCert \<and>
           (\<exists>pem pool. tls_ReadFile io (getenv ''NFS_TLS_CLIENT_CA_FILE'') = Inr pem \<and> AppendCertsFromPEM io pem = Some pool \<and> tc_ClientCAs c = Some pool))"
proof -
  let ?t = "env_TLS getenv (cfg_TLS default_config)"
  have b: "BuildTLSConfig io ?t = Inr r" using assms by (simp add: Load_Inr)
  show ?thesis
  proof (cases "tls_Enable ?t")
    case False
    with b show ?thesis by (auto simp: BuildTLSConfig_def env_TLS_default)
  next
    case True
    then obtain cert where "LoadX509KeyPair io (getenv ''NFS_TLS_CERT_FILE'') (getenv ''NFS_TLS_KEY_FILE'') = Inr cert"
      using b by (auto simp: BuildTLSConfig_def env_TLS_default split: sum.splits)
    with b True show ?thesis
      by (auto simp: BuildTLSConfig_def env_TLS_default Let_def env_str_simps split: sum.splits option.splits if_splits)
  qed
qed

definition ex_tls_io :: "(string, string) tls_io" where
  "ex_tls_io = \<lparr>LoadX509KeyPair = (\<lambda>c k. Inr (c @ k)), tls_ReadFile = Inr, AppendCertsFromPEM = Some\<rparr>"

theorem tls_as_configured_witness:
  "\<exists>cfg c. Load ex_environ = Inr cfg \<and> BuildTLSConfig ex_tls_io (cfg_TLS cfg) = Inr (Some c) \<and> tc_MinVersion c = VersionTLS12 \<and>
     tc_ClientAuth c = RequireAndVerifyClientCert"
proof -
  obtain cfg where c: "Load ex_environ = Inr cfg" using ex_environ_ok by (auto simp: Load_ok [symmetric] is_ok_iff)
  then have t: "cfg_TLS cfg = env_TLS ex_environ (cfg_TLS default_config)" by (simp add: Load_Inr)
  obtain r where r: "BuildTLSConfig ex_tls_io (cfg_TLS cfg) = Inr (Some r)"
    by (simp add: t BuildTLSConfig_def env_TLS_default ex_environ_def ex_tls_io_def Let_def)
  from tls_as_configured [OF c r] c r show ?thesis by (auto simp: ex_environ_def)
qed

end
