(* ===== verification/Health.thy ===== *)
theory Health
  imports S3Store
begin

text \<open>
  The health server (\<open>internal/health/health.go\<close>): liveness, readiness and metrics over HTTP.
  The readiness check is a function of the state of the bucket at the time of the request.
  Listening, shutting down and the Prometheus handler are inputs; the router is that of
  \<open>net/http\<close> for the three patterns, which have no method and no trailing slash and so match
  exactly their path, on a request path that is already clean.
\<close>

record response =
  rs_Code :: nat
  rs_ContentType :: string
  rs_Body :: string

text \<open>\<open>json.Encoder\<close> on \<open>map[string]string{"status": s}\<close>: the object and a newline.\<close>

definition json_status :: "string \<Rightarrow> string" where
  "json_status s = ''{'' @ quoted ''status'' @ '':'' @ quoted s @ ''}'' @ [CHR 0x0A]"

definition json_response :: "nat \<Rightarrow> string \<Rightarrow> response" where
  "json_response code s = \<lparr>rs_Code = code, rs_ContentType = ''application/json'', rs_Body = json_status s\<rparr>"

record 'w HealthServer =
  hv_Addr :: string
  hv_ReadTimeout :: time
  hv_WriteTimeout :: time
  hv_IdleTimeout :: time
  hv_MaxHeaderBytes :: int
  hv_checker :: "'w \<Rightarrow> err option"

definition NewHealthServer :: "string \<Rightarrow> ('w \<Rightarrow> err option) option \<Rightarrow> 'w HealthServer" where
  "NewHealthServer addr checker = \<lparr>
     hv_Addr = addr, hv_ReadTimeout = 10 * second, hv_WriteTimeout = 10 * second, hv_IdleTimeout = 60 * second,
     hv_MaxHeaderBytes = 2 ^ 20, hv_checker = (case checker of None \<Rightarrow> (\<lambda>_. None) | Some f \<Rightarrow> f)\<rparr>"

text \<open>\<open>Start\<close> returns what \<open>net.Listen\<close> said, \<open>Stop\<close> what shutting down said; the serving goroutine only logs.\<close>

definition health_Start :: "(string \<Rightarrow> err option) \<Rightarrow> 'w HealthServer \<Rightarrow> err option" where
  "health_Start listen h = listen (hv_Addr h)"

definition health_Stop :: "(string \<Rightarrow> err option) \<Rightarrow> 'w HealthServer \<Rightarrow> err option" where
  "health_Stop shutdown h = shutdown (hv_Addr h)"

definition handleHealth :: "'w HealthServer \<Rightarrow> response" where
  "handleHealth h = json_response 200 ''ok''"

definition handleReady :: "'w HealthServer \<Rightarrow> 'w \<Rightarrow> response" where
  "handleReady h w =
     (case hv_checker h w of
        Some err \<Rightarrow> json_response 503 ''not ready''
      | None \<Rightarrow> json_response 200 ''ready'')"

definition http_NotFound :: response where
  "http_NotFound = \<lparr>rs_Code = 404, rs_ContentType = ''text/plain; charset=utf-8'', rs_Body = ''404 page not found'' @ [CHR 0x0A]\<rparr>"

definition health_mux :: "response \<Rightarrow> 'w HealthServer \<Rightarrow> string \<Rightarrow> 'w \<Rightarrow> response" where
  "health_mux metrics h path w =
     (if path = ''/health'' then handleHealth h
      else if path = ''/ready'' then handleReady h w
      else if path = ''/metrics'' then metrics
      else http_NotFound)"

lemma json_response_simps [simp]: "rs_Code (json_response code s) = code" "rs_Body (json_response code s) = json_status s"
  by (simp_all add: json_response_def)

lemma health_mux_simps:
  "health_mux metrics h ''/health'' w = json_response 200 ''ok''"
  "health_mux metrics h ''/ready'' w = (if hv_checker h w = None then json_response 200 ''ready'' else json_response 503 ''not ready'')"
  "health_mux metrics h ''/metrics'' w = metrics"
  by (simp_all add: health_mux_def handleHealth_def handleReady_def split: option.split)

end
