(* ===== verification/Gateway.thy ===== *)
theory Gateway
  imports FsInvariant Config Health
begin

text \<open>
  The gateway as a process: the NFS server (\<open>internal/nfs/server.go\<close>) and \<open>main\<close>
  (\<open>cmd/s3nfsgw/main.go\<close>).

  Start-up is a function of what the environment answers: the variables, minio-go, the network,
  the disk and the database. From then on the process is a state machine: sessions execute
  operations on the filesystem, others change the bucket, the two caches evict, the server may
  fail or a signal may arrive. The NFS and authentication library is a parameter.

  The lemmas show that start-up ends in one of two ways, which of them, and what holds of every
  state the process can reach.
\<close>

subsection \<open>Authentication\<close>

text \<open>The part of libnfs-go's \<open>auth\<close> package the handler chooses from.\<close>

record auth_cred =
  ac_Flavor :: uint32
  ac_Body :: bytes

record 'creds libauth =
  la_FLAVOR_NULL :: uint32
  la_Null :: "auth_cred option \<Rightarrow> auth_cred option \<Rightarrow> (auth_cred \<times> 'creds) result"
  la_Unix :: "auth_cred option \<Rightarrow> auth_cred option \<Rightarrow> (auth_cred \<times> 'creds) result"

definition acceptAuth :: "'creds libauth \<Rightarrow> auth_cred option \<Rightarrow> auth_cred option \<Rightarrow> (auth_cred \<times> 'creds) result" where
  "acceptAuth lib cred verf =
     (if cred = None \<or> ac_Flavor (the cred) = la_FLAVOR_NULL lib then la_Null lib cred verf
      else la_Unix lib cred verf)"

subsection \<open>The NFS server\<close>

record ('w, 'db, 'cert, 'pool) ServerConfig =
  sc_Port :: int
  sc_BindAddr :: string
  sc_S3 :: "'w client"
  sc_Handles :: "'db HandleStore"
  sc_DataCacheDir :: string
  sc_DataCacheMax :: int
  sc_TLS :: "('cert, 'pool) tls_Config option"

text \<open>
  A server with the address it listens on, its TLS option, and the filesystem that
  \<open>vfsLoader\<close> makes for every session: sessions have their own \<open>*S3FS\<close>, but all of its parts
  are shared, so one state stands for all of them.
\<close>

record ('w, 'db, 'cert, 'pool) Server =
  sv_addr :: string
  sv_TLS :: "('cert, 'pool) tls_Config option"
  sv_s3 :: "'w client"
  sv_fs :: "('w, 'db) S3FS"

text \<open>What the disk and the network answer while the server is created.\<close>

record ('cert, 'pool) server_io =
  si_os :: osenv
  si_now :: time
  si_MkdirAll :: "string \<Rightarrow> err option"
  si_ReadDir :: "string \<Rightarrow> dirent list option"
  si_disk :: "bytes strmap"
  si_NewServerTCP :: "string \<Rightarrow> ('cert, 'pool) tls_Config option \<Rightarrow> err option"

definition dcConfig :: "('w, 'db, 'cert, 'pool) ServerConfig \<Rightarrow> DataCacheConfig" where
  "dcConfig cfg = \<lparr>dcc_Dir = sc_DataCacheDir cfg, dcc_MaxSize = sc_DataCacheMax cfg, dcc_EvictionInterval = 0, dcc_DataTTL = 0\<rparr>"

definition make_data_cache ::
  "('cert, 'pool) server_io \<Rightarrow> ('w, 'db, 'cert, 'pool) ServerConfig \<Rightarrow> DataCache option result" where
  "make_data_cache io cfg =
     (if sc_DataCacheDir cfg = [] then Inr None
      else case NewDataCache (si_os io) (si_now io) (si_MkdirAll io (sc_DataCacheDir cfg)) (si_ReadDir io) (si_disk io) (dcConfig cfg) of
             Inl (Panic msg) \<Rightarrow> Inl (Panic msg)
           | Inl e \<Rightarrow> Inl (Wrap ''create data cache'' e)
           | Inr dc \<Rightarrow> Inr (Some dc))"

text \<open>The server or the error, with the data cache as it is left behind.\<close>

definition NewServer ::
  "('cert, 'pool) server_io \<Rightarrow> 'w \<Rightarrow> ('w, 'db, 'cert, 'pool) ServerConfig \<Rightarrow> ('w, 'db, 'cert, 'pool) Server result \<times> DataCache option" where
  "NewServer io w cfg =
     (let mc = NewMetadataCache DefaultCacheConfig
      in case make_data_cache io cfg of
           Inl e \<Rightarrow> (Inl e, None)
         | Inr dco \<Rightarrow>
             let addr = sc_BindAddr cfg @ '':'' @ Itoa (sc_Port cfg)
             in case si_NewServerTCP io addr (sc_TLS cfg) of
                  Some e \<Rightarrow>
                    (case dco of
                       None \<Rightarrow> (Inl (Wrap ''create NFS server'' e), None)
                     | Some dc \<Rightarrow>
                         (case dc_Stop dc of
                            Inl p \<Rightarrow> (Inl p, Some dc)
                          | Inr dc' \<Rightarrow> (Inl (Wrap ''create NFS server'' e), Some dc')))
                | None \<Rightarrow>
                    (Inr \<lparr>sv_addr = addr, sv_TLS = sc_TLS cfg, sv_s3 = sc_S3 cfg,
                          sv_fs = NewS3FS w (sc_Handles cfg) (Some mc) dco\<rparr>, dco))"

subsection \<open>Start-up\<close>

text \<open>What the process is given, and the answers it gets while starting.\<close>

record ('w, 'db, 'cert, 'pool) boot =
  bt_getenv :: environ
  bt_dataDir :: string
  bt_minio_New :: "string \<Rightarrow> minio_options \<Rightarrow> 'w minio result"
  bt_world :: 'w
  bt_Listen :: "string \<Rightarrow> err option"
  bt_MkdirAll :: "string \<Rightarrow> err option"
  bt_bolt :: "'db bolt"
  bt_bolt_Open :: "string \<Rightarrow> 'db result"
  bt_tls :: "('cert, 'pool) tls_io"
  bt_server :: "('cert, 'pool) server_io"

definition client_config :: "S3Config \<Rightarrow> ClientConfig" where
  "client_config c = \<lparr>cl_Endpoint = s3_Endpoint c, cl_AccessKey = s3_AccessKey c, cl_SecretKey = s3_SecretKey c,
     cl_Bucket = s3_Bucket c, cl_Region = s3_Region c, cl_UseSSL = s3_UseSSL c, cl_PathStyle = s3_PathStyle c,
     cl_SignatureVersion = []\<rparr>"

text \<open>The check behind \<open>/ready\<close>.\<close>

definition s3_checker :: "'w client \<Rightarrow> 'w \<Rightarrow> err option" where
  "s3_checker = (\<lambda>(mo, bucket) w.
     case client_BucketExists mo bucket w of
       Inl e \<Rightarrow> Some (Wrap ''S3 health check failed'' e)
     | Inr ok \<Rightarrow> if ok then None else Some (Errorf ''S3 bucket not found''))"

definition health_server :: "Config \<Rightarrow> 'w client \<Rightarrow> 'w HealthServer" where
  "health_server cfg s3c = NewHealthServer ('':'' @ Itoa (health_Port (cfg_Health cfg))) (Some (s3_checker s3c))"

definition server_config ::
  "Config \<Rightarrow> 'w client \<Rightarrow> 'db HandleStore \<Rightarrow> ('cert, 'pool) tls_Config option \<Rightarrow> ('w, 'db, 'cert, 'pool) ServerConfig" where
  "server_config cfg s3c handles tls = \<lparr>sc_Port = nfs_Port (cfg_NFS cfg), sc_BindAddr = nfs_BindAddr (cfg_NFS cfg),
     sc_S3 = s3c, sc_Handles = handles, sc_DataCacheDir = cache_DataDir (cfg_Cache cfg),
     sc_DataCacheMax = cache_DataMaxSize (cfg_Cache cfg), sc_TLS = tls\<rparr>"

record ('w, 'db, 'cert, 'pool) gateway =
  gw_cfg :: Config
  gw_health :: "'w HealthServer"
  gw_server :: "('w, 'db, 'cert, 'pool) Server"

text \<open>
  The points \<open>main\<close> passes, each with the variables it has by then; \<open>Exited\<close> has the exit
  status and the error that was logged.
\<close>

datatype ('w, 'db, 'cert, 'pool) main_state =
    Init
  | Loaded Config
  | Connected Config "'w client"
  | HealthUp Config "'w client" "'w HealthServer"
  | HandlesOpen Config "'w client" "'w HealthServer" "'db HandleStore"
  | TLSBuilt Config "'w client" "'w HealthServer" "'db HandleStore" "('cert, 'pool) tls_Config option"
  | Serving "('w, 'db, 'cert, 'pool) gateway"
  | Stopping "('w, 'db, 'cert, 'pool) gateway"
  | Exited nat "err option"

text \<open>\<open>os.Exit(1)\<close> after an error; the runtime exits with status 2 after a panic.\<close>

definition exit_with :: "err \<Rightarrow> ('w, 'db, 'cert, 'pool) main_state" where
  "exit_with e = (case e of Panic _ \<Rightarrow> Exited 2 (Some e) | _ \<Rightarrow> Exited 1 (Some e))"

fun main_next :: "('w, 'db, 'cert, 'pool) boot \<Rightarrow> ('w, 'db, 'cert, 'pool) main_state \<Rightarrow> ('w, 'db, 'cert, 'pool) main_state" where
  "main_next bt Init = (case Load (bt_getenv bt) of Inl e \<Rightarrow> exit_with e | Inr cfg \<Rightarrow> Loaded cfg)"
| "main_next bt (Loaded cfg) =
     (case NewClient (bt_minio_New bt) (client_config (cfg_S3 cfg)) (bt_world bt) of
        Inl e \<Rightarrow> exit_with e
      | Inr s3c \<Rightarrow> Connected cfg s3c)"
| "main_next bt (Connected cfg s3c) =
     (let healthSrv = health_server cfg s3c
      in case health_Start (bt_Listen bt) healthSrv of
           Some e \<Rightarrow> exit_with e
         | None \<Rightarrow> HealthUp cfg s3c healthSrv)"
| "main_next bt (HealthUp cfg s3c healthSrv) =
     (case bt_MkdirAll bt (bt_dataDir bt) of
        Some e \<Rightarrow> exit_with e
      | None \<Rightarrow>
          (case NewHandleStore (bt_bolt bt) (bt_bolt_Open bt (filepath_Join [bt_dataDir bt, ''handles.db''])) of
             Inl e \<Rightarrow> exit_with e
           | Inr handles \<Rightarrow> HandlesOpen cfg s3c healthSrv handles))"
| "main_next bt (HandlesOpen cfg s3c healthSrv handles) =
     (case BuildTLSConfig (bt_tls bt) (cfg_TLS cfg) of
        Inl e \<Rightarrow> exit_with e
      | Inr tls \<Rightarrow> TLSBuilt cfg s3c healthSrv handles tls)"
| "main_next bt (TLSBuilt cfg s3c healthSrv handles tls) =
     (case NewServer (bt_server bt) (bt_world bt) (server_config cfg s3c handles tls) of
        (Inl e, _) \<Rightarrow> exit_with e
      | (Inr srv, _) \<Rightarrow> Serving \<lparr>gw_cfg = cfg, gw_health = healthSrv, gw_server = srv\<rparr>)"
| "main_next bt st = st"

fun starting :: "('w, 'db, 'cert, 'pool) main_state \<Rightarrow> bool" where
  "starting (Serving _) = False"
| "starting (Stopping _) = False"
| "starting (Exited _ _) = False"
| "starting _ = True"

definition main_boot :: "('w, 'db, 'cert, 'pool) boot \<Rightarrow> ('w, 'db, 'cert, 'pool) main_state" where
  "main_boot bt = (main_next bt ^^ 6) Init"

subsection \<open>The running process\<close>

text \<open>
  What can happen while the server runs: an operation of some session in its surroundings, a
  change to the bucket by others, and a tick of the eviction loop of each cache.
\<close>

datatype ('w, 'db) gw_event =
    EvOp "('w, 'db) fsenv" fs_op
  | EvBucket 'w
  | EvMetaTick rangeorder time
  | EvDataTick osenv time

definition gw_fs :: "('w, 'db, 'cert, 'pool) gateway \<Rightarrow> ('w, 'db) S3FS" where
  "gw_fs g = sv_fs (gw_server g)"

definition gw_with :: "('w, 'db) S3FS \<Rightarrow> ('w, 'db, 'cert, 'pool) gateway \<Rightarrow> ('w, 'db, 'cert, 'pool) gateway" where
  "gw_with fs g = g\<lparr>gw_server := (gw_server g)\<lparr>sv_fs := fs\<rparr>\<rparr>"

fun fs_event :: "('w, 'db) gw_event \<Rightarrow> ('w, 'db) S3FS \<Rightarrow> ('w, 'db) S3FS result" where
  "fs_event (EvOp env x) fs = Inr (fs_exec (env, x) fs)"
| "fs_event (EvBucket w) fs = Inr (fs\<lparr>fs_world := w\<rparr>)"
| "fs_event (EvMetaTick rng now) fs = Inr (cache_op (evictExpired rng now) fs)"
| "fs_event (EvDataTick os now) fs =
     (case fs_dataCache fs of
        None \<Rightarrow> Inr fs
      | Some dc \<Rightarrow> res_bind (evict os now dc) (\<lambda>dc'. Inr (fs\<lparr>fs_dataCache := Some dc'\<rparr>)))"

text \<open>Every session talks to the bucket through the client made at start-up, and to the one database.\<close>

fun event_ok :: "'db bolt \<Rightarrow> 'w client \<Rightarrow> ('w, 'db) gw_event \<Rightarrow> bool" where
  "event_ok B s3c (EvOp env x) \<longleftrightarrow>
     fe_s3 env = Client (fst s3c) (snd s3c) \<and> fe_bolt env = B \<and> range_ok (fe_rng env) \<and> op_boltable x"
| "event_ok B s3c (EvMetaTick rng now) \<longleftrightarrow> range_ok rng"
| "event_ok B s3c _ \<longleftrightarrow> True"

text \<open>
  The process. The server goroutine is not told about the shutdown, so operations still happen
  in \<open>Stopping\<close>.
\<close>

inductive main_step ::
  "('w, 'db, 'cert, 'pool) boot \<Rightarrow> ('w, 'db, 'cert, 'pool) main_state \<Rightarrow> ('w, 'db, 'cert, 'pool) main_state \<Rightarrow> bool" for bt where
  start: "starting st \<Longrightarrow> main_step bt st (main_next bt st)"
| event: "K \<in> {Serving, Stopping} \<Longrightarrow> event_ok (bt_bolt bt) (sv_s3 (gw_server g)) ev \<Longrightarrow> fs_event ev (gw_fs g) = Inr fs \<Longrightarrow>
    main_step bt (K g) (K (gw_with fs g))"
| crash: "K \<in> {Serving, Stopping} \<Longrightarrow> event_ok (bt_bolt bt) (sv_s3 (gw_server g)) ev \<Longrightarrow> fs_event ev (gw_fs g) = Inl e \<Longrightarrow>
    main_step bt (K g) (Exited 2 (Some e))"
| serve_failed: "main_step bt (Serving g) (Exited 1 (Some e))"
| serve_returned: "main_step bt (Serving g) (Stopping g)"
| signalled: "main_step bt (Serving g) (Stopping g)"
| stopped: "main_step bt (Stopping g) (Exited 0 None)"

inductive_cases main_step_running: "main_step bt (Serving g) st" "main_step bt (Stopping g) st"
inductive_cases main_step_exited: "main_step bt (Exited n e) st"

inductive reach :: "('w, 'db, 'cert, 'pool) boot \<Rightarrow> ('w, 'db, 'cert, 'pool) main_state \<Rightarrow> bool" for bt where
  init: "reach bt Init"
| step: "reach bt st \<Longrightarrow> main_step bt st st' \<Longrightarrow> reach bt st'"

lemma reach_next: "reach bt st \<Longrightarrow> reach bt (main_next bt st)"
  by (cases st; simp only: main_next.simps(7-9)) (auto intro!: reach.step [OF _ main_step.start] simp del: main_next.simps)

lemma reach_boot: "reach bt (main_boot bt)"
proof -
  have "reach bt ((main_next bt ^^ n) Init)" for n
    by (induction n) (auto intro: reach.init reach_next)
  then show ?thesis by (simp add: main_boot_def)
qed

subsection \<open>What the parts are made with\<close>

definition data_max :: "Config \<Rightarrow> int" where
  "data_max cfg = (if cache_DataMaxSize (cfg_Cache cfg) \<le> 0 then defaultDataCacheMaxSize else cache_DataMaxSize (cfg_Cache cfg))"

definition data_config :: "Config \<Rightarrow> DataCacheConfig" where
  "data_config cfg = \<lparr>dcc_Dir = cache_DataDir (cfg_Cache cfg), dcc_MaxSize = data_max cfg,
     dcc_EvictionInterval = 30 * second, dcc_DataTTL = 0\<rparr>"

text \<open>
  What start-up relies on: bbolt behaves as documented and the database is one this program has
  written, the cache directory holds only files of the cache, and minio-go lists no key with a
  zero byte, which the XML of a listing cannot carry.
\<close>

definition lists_text :: "'w minio \<Rightarrow> bool" where
  "lists_text mo \<longleftrightarrow> (\<forall>b p w. \<forall>obj. Inr obj \<in> set (mo_ListObjects mo b p w) \<longrightarrow> boltable (mb_Key obj))"

definition boot_ok :: "('w, 'db, 'cert, 'pool) boot \<Rightarrow> bool" where
  "boot_ok bt \<longleftrightarrow> bolt_ok (bt_bolt bt) \<and> (\<forall>p db. bt_bolt_Open bt p = Inr db \<longrightarrow> db_inv (bt_bolt bt) db) \<and>
     (\<forall>dir. cache_dir_ok (scanned (si_ReadDir (bt_server bt)) dir)) \<and>
     (\<forall>ep opts mo. bt_minio_New bt ep opts = Inr mo \<longrightarrow> lists_text mo)"

lemma list_loop_keys:
  assumes "list_loop os acc = Inr es" and "e \<in> set es"
  shows "e \<in> set acc \<or> (\<exists>obj. Inr obj \<in> set os \<and> le_Key e = mb_Key obj)"
  using assms by (induction os acc rule: list_loop.induct) (auto simp: list_entry_def)

lemma lists_text_client: "lists_text mo \<Longrightarrow> lists_boltable (Client mo b)"
  unfolding lists_boltable_def lists_text_def
  by (auto simp: Client_def client_ListObjects_def list_all_iff dest!: list_loop_keys)

lemma NewClient_Inr:
  assumes "NewClient new cfg w = Inr s3c"
  shows "snd s3c = cl_Bucket cfg" and "new (cl_Endpoint cfg) (client_options cfg) = Inr (fst s3c)"
    and "client_BucketExists (fst s3c) (snd s3c) w = Inr True"
  using assms by (auto simp: NewClient_def ValidateConnection_def client_BucketExists_def split: sum.splits option.splits bool.splits)

lemma make_data_cache_ok:
  assumes "cache_dir_ok (scanned (si_ReadDir io) (sc_DataCacheDir cfg))" and "sc_DataCacheDir cfg \<noteq> []"
  shows "(\<exists>e. si_MkdirAll io (sc_DataCacheDir cfg) = Some e \<and> make_data_cache io cfg = Inl (Wrap ''create data cache'' (Wrap ''create cache dir'' e))) \<or>
    (\<exists>dc. si_MkdirAll io (sc_DataCacheDir cfg) = None \<and> make_data_cache io cfg = Inr (Some dc) \<and> dc_inv dc \<and> dc_bounded dc \<and>
      dc_config dc = \<lparr>dcc_Dir = sc_DataCacheDir cfg, dcc_MaxSize = if sc_DataCacheMax cfg \<le> 0 then defaultDataCacheMaxSize else sc_DataCacheMax cfg,
        dcc_EvictionInterval = 30 * second, dcc_DataTTL = 0\<rparr>)"
proof (cases "si_MkdirAll io (sc_DataCacheDir cfg)")
  case None
  have d: "cache_dir_ok (scanned (si_ReadDir io) (if dcc_Dir (dcConfig cfg) = [] then defaultDataCacheDir else dcc_Dir (dcConfig cfg)))"
    using assms by (simp add: dcConfig_def)
  show ?thesis
    by (rule NewDataCache_ok [OF None d, of "si_os io" "si_now io" "si_disk io"])
       (use assms(2) None in \<open>simp add: make_data_cache_def dcConfig_def\<close>)
qed (use assms(2) in \<open>simp add: make_data_cache_def NewDataCache_def Let_def\<close>)

subsection \<open>The invariant of the process\<close>

abbreviation cache_configs_of :: "Config \<Rightarrow> CacheConfig option \<times> DataCacheConfig option" where
  "cache_configs_of cfg \<equiv> (Some DefaultCacheConfig, Some (data_config cfg))"

definition connected :: "('w, 'db, 'cert, 'pool) boot \<Rightarrow> Config \<Rightarrow> 'w client \<Rightarrow> bool" where
  "connected bt cfg s3c \<longleftrightarrow> Load (bt_getenv bt) = Inr cfg \<and>
     NewClient (bt_minio_New bt) (client_config (cfg_S3 cfg)) (bt_world bt) = Inr s3c"

definition gateway_inv :: "('w, 'db, 'cert, 'pool) boot \<Rightarrow> ('w, 'db, 'cert, 'pool) gateway \<Rightarrow> bool" where
  "gateway_inv bt g \<longleftrightarrow>
     connected bt (gw_cfg g) (sv_s3 (gw_server g)) \<and>
     gw_health g = health_server (gw_cfg g) (sv_s3 (gw_server g)) \<and>
     BuildTLSConfig (bt_tls bt) (cfg_TLS (gw_cfg g)) = Inr (sv_TLS (gw_server g)) \<and>
     fs_safe_on (cache_configs_of (gw_cfg g)) (bt_bolt bt) (gw_fs g)"

fun main_inv :: "('w, 'db, 'cert, 'pool) boot \<Rightarrow> ('w, 'db, 'cert, 'pool) main_state \<Rightarrow> bool" where
  "main_inv bt Init \<longleftrightarrow> True"
| "main_inv bt (Loaded cfg) \<longleftrightarrow> Load (bt_getenv bt) = Inr cfg"
| "main_inv bt (Connected cfg s3c) \<longleftrightarrow> connected bt cfg s3c"
| "main_inv bt (HealthUp cfg s3c h) \<longleftrightarrow> connected bt cfg s3c \<and> h = health_server cfg s3c"
| "main_inv bt (HandlesOpen cfg s3c h hs) \<longleftrightarrow> connected bt cfg s3c \<and> h = health_server cfg s3c \<and> hs_inv (bt_bolt bt) hs"
| "main_inv bt (TLSBuilt cfg s3c h hs tls) \<longleftrightarrow> connected bt cfg s3c \<and> h = health_server cfg s3c \<and> hs_inv (bt_bolt bt) hs \<and>
     BuildTLSConfig (bt_tls bt) (cfg_TLS cfg) = Inr tls"
| "main_inv bt (Serving g) \<longleftrightarrow> gateway_inv bt g"
| "main_inv bt (Stopping g) \<longleftrightarrow> gateway_inv bt g"
| "main_inv bt (Exited n e) \<longleftrightarrow> (n = 0 \<longleftrightarrow> e = None)"

lemma exit_with_inv [simp]: "main_inv bt (exit_with e)"
  by (simp add: exit_with_def split: err.split)

lemma fs_safe_on_env:
  fixes B :: "'db bolt" and fs :: "('w, 'db) S3FS"
  assumes "fs_safe_on c B fs"
  obtains env where "fs_safe c env fs" and "fe_bolt env = B"
proof -
  define env :: "('w, 'db) fsenv" where "env = undefined\<lparr>fe_bolt := B, fe_rng := sorted_range\<rparr>"
  have "fs_safe c env fs" "fe_bolt env = B" using assms by (simp_all add: fs_safe_on_def env_def)
  then show thesis by (rule that)
qed

lemma fs_event_safe:
  assumes "fs_safe_on c B fs" and "event_ok B s3c ev" and "lists_text (fst s3c)" and "bolt_ok B"
  shows "\<exists>fs'. fs_event ev fs = Inr fs' \<and> fs_safe_on c B fs'"
proof (cases ev)
  case (EvOp env x)
  with assms(2,3) have "step_ok B (env, x)" by (simp add: step_ok_def lists_text_client)
  with assms(1) EvOp show ?thesis by (simp add: fs_history.step_inv)
next
  case (EvBucket w)
  with assms(1) show ?thesis by (simp add: fs_safe_on_def)
next
  case (EvMetaTick rng now)
  have "fs_safe c env (cache_op (mc_step rng (McEvict now)) fs)" if "fe_bolt env = B" "range_ok (fe_rng env)" for env
  proof -
    let ?env = "env\<lparr>fe_rng := rng\<rparr>"
    have s: "fs_safe c ?env fs" using assms(1,2) that EvMetaTick by (simp add: fs_safe_on_def)
    note inv = fs_safeD(1) [OF s]
    have "fs_inv ?env (cache_op (mc_step rng (McEvict now)) fs)"
      using cache_op_inv [OF inv cache_op_step(1) [OF fs_inv_cache_wf [OF inv]], of "McEvict now"] by simp
    moreover have "fs_configs (cache_op (mc_step rng (McEvict now)) fs) = fs_configs fs"
      using cache_op_configs [OF inv, of "McEvict now"] by simp
    moreover have "fs_listings (cache_op (mc_step rng (McEvict now)) fs) \<subseteq>\<^sub>m fs_listings fs"
      using cache_op_step(3) [OF fs_inv_cache_wf [OF inv], of "McEvict now"] by (simp add: map_le_def)
    ultimately have "fs_safe c ?env (cache_op (mc_step rng (McEvict now)) fs)" by (rule fs_safe_mono [OF s])
    then show ?thesis by (rule fs_safe_env) (use that in simp_all)
  qed
  moreover have "mc_step rng (McEvict now) = evictExpired rng now" by (simp add: fun_eq_iff)
  ultimately show ?thesis using EvMetaTick by (simp add: fs_safe_on_def)
next
  case (EvDataTick os now)
  show ?thesis
  proof (cases "fs_dataCache fs")
    case None
    with assms(1) EvDataTick show ?thesis by simp
  next
    case (Some dc)
    obtain env where s: "fs_safe c env fs" by (rule fs_safe_on_env [OF assms(1)])
    then have dc: "dc_inv dc" "dc_bounded dc" "snd c = Some (dc_config dc)" using fs_safe_dco [OF s] Some by (auto simp: dco_ok_def)
    obtain dc' where e: "evict os now dc = Inr dc'" "dc_inv dc'" "dc_config dc' = dc_config dc" by (rule evict_ok [OF dc(1)])
    have "dco_ok (snd c) (Some dc')" using e dc evict_bounded [OF dc(1) _ e(1)] by (auto simp: dco_ok_def dc_bounded_def)
    with assms(1) Some e(1) EvDataTick show ?thesis by (auto simp: fs_safe_on_def intro: fs_safe_data)
  qed
qed

lemma handles_opened:
  assumes "boot_ok bt" and "NewHandleStore (bt_bolt bt) (bt_bolt_Open bt p) = Inr hs"
  shows "hs_inv (bt_bolt bt) hs"
proof (cases "bt_bolt_Open bt p")
  case (Inl e)
  with assms(2) show ?thesis by (simp add: NewHandleStore_def)
next
  case (Inr db)
  have B: "bolt_ok (bt_bolt bt)" "db_inv (bt_bolt bt) db" using assms(1) Inr by (auto simp: boot_ok_def)
  show ?thesis by (rule NewHandleStore_cases [OF B]) (use assms(2) Inr in auto)
qed

lemma NewS3FS_safe:
  assumes "bolt_ok B" and "hs_inv B hs" and "dc_inv dc" and "dc_bounded dc" and "dc_config dc = data_config cfg"
  shows "fs_safe_on (cache_configs_of cfg) B (NewS3FS w hs (Some (NewMetadataCache DefaultCacheConfig)) (Some dc))"
proof -
  have "mc_config (NewMetadataCache DefaultCacheConfig) = DefaultCacheConfig" "mc_dirListings (NewMetadataCache DefaultCacheConfig) = Map.empty"
    by (simp_all add: NewMetadataCache_def DefaultCacheConfig_def Let_def)
  with assms NewMetadataCache_inv [of DefaultCacheConfig] show ?thesis
    by (simp add: fs_safe_on_def fs_safe_def fs_inv_def NewS3FS_def fs_configs_def fs_listings_def)
qed

lemma Load_DataDir: "Load getenv = Inr cfg \<Longrightarrow> cache_DataDir (cfg_Cache cfg) \<noteq> []"
  using Load_config_ok by (auto simp: config_ok_def)

lemma NewServer_cases:
  fixes cfg :: Config and io :: "('cert, 'pool) server_io" and s3c :: "'w client" and hs :: "'db HandleStore" and tls
  defines "sc \<equiv> server_config cfg s3c hs tls"
  assumes "\<And>dir. cache_dir_ok (scanned (si_ReadDir io) dir)" and "cache_DataDir (cfg_Cache cfg) \<noteq> []"
  obtains (failed) e where "fst (NewServer io w sc) = Inl (Wrap ''create data cache'' (Wrap ''create cache dir'' e))"
      and "si_MkdirAll io (cache_DataDir (cfg_Cache cfg)) = Some e"
  | (refused) e where "fst (NewServer io w sc) = Inl (Wrap ''create NFS server'' e) \<or> fst (NewServer io w sc) = Inl (Panic ''close of closed channel'')"
      and "si_NewServerTCP io (sc_BindAddr sc @ '':'' @ Itoa (sc_Port sc)) tls = Some e"
  | (made) dc where "fst (NewServer io w sc) = Inr \<lparr>sv_addr = sc_BindAddr sc @ '':'' @ Itoa (sc_Port sc), sv_TLS = tls, sv_s3 = s3c,
        sv_fs = NewS3FS w hs (Some (NewMetadataCache DefaultCacheConfig)) (Some dc)\<rparr>"
      and "dc_inv dc" and "dc_bounded dc" and "dc_config dc = data_config cfg"
      and "si_MkdirAll io (cache_DataDir (cfg_Cache cfg)) = None"
      and "si_NewServerTCP io (sc_BindAddr sc @ '':'' @ Itoa (sc_Port sc)) tls = None"
proof -
  have sc: "sc_TLS sc = tls" "sc_S3 sc = s3c" "sc_Handles sc = hs" "sc_DataCacheDir sc = cache_DataDir (cfg_Cache cfg)"
    "sc_DataCacheMax sc = cache_DataMaxSize (cfg_Cache cfg)"
    by (simp_all add: sc_def server_config_def)
  note c = make_data_cache_ok [of io sc, OF assms(2)]
  show thesis
  proof (cases "si_MkdirAll io (cache_DataDir (cfg_Cache cfg))")
    case (Some e)
    with c assms(3) show thesis by (intro failed [of e]) (auto simp: sc NewServer_def Let_def)
  next
    case None
    with c assms(3) obtain dc where m: "make_data_cache io sc = Inr (Some dc)" and dc: "dc_inv dc" "dc_bounded dc" "dc_config dc = data_config cfg"
      by (auto simp: sc data_config_def data_max_def)
    show thesis
    proof (cases "si_NewServerTCP io (sc_BindAddr sc @ '':'' @ Itoa (sc_Port sc)) tls")
      case (Some e)
      with m show thesis by (intro refused [of e]) (auto simp: sc NewServer_def Let_def dc_Stop_def)
    next
      case listening: None
      with m dc None show thesis by (intro made [of dc]) (simp_all add: sc NewServer_def Let_def)
    qed
  qed
qed

lemma main_next_inv:
  assumes "boot_ok bt" and "main_inv bt st"
  shows "main_inv bt (main_next bt st)"
proof (cases st)
  case (TLSBuilt cfg s3c h hs tls)
  have io: "\<And>dir. cache_dir_ok (scanned (si_ReadDir (bt_server bt)) dir)" and B: "bolt_ok (bt_bolt bt)"
    using assms(1) by (simp_all add: boot_ok_def)
  have d: "cache_DataDir (cfg_Cache cfg) \<noteq> []" using assms(2) TLSBuilt by (auto simp: connected_def dest: Load_DataDir)
  obtain r dco where n: "NewServer (bt_server bt) (bt_world bt) (server_config cfg s3c hs tls) = (r, dco)" by fastforce
  show ?thesis
    using io d
  proof (cases rule: NewServer_cases [where s3c = s3c and hs = hs and tls = tls and w = "bt_world bt"])
    case (made dc)
    with n TLSBuilt assms(2) B show ?thesis by (auto simp: gateway_inv_def gw_fs_def intro: NewS3FS_safe)
  qed (use n TLSBuilt in auto)
qed (use assms in \<open>auto simp: connected_def Let_def split: sum.splits option.splits dest: handles_opened\<close>)

lemma gateway_event:
  assumes "boot_ok bt" and "gateway_inv bt g" and "event_ok (bt_bolt bt) (sv_s3 (gw_server g)) ev"
  shows "\<exists>fs. fs_event ev (gw_fs g) = Inr fs \<and> gateway_inv bt (gw_with fs g)"
proof -
  have "lists_text (fst (sv_s3 (gw_server g)))" "bolt_ok (bt_bolt bt)"
    using assms(1,2) by (auto simp: gateway_inv_def connected_def boot_ok_def dest!: NewClient_Inr(2))
  moreover have "fs_safe_on (cache_configs_of (gw_cfg g)) (bt_bolt bt) (gw_fs g)" using assms(2) by (simp add: gateway_inv_def)
  ultimately obtain fs where "fs_event ev (gw_fs g) = Inr fs" "fs_safe_on (cache_configs_of (gw_cfg g)) (bt_bolt bt) fs"
    using fs_event_safe [OF _ assms(3)] by blast
  with assms(2) show ?thesis by (auto simp: gateway_inv_def gw_with_def gw_fs_def)
qed

lemma main_step_inv:
  assumes "boot_ok bt" and "main_step bt st st'" and "main_inv bt st"
  shows "main_inv bt st'"
  using assms(2,3)
proof cases
  case start
  then show ?thesis using main_next_inv [OF assms(1,3)] by simp
next
  case (event K g ev fs)
  then show ?thesis using gateway_event [OF assms(1), of g ev] assms(3) by auto
qed (use assms(3) in auto)

lemma reach_inv: "reach bt st \<Longrightarrow> boot_ok bt \<Longrightarrow> main_inv bt st"
  by (induction rule: reach.induct) (auto intro: main_step_inv)

text \<open>
  Nothing follows an exit, and a process that was told to stop can only go on stopping or exit
  with status 0: no event that is still under way makes it fail.
\<close>

lemma exited_is_final: "\<not> main_step bt (Exited n e) st"
  by (auto elim: main_step_exited)

lemma stopping_exits_cleanly:
  assumes "boot_ok bt" and "reach bt (Stopping g)" and "main_step bt (Stopping g) st"
  shows "st = Exited 0 None \<or> (\<exists>g'. st = Stopping g')"
  using assms(3) gateway_event [OF assms(1)] reach_inv [OF assms(2,1)] by (fastforce elim: main_step_running(2))

subsection \<open>How start-up ends\<close>

definition server_starts :: "('cert, 'pool) server_io \<Rightarrow> Config \<Rightarrow> ('cert, 'pool) tls_Config option \<Rightarrow> bool" where
  "server_starts io cfg tls \<longleftrightarrow> si_MkdirAll io (cache_DataDir (cfg_Cache cfg)) = None \<and>
     si_NewServerTCP io (nfs_BindAddr (cfg_NFS cfg) @ '':'' @ Itoa (nfs_Port (cfg_NFS cfg))) tls = None"

text \<open>Everything start-up asks for succeeds.\<close>

definition boots ::
  "('w, 'db, 'cert, 'pool) boot \<Rightarrow> Config \<Rightarrow> 'w client \<Rightarrow> 'db HandleStore \<Rightarrow> ('cert, 'pool) tls_Config option \<Rightarrow> bool" where
  "boots bt cfg s3c handles tls \<longleftrightarrow>
     Load (bt_getenv bt) = Inr cfg \<and>
     NewClient (bt_minio_New bt) (client_config (cfg_S3 cfg)) (bt_world bt) = Inr s3c \<and>
     bt_Listen bt ('':'' @ Itoa (health_Port (cfg_Health cfg))) = None \<and>
     bt_MkdirAll bt (bt_dataDir bt) = None \<and>
     NewHandleStore (bt_bolt bt) (bt_bolt_Open bt (filepath_Join [bt_dataDir bt, ''handles.db''])) = Inr handles \<and>
     BuildTLSConfig (bt_tls bt) (cfg_TLS cfg) = Inr tls \<and>
     server_starts (bt_server bt) cfg tls"

definition ended :: "('w, 'db, 'cert, 'pool) main_state \<Rightarrow> bool" where
  "ended st \<longleftrightarrow> (\<exists>n e. st = Exited n (Some e) \<and> n \<noteq> 0)"

lemma ended_exit [simp]: "ended (exit_with e)" "main_next bt (exit_with e) = exit_with e" "exit_with e \<noteq> Serving g"
  by (auto simp: ended_def exit_with_def split: err.split)

text \<open>The last step, once a TLS configuration is there.\<close>

lemma TLSBuilt_next:
  assumes "boot_ok bt" and "Load (bt_getenv bt) = Inr cfg"
  shows "server_starts (bt_server bt) cfg tls \<Longrightarrow> \<exists>g. main_next bt (TLSBuilt cfg s3c h hs tls) = Serving g"
    and "\<not> server_starts (bt_server bt) cfg tls \<Longrightarrow> ended (main_next bt (TLSBuilt cfg s3c h hs tls))"
proof -
  have io: "\<And>dir. cache_dir_ok (scanned (si_ReadDir (bt_server bt)) dir)" using assms(1) by (simp add: boot_ok_def)
  note d = Load_DataDir [OF assms(2)]
  obtain r dco where n: "NewServer (bt_server bt) (bt_world bt) (server_config cfg s3c hs tls) = (r, dco)" by fastforce
  have addr: "sc_BindAddr (server_config cfg s3c hs tls) = nfs_BindAddr (cfg_NFS cfg)"
    "sc_Port (server_config cfg s3c hs tls) = nfs_Port (cfg_NFS cfg)"
    by (simp_all add: server_config_def)
  have "if server_starts (bt_server bt) cfg tls then \<exists>g. main_next bt (TLSBuilt cfg s3c h hs tls) = Serving g
    else ended (main_next bt (TLSBuilt cfg s3c h hs tls))"
    using io d
    by (cases rule: NewServer_cases [where s3c = s3c and hs = hs and tls = tls and w = "bt_world bt"])
       (use n in \<open>auto simp: server_starts_def addr\<close>)
  then show "server_starts (bt_server bt) cfg tls \<Longrightarrow> \<exists>g. main_next bt (TLSBuilt cfg s3c h hs tls) = Serving g"
    "\<not> server_starts (bt_server bt) cfg tls \<Longrightarrow> ended (main_next bt (TLSBuilt cfg s3c h hs tls))" by simp_all
qed

lemma main_boot_unfold:
  "main_boot bt = main_next bt (main_next bt (main_next bt (main_next bt (main_next bt (main_next bt Init)))))"
  by (simp add: main_boot_def numeral_eq_Suc del: main_next.simps)

lemma main_boot_serves:
  assumes "boot_ok bt" and "boots bt cfg s3c hs tls"
  shows "\<exists>g. main_boot bt = Serving g"
  using assms TLSBuilt_next(1) [OF assms(1)]
  by (simp add: main_boot_unfold boots_def health_Start_def health_server_def NewHealthServer_def Let_def del: main_next.simps(6))

lemma main_boot_ends:
  assumes "boot_ok bt" and "\<nexists>cfg s3c hs tls. boots bt cfg s3c hs tls"
  shows "ended (main_boot bt)"
  using assms(2) TLSBuilt_next(2) [OF assms(1)]
  by (auto simp: main_boot_unfold boots_def health_Start_def health_server_def NewHealthServer_def Let_def
      simp del: main_next.simps(6) split: sum.splits option.splits)

subsection \<open>Properties\<close>


text \<open>A process over the in-memory store and database, with TLS and a metadata TTL of 90 seconds.\<close>

definition text_minio :: "memstore minio" where
  "text_minio = mem_minio\<lparr>mo_ListObjects := \<lambda>b p w.
     filter (\<lambda>r. case r of Inl _ \<Rightarrow> True | Inr obj \<Rightarrow> boltable (mb_Key obj)) (mo_ListObjects mem_minio b p w)\<rparr>"

definition ex_boot :: "(memstore, memdb, string, string) boot" where
  "ex_boot = \<lparr>bt_getenv = ex_environ, bt_dataDir = ''/d'', bt_minio_New = (\<lambda>_ _. Inr text_minio), bt_world = [(''a'', ex_obj ''hello'')],
     bt_Listen = (\<lambda>_. None), bt_MkdirAll = (\<lambda>_. None), bt_bolt = mem_bolt, bt_bolt_Open = (\<lambda>_. Inr []), bt_tls = ex_tls_io,
     bt_server = \<lparr>si_os = os_fine, si_now = 0, si_MkdirAll = (\<lambda>_. None), si_ReadDir = empty_dir, si_disk = Map.empty,
       si_NewServerTCP = (\<lambda>_ _. None)\<rparr>\<rparr>"

lemma ex_boot_ok: "boot_ok ex_boot"
proof -
  have "db_inv mem_bolt []" by (simp add: db_inv_def db_counter_ok_def counter_ok_def mem_bolt_def)
  then show ?thesis by (simp add: boot_ok_def ex_boot_def mem_bolt_ok lists_text_def text_minio_def)
qed

lemma ex_boots: "\<exists>cfg s3c hs tls. boots ex_boot cfg s3c hs tls"
proof -
  obtain cfg where c: "Load ex_environ = Inr cfg" using Load_ok [of ex_environ] ex_environ_ok by (auto simp: is_ok_iff)
  have "is_ok (BuildTLSConfig ex_tls_io (cfg_TLS cfg))" by (simp add: BuildTLSConfig_def ex_tls_io_def Let_def)
  then obtain tls where t: "BuildTLSConfig ex_tls_io (cfg_TLS cfg) = Inr tls" by (auto simp: is_ok_iff)
  have "NewClient (\<lambda>_ _. Inr text_minio) (client_config (cfg_S3 cfg)) w = Inr (text_minio, s3_Bucket (cfg_S3 cfg))" for w
    by (simp add: NewClient_def ValidateConnection_def text_minio_def mem_minio_def client_config_def)
  with c t mem_open show ?thesis by (auto simp: boots_def server_starts_def ex_boot_def)
qed

lemma ex_serving: "\<exists>g. main_boot ex_boot = Serving g"
  using main_boot_serves [OF ex_boot_ok] ex_boots by blast


text \<open>
  C19. Start-up always ends, after at most six steps: the server runs if the configuration loads, the
  bucket can be reached, the health port is free, the data directory and the handle store can be
  opened, the TLS files load, the cache directory can be created and the NFS port is free; and in
  every other case the process exits with a non-zero status and an error.
\<close>
theorem startup_decides:
  assumes "boot_ok bt"
  shows "reach bt (main_boot bt) \<and>
    (if \<exists>cfg s3c handles tls. boots bt cfg s3c handles tls then \<exists>g. main_boot bt = Serving g
     else \<exists>status e. main_boot bt = Exited status (Some e) \<and> status \<noteq> 0)"
  using main_boot_serves [OF assms] main_boot_ends [OF assms] reach_boot [of bt] by (auto simp: ended_def)

theorem startup_decides_witness: "\<exists>g. main_boot ex_boot = Serving g"
  using startup_decides [OF ex_boot_ok] ex_boots by simp

text \<open>
  C31. The probes of a process that was started tell the state of its bucket: \<open>/health\<close> answers 200,
  and \<open>/ready\<close> answers 200 exactly if the configured bucket exists at that moment, and 503 if it
  does not or if the question fails.
\<close>
theorem probes_tell_the_bucket:
  assumes "boot_ok bt" and "reach bt (Serving g)"
  shows "rs_Code (health_mux metrics (gw_health g) ''/health'' w) = 200 \<and>
    rs_Code (health_mux metrics (gw_health g) ''/ready'' w) =
      (if mo_BucketExists (fst (sv_s3 (gw_server g))) (s3_Bucket (cfg_S3 (gw_cfg g))) w = Inr True then 200 else 503)"
proof -
  have g: "gateway_inv bt g" using reach_inv [OF assms(2,1)] by simp
  then have "snd (sv_s3 (gw_server g)) = s3_Bucket (cfg_S3 (gw_cfg g))"
    by (auto simp: gateway_inv_def connected_def client_config_def dest!: NewClient_Inr(1))
  with g show ?thesis
    by (auto simp: health_mux_simps gateway_inv_def health_server_def NewHealthServer_def s3_checker_def client_BucketExists_def
        split: sum.split prod.split)
qed

theorem probes_tell_the_bucket_witness:
  "\<exists>g. main_boot ex_boot = Serving g \<and> rs_Code (health_mux http_NotFound (gw_health g) ''/health'' []) = 200"
proof -
  obtain g where g: "main_boot ex_boot = Serving g" using ex_serving by blast
  then have "reach ex_boot (Serving g)" using reach_boot [of ex_boot] by simp
  with g probes_tell_the_bucket [OF ex_boot_ok this, of http_NotFound "[]"] show ?thesis by blast
qed

text \<open>A start-up that succeeds, step by step.\<close>

lemma main_boot_Serving:
  "main_boot bt = Serving g \<longleftrightarrow>
     (\<exists>handles dco. connected bt (gw_cfg g) (sv_s3 (gw_server g)) \<and> gw_health g = health_server (gw_cfg g) (sv_s3 (gw_server g)) \<and>
        health_Start (bt_Listen bt) (gw_health g) = None \<and> bt_MkdirAll bt (bt_dataDir bt) = None \<and>
        NewHandleStore (bt_bolt bt) (bt_bolt_Open bt (filepath_Join [bt_dataDir bt, ''handles.db''])) = Inr handles \<and>
        BuildTLSConfig (bt_tls bt) (cfg_TLS (gw_cfg g)) = Inr (sv_TLS (gw_server g)) \<and>
        NewServer (bt_server bt) (bt_world bt) (server_config (gw_cfg g) (sv_s3 (gw_server g)) handles (sv_TLS (gw_server g))) = (Inr (gw_server g), dco))"
  (is "?l = ?r")
proof
  have srv: "sv_s3 srv = sc_S3 sc \<and> sv_TLS srv = sc_TLS sc" if "NewServer io w sc = (Inr srv, dco)" for io w sc srv dco
    using that by (auto simp: NewServer_def Let_def split: sum.splits option.splits)
  assume ?l
  then obtain cfg s3c handles tls srv dco where "Load (bt_getenv bt) = Inr cfg"
    "NewClient (bt_minio_New bt) (client_config (cfg_S3 cfg)) (bt_world bt) = Inr s3c"
    "health_Start (bt_Listen bt) (health_server cfg s3c) = None" "bt_MkdirAll bt (bt_dataDir bt) = None"
    "NewHandleStore (bt_bolt bt) (bt_bolt_Open bt (filepath_Join [bt_dataDir bt, ''handles.db''])) = Inr handles"
    "BuildTLSConfig (bt_tls bt) (cfg_TLS cfg) = Inr tls"
    and n: "NewServer (bt_server bt) (bt_world bt) (server_config cfg s3c handles tls) = (Inr srv, dco)"
    and "g = \<lparr>gw_cfg = cfg, gw_health = health_server cfg s3c, gw_server = srv\<rparr>"
    by (auto simp: main_boot_unfold Let_def split: sum.splits option.splits prod.splits)
  moreover have "sv_s3 srv = s3c" "sv_TLS srv = tls" using srv [OF n] by (simp_all add: server_config_def)
  ultimately show ?r by (auto simp: connected_def)
next
  assume ?r
  then show ?l by (auto simp: main_boot_unfold connected_def Let_def)
qed

lemma ttl_unused:
  "server_config (cfg\<lparr>cfg_Cache := (cfg_Cache cfg)\<lparr>cache_MetadataTTL := ttl\<rparr>, cfg_Log := lg\<rparr>) s3c hs tls = server_config cfg s3c hs tls"
  "health_server (cfg\<lparr>cfg_Cache := c, cfg_Log := lg\<rparr>) s3c = health_server cfg s3c"
  by (simp_all add: server_config_def health_server_def)

lemma Load_ttl:
  assumes "Load getenv = Inr cfg" and "v = [] \<or> is_ok (ParseDuration v)"
  shows "\<exists>ttl lvl. Load (getenv(''CACHE_METADATA_TTL'' := v, ''LOG_LEVEL'' := l)) =
     Inr (cfg\<lparr>cfg_Cache := (cfg_Cache cfg)\<lparr>cache_MetadataTTL := ttl\<rparr>, cfg_Log := \<lparr>log_Level = lvl\<rparr>\<rparr>)"
proof -
  define getenv' where "getenv' = getenv(''CACHE_METADATA_TTL'' := v, ''LOG_LEVEL'' := l)"
  have "is_ok (env_parsed getenv' ''CACHE_METADATA_TTL'' ParseDuration (60 * second))"
    using assms(2) by (auto simp: getenv'_def env_parsed_def is_ok_iff)
  then obtain ttl where "env_parsed getenv' ''CACHE_METADATA_TTL'' ParseDuration (60 * second) = Inr ttl"
    by (auto simp: is_ok_iff)
  moreover have "env_parsed getenv' n p = env_parsed getenv n p" "env_str getenv' n = env_str getenv n" "env_flag getenv' n = env_flag getenv n"
    if "n \<noteq> ''CACHE_METADATA_TTL''" "n \<noteq> ''LOG_LEVEL''" for n and p :: "string \<Rightarrow> int result"
    using that by (auto simp: getenv'_def env_parsed_def env_str_def env_flag_def)
  moreover have "env_S3 getenv' = env_S3 getenv" "env_TLS getenv' = env_TLS getenv" "getenv' ''S3_ACCESS_KEY'' = getenv ''S3_ACCESS_KEY''"
    "getenv' ''S3_SECRET_KEY'' = getenv ''S3_SECRET_KEY''"
    by (simp_all add: fun_eq_iff env_S3_def env_TLS_def env_str_def env_flag_def getenv'_def)
  moreover have "check_TLS (env_TLS getenv (cfg_TLS default_config)) = None"
    using assms(1) by (simp add: Load_Inr del: fun_upd_apply) (elim conjE, simp)
  ultimately have "Load getenv' = Inr (cfg\<lparr>cfg_Cache := (cfg_Cache cfg)\<lparr>cache_MetadataTTL := ttl\<rparr>, cfg_Log := \<lparr>log_Level = env_str getenv' ''LOG_LEVEL'' ''info''\<rparr>\<rparr>)"
    using assms(1) by (simp add: Load_Inr)
  then show ?thesis unfolding getenv'_def by blast
qed

text \<open>
  C40. \<open>CACHE_METADATA_TTL\<close> and \<open>LOG_LEVEL\<close> have no effect: whatever valid value they are given, even
  the \<open>0\<close> that is documented to disable the metadata cache, the process that starts has the same
  server with the same caches and the same health server.
\<close>
theorem metadata_ttl_ignored:
  assumes "main_boot bt = Serving g" and "v = [] \<or> is_ok (ParseDuration v)"
  shows "\<exists>g'. main_boot (bt\<lparr>bt_getenv := (bt_getenv bt)(''CACHE_METADATA_TTL'' := v, ''LOG_LEVEL'' := l)\<rparr>) = Serving g' \<and>
    gw_server g' = gw_server g \<and> gw_health g' = gw_health g"
proof -
  obtain ttl lvl where "Load ((bt_getenv bt)(''CACHE_METADATA_TTL'' := v, ''LOG_LEVEL'' := l)) =
      Inr ((gw_cfg g)\<lparr>cfg_Cache := (cfg_Cache (gw_cfg g))\<lparr>cache_MetadataTTL := ttl\<rparr>, cfg_Log := \<lparr>log_Level = lvl\<rparr>\<rparr>)" (is "_ = Inr ?cfg")
    using Load_ttl [OF _ assms(2)] assms(1) by (fastforce simp: main_boot_Serving connected_def)
  then show ?thesis
    using assms(1) by (intro exI [of _ "g\<lparr>gw_cfg := ?cfg\<rparr>"]) (auto simp: main_boot_Serving connected_def ttl_unused)
qed

theorem metadata_ttl_ignored_witness:
  "\<exists>g g'. main_boot ex_boot = Serving g \<and>
     main_boot (ex_boot\<lparr>bt_getenv := ex_environ(''CACHE_METADATA_TTL'' := ''0'', ''LOG_LEVEL'' := ''debug'')\<rparr>) = Serving g' \<and> gw_fs g' = gw_fs g"
proof -
  have "is_ok (ParseDuration ''0'')" by (simp add: ParseDuration_def)
  moreover obtain g where g: "main_boot ex_boot = Serving g" using ex_serving by blast
  ultimately show ?thesis using metadata_ttl_ignored [OF g, of "''0''" "''debug''"] by (auto simp: ex_boot_def gw_fs_def)
qed

end
