(* ===== verification/FsReads.thy ===== *)
theory FsReads
  imports FsCoherence
begin

text \<open>
  What reading returns: a listing that comes from the bucket shows exactly the entries the bucket
  has below the directory, and a file opened for reading answers seeks and reads in any order
  like the object's content.
\<close>

subsection \<open>Listings\<close>

text \<open>
  The entries of a directory: the objects directly below its prefix, and one subdirectory for
  every name that continues with a slash. The marker of the directory itself is not an entry.
\<close>

definition dir_entries :: "string \<Rightarrow> objects \<Rightarrow> (string \<times> bool) set" where
  "dir_entries p m =
     {(x, False) | x. x \<noteq> [] \<and> CHR ''/'' \<notin> set x \<and> m (p @ x) \<noteq> None} \<union>
     {(x, True) | x y. x \<noteq> [] \<and> CHR ''/'' \<notin> set x \<and> m (p @ x @ ''/'' @ y) \<noteq> None}"

definition dir_prefix :: "s3File \<Rightarrow> string" where
  "dir_prefix f = (if sf_s3Key f \<noteq> [] \<and> \<not> HasSuffix (sf_s3Key f) ''/'' then sf_s3Key f @ ''/'' else sf_s3Key f)"

text \<open>The entry a listed key becomes.\<close>

definition entry_of :: "string \<Rightarrow> string \<Rightarrow> string \<times> bool" where
  "entry_of p k = (TrimSuffix (TrimPrefix k p) ''/'', HasSuffix k ''/'')"

lemma takeWhile_slash: "CHR ''/'' \<notin> set x \<Longrightarrow> takeWhile (\<lambda>c. c \<noteq> CHR ''/'') (x @ CHR ''/'' # y) = x"
  by (induction x) auto

lemma listed_keys_split:
  "listed_keys p m = {p @ x | x. CHR ''/'' \<notin> set x \<and> m (p @ x) \<noteq> None} \<union>
     {p @ x @ ''/'' | x y. CHR ''/'' \<notin> set x \<and> m (p @ x @ ''/'' @ y) \<noteq> None}"
proof -
  have 1: "{k. m k \<noteq> None \<and> directly_below p k} = {p @ x | x. CHR ''/'' \<notin> set x \<and> m (p @ x) \<noteq> None}"
    by (auto simp: directly_below_def HasPrefix_def prefix_def)
  have "common_prefix p k \<in> {p @ x @ ''/'' | x y. CHR ''/'' \<notin> set x \<and> m (p @ x @ ''/'' @ y) \<noteq> None}"
    if "m k \<noteq> None" "HasPrefix k p" "CHR ''/'' \<in> set (drop (length p) k)" for k
  proof -
    from that(2) obtain s where s: "k = p @ s" by (auto simp: HasPrefix_def prefix_def)
    with that(3) have "CHR ''/'' \<in> set s" by simp
    then obtain x y where "s = x @ CHR ''/'' # y" "CHR ''/'' \<notin> set x" using split_list_first by metis
    with s that(1) show ?thesis by (auto simp: common_prefix_def takeWhile_slash)
  qed
  moreover have "p @ x @ ''/'' \<in> common_prefix p ` {k. m k \<noteq> None \<and> HasPrefix k p \<and> CHR ''/'' \<in> set (drop (length p) k)}"
    if "CHR ''/'' \<notin> set x" "m (p @ x @ ''/'' @ y) \<noteq> None" for x y
  proof -
    have "common_prefix p (p @ x @ ''/'' @ y) = p @ x @ ''/''" using that(1) by (simp add: common_prefix_def takeWhile_slash)
    with that show ?thesis by (intro image_eqI [of _ _ "p @ x @ ''/'' @ y"]) (simp_all add: HasPrefix_def)
  qed
  ultimately show ?thesis unfolding listed_keys_def 1 by blast
qed

lemma entry_of_simps:
  assumes "CHR ''/'' \<notin> set x"
  shows "x \<noteq> [] \<Longrightarrow> entry_of p (p @ x) = (x, False)" and "entry_of p (p @ x @ ''/'') = (x, True)"
proof -
  have "x \<noteq> [] \<Longrightarrow> last x \<noteq> CHR ''/''" using assms by (metis last_in_set)
  then show "x \<noteq> [] \<Longrightarrow> entry_of p (p @ x) = (x, False)" "entry_of p (p @ x @ ''/'') = (x, True)"
    by (auto simp: entry_of_def HasSuffix_byte TrimSuffix_def)
qed

lemma entry_key:
  assumes "k \<in> listed_keys p m" and "fst (entry_of p k) \<noteq> []"
  shows "k = p @ fst (entry_of p k) @ (if snd (entry_of p k) then ''/'' else [])"
proof -
  from assms(1) consider x where "k = p @ x" "CHR ''/'' \<notin> set x" | x where "k = p @ x @ ''/''" "CHR ''/'' \<notin> set x"
    unfolding listed_keys_split by blast
  then show ?thesis
  proof cases
    case 1
    then have "x \<noteq> []" using assms(2) by (auto simp: entry_of_def)
    with 1 show ?thesis by (simp add: entry_of_simps)
  qed (simp add: entry_of_simps)
qed

lemma entry_of_inj: "inj_on (entry_of p) {k \<in> listed_keys p m. fst (entry_of p k) \<noteq> []}"
proof (rule inj_onI)
  fix j k assume j: "j \<in> {k \<in> listed_keys p m. fst (entry_of p k) \<noteq> []}" and k: "k \<in> {k \<in> listed_keys p m. fst (entry_of p k) \<noteq> []}"
    and e: "entry_of p j = entry_of p k"
  have "j = p @ fst (entry_of p j) @ (if snd (entry_of p j) then ''/'' else [])" by (rule entry_key [where m = m]) (use j in simp_all)
  also have "\<dots> = k" unfolding e by (rule entry_key [symmetric, where m = m]) (use k in simp_all)
  finally show "j = k" .
qed

lemma entries_listed: "entry_of p ` {k \<in> listed_keys p m. fst (entry_of p k) \<noteq> []} = dir_entries p m"
proof
  show "entry_of p ` {k \<in> listed_keys p m. fst (entry_of p k) \<noteq> []} \<subseteq> dir_entries p m"
  proof (rule image_subsetI)
    fix k assume "k \<in> {k \<in> listed_keys p m. fst (entry_of p k) \<noteq> []}"
    then have k: "k \<in> listed_keys p m" and n: "fst (entry_of p k) \<noteq> []" by simp_all
    from k consider x where "k = p @ x" "CHR ''/'' \<notin> set x" "m (p @ x) \<noteq> None"
      | x y where "k = p @ x @ ''/''" "CHR ''/'' \<notin> set x" "m (p @ x @ ''/'' @ y) \<noteq> None"
      unfolding listed_keys_split by blast
    then show "entry_of p k \<in> dir_entries p m"
    proof cases
      case 1
      then have "x \<noteq> []" using n by (auto simp: entry_of_def)
      with 1 show ?thesis by (simp add: entry_of_simps dir_entries_def)
    next
      case 2
      then have "x \<noteq> []" using n by (auto simp: entry_of_simps)
      with 2 show ?thesis by (auto simp: entry_of_simps dir_entries_def)
    qed
  qed
  show "dir_entries p m \<subseteq> entry_of p ` {k \<in> listed_keys p m. fst (entry_of p k) \<noteq> []}"
  proof (rule subrelI)
    fix x b assume "(x, b) \<in> dir_entries p m"
    then have x: "x \<noteq> []" "CHR ''/'' \<notin> set x" and m: "if b then \<exists>y. m (p @ x @ ''/'' @ y) \<noteq> None else m (p @ x) \<noteq> None"
      by (auto simp: dir_entries_def)
    let ?k = "if b then p @ x @ ''/'' else p @ x"
    have "?k \<in> listed_keys p m" "entry_of p ?k = (x, b)" using x m by (auto simp: listed_keys_split entry_of_simps)
    with x show "(x, b) \<in> entry_of p ` {k \<in> listed_keys p m. fst (entry_of p k) \<noteq> []}" by (intro image_eqI [of _ _ ?k]) simp_all
  qed
qed

text \<open>What the loop over a listing collects.\<close>

definition shown :: "fileInfo \<Rightarrow> (string \<times> bool) \<times> int \<times> time" where
  "shown i = ((fi_name i, fi_isDir i), fi_size i, fi_modTime i)"

lemma readdir_s3_shows:
  assumes "readdir_s3 env p es infos0 ces0 fs = (Inr (infos, ces), fs')" and "\<forall>e\<in>set es. le_IsDir e \<longrightarrow> HasSuffix (le_Key e) ''/''"
  shows "map shown infos = map shown infos0 @
    map (\<lambda>e. (entry_of p (le_Key e), le_Size e, le_LastModified e)) (filter (\<lambda>e. fst (entry_of p (le_Key e)) \<noteq> []) es)"
  using assms
proof (induction es arbitrary: infos0 ces0 fs)
  case (Cons e es)
  have d: "(le_IsDir e \<or> HasSuffix (le_Key e) ''/'') = HasSuffix (le_Key e) ''/''" using Cons.prems(2) by auto
  show ?case
  proof (cases "fst (entry_of p (le_Key e)) = []")
    case True
    with Cons show ?thesis by (simp add: entry_of_def)
  next
    case False
    obtain r f1 where i: "fs_inode env (le_Key e) fs = (r, f1)" by fastforce
    with Cons.prems(1) False obtain inode where r: "r = Inr inode" by (cases r) (auto simp: entry_of_def Let_def)
    from Cons.prems(1) False i r obtain fi ces1 fs1 where "readdir_s3 env p es (infos0 @ [fi]) ces1 fs1 = (Inr (infos, ces), fs')"
      and "shown fi = (entry_of p (le_Key e), le_Size e, le_LastModified e)"
      by (simp add: entry_of_def Let_def d shown_def newFileInfoFromS3_def)
    with Cons.IH [of "infos0 @ [fi]" ces1 fs1] Cons.prems(2) False show ?thesis by simp
  qed
qed simp

text \<open>
  C11. A listing shows the bucket: when \<open>Readdir\<close> is not answered from the cache and succeeds without a
  limit, it returns each object directly below the directory and each of its subdirectories
  exactly once, nothing else, and every file with the size and the time of its object.
\<close>
theorem readdir_lists_bucket:
  assumes "s3_ok (fe_s3 env) objs" and "sf_isDir f" and "cacheGetDirListing env (dir_prefix f) fs = None"
    and "count \<le> 0" and "sf_Readdir env count f fs = (Inr infos, fs')"
  shows "(\<lambda>i. (fi_name i, fi_isDir i)) ` set infos = dir_entries (dir_prefix f) (objs (fs_world fs)) \<and>
    distinct (map (\<lambda>i. (fi_name i, fi_isDir i)) infos) \<and>
    (\<forall>i\<in>set infos. \<not> fi_isDir i \<longrightarrow> (\<exists>obj. objs (fs_world fs) (dir_prefix f @ fi_name i) = Some obj \<and>
       fi_size i = int (length (so_data obj)) \<and> fi_modTime i = so_mtime obj))"
proof -
  let ?p = "dir_prefix f" and ?m = "objs (fs_world fs)"
  let ?named = "\<lambda>e. fst (entry_of ?p (le_Key e)) \<noteq> []"
  obtain es ces fs1 where l: "ListObjects (fe_s3 env) ?p (fs_world fs) = Inr es" and r: "readdir_s3 env ?p es [] [] fs = (Inr (infos, ces), fs1)"
    using assms(2-5) by (auto simp: sf_Readdir_def dir_prefix_def [symmetric] Let_def limit_count_def split: sum.splits prod.splits)
  have ok: "listing_ok ?p ?m es" by (rule s3_okD(4) [OF assms(1) l])
  have s: "map shown infos = map (\<lambda>e. (entry_of ?p (le_Key e), le_Size e, le_LastModified e)) (filter ?named es)"
    using readdir_s3_shows [OF r] ok by (simp add: listing_ok_def)
  have names: "map (\<lambda>i. (fi_name i, fi_isDir i)) infos = map (entry_of ?p \<circ> le_Key) (filter ?named es)"
    using arg_cong [OF s, of "map fst"] by (simp add: shown_def comp_def)
  have "(\<lambda>i. (fi_name i, fi_isDir i)) ` set infos = entry_of ?p ` {k \<in> le_Key ` set es. fst (entry_of ?p k) \<noteq> []}"
    using arg_cong [OF names, of set] by auto
  then have 1: "(\<lambda>i. (fi_name i, fi_isDir i)) ` set infos = dir_entries ?p ?m"
    using ok entries_listed [of ?p ?m] by (simp add: listing_ok_def)
  have "inj_on (entry_of ?p) (le_Key ` set (filter ?named es))"
    using ok by (intro inj_on_subset [OF entry_of_inj [of ?p ?m]]) (auto simp: listing_ok_def)
  then have 2: "distinct (map (\<lambda>i. (fi_name i, fi_isDir i)) infos)"
    using ok distinct_map_filter [of le_Key es ?named]
    unfolding names map_map [symmetric] distinct_map [of "entry_of ?p"] by (simp add: listing_ok_def)
  have "\<exists>obj. ?m (?p @ fi_name i) = Some obj \<and> fi_size i = int (length (so_data obj)) \<and> fi_modTime i = so_mtime obj"
    if i: "i \<in> set infos" "\<not> fi_isDir i" for i
  proof -
    have "shown i \<in> set (map shown infos)" using i(1) by simp
    then obtain e where e: "e \<in> set es" "?named e" "shown i = (entry_of ?p (le_Key e), le_Size e, le_LastModified e)" unfolding s by auto
    then have n: "entry_of ?p (le_Key e) = (fi_name i, False)" using i(2) by (simp add: shown_def)
    have "le_Key e \<in> listed_keys ?p ?m" using ok e(1) unfolding listing_ok_def by blast
    then have k: "le_Key e = ?p @ fi_name i" using entry_key [OF _ e(2), unfolded n] by simp
    have "le_IsDir e \<longrightarrow> HasSuffix (le_Key e) ''/''" "if directly_below ?p (le_Key e) \<and> ?m (le_Key e) \<noteq> None
        then \<exists>obj. ?m (le_Key e) = Some obj \<and> le_Size e = int (length (so_data obj)) \<and> le_LastModified e = so_mtime obj
        else le_IsDir e"
      using ok e(1) by (simp_all add: listing_ok_def)
    moreover have "\<not> HasSuffix (le_Key e) ''/''" using n by (simp add: entry_of_def)
    ultimately have "\<exists>obj. ?m (le_Key e) = Some obj \<and> le_Size e = int (length (so_data obj)) \<and> le_LastModified e = so_mtime obj"
      by (simp split: if_splits)
    with e(3) k show ?thesis by (auto simp: shown_def)
  qed
  with 1 2 show ?thesis by blast
qed

theorem readdir_lists_bucket_witness:
  "\<exists>infos fs'. sf_Readdir ex_fsenv 0 (new_s3File ''/'' [] ex_info True []) ex_fs_p = (Inr infos, fs') \<and>
     (\<lambda>i. (fi_name i, fi_isDir i)) ` set infos = {(''a'', False)}"
proof -
  let ?f = "new_s3File ''/'' [] ex_info True []"
  have f: "sf_isDir ?f" "dir_prefix ?f = []" "sf_s3Key ?f = []" by (simp_all add: new_s3File_def dir_prefix_def)
  have "fs_inode ex_fsenv ''a'' ex_fs_p = (Inr 2, ex_fs_p)" by (simp add: fs_inode_def GetOrCreateInode_def mem_s1_keys)
  moreover have "memstore_keys [] (fs_world ex_fs_p) = [''a'']" by (simp add: memstore_keys_def HasPrefix_def)
  moreover have c: "cacheGetDirListing ex_fsenv [] ex_fs_p = None" by (simp add: cacheGetDirListing_def)
  ultimately obtain infos fs' where r: "sf_Readdir ex_fsenv 0 ?f ex_fs_p = (Inr infos, fs')"
    by (simp add: sf_Readdir_def f Let_def limit_count_def list_entry_def TrimPrefix_def HasPrefix_def TrimSuffix_def HasSuffix_byte)
  have "dir_entries [] (map_of (fs_world ex_fs_p)) = {(''a'', False)}" by (auto simp: dir_entries_def append_eq_Cons_conv split: if_splits)
  with readdir_lists_bucket [of ex_fsenv map_of ?f ex_fs_p 0 infos fs'] r f c show ?thesis by auto
qed

subsection \<open>Reading at any place\<close>

text \<open>
  A file that can only be read: its content and a position. A read that reaches the end reports
  it together with the bytes, as \<open>io.ReaderAt\<close> may.
\<close>

fun ro_step :: "bytes \<Rightarrow> string \<Rightarrow> file_op \<Rightarrow> int \<Rightarrow> file_out \<times> int" where
  "ro_step d path (FRead n) pos = (let (x, e) = expected_read d n pos in (ORead x e, pos + int (length x)))"
| "ro_step d path (FWrite x) pos = (OWrite 0 (Some (Errorf ''write not supported yet'')), pos)"
| "ro_step d path (FSeek off wh) pos =
     (let pos' = (if wh = SeekStart then off else if wh = SeekCurrent then pos + off else int (length d) + off)
      in if wh \<notin> {SeekStart, SeekCurrent, SeekEnd} then (OSeek (Inl (Errorf (''invalid whence: '' @ Itoa wh))), pos)
         else if pos' < 0 then (OSeek (Inl (Errorf ''negative offset'')), pos)
         else (OSeek (Inr pos'), pos'))"
| "ro_step d path FTruncate pos = (OTruncate (Some (Errorf (''truncate '' @ path @ '': read-only file descriptor''))), pos)"

fun sf_step ::
  "nat \<Rightarrow> ('w, 'db) fsenv \<Rightarrow> (int \<Rightarrow> put_io) \<times> (bytes \<Rightarrow> reader) \<Rightarrow> file_op \<Rightarrow> s3File \<times> ('w, 'db) S3FS \<Rightarrow>
     (file_out \<times> s3File \<times> ('w, 'db) S3FS) option" where
  "sf_step fuel env rio (FRead n) st = (case sf_Read fuel env rio n st of None \<Rightarrow> None | Some ((x, e), st') \<Rightarrow> Some (ORead x e, st'))"
| "sf_step fuel env rio (FWrite x) (f, fs) =
     (case sf_Write x f of Inl e \<Rightarrow> Some (OWrite 0 (Some e), f, fs) | Inr n \<Rightarrow> Some (OWrite (nat n) None, f, fs))"
| "sf_step fuel env rio (FSeek off wh) (f, fs) = (let (r, f') = sf_Seek off wh f in Some (OSeek r, f', fs))"
| "sf_step fuel env rio FTruncate st = (let (e, st') = sf_Truncate env st in Some (OTruncate e, st'))"

fun sf_run ::
  "nat \<Rightarrow> ('w, 'db) fsenv \<Rightarrow> (int \<Rightarrow> put_io) \<times> (bytes \<Rightarrow> reader) \<Rightarrow> file_op list \<Rightarrow> s3File \<times> ('w, 'db) S3FS \<Rightarrow>
     (file_out list \<times> s3File \<times> ('w, 'db) S3FS) option" where
  "sf_run fuel env rio [] st = Some ([], st)"
| "sf_run fuel env rio (x # xs) st =
     (case sf_step fuel env rio x st of
        None \<Rightarrow> None
      | Some (y, st1) \<Rightarrow> map_option (\<lambda>(ys, st2). (y # ys, st2)) (sf_run fuel env rio xs st1))"

text \<open>
  A file whose reads do not fill the data cache: it is larger than the limit for that, or has no
  data cache or entity tag.
\<close>

definition reads_freely :: "('w, 'db) fsenv \<Rightarrow> (int \<Rightarrow> put_io) \<times> (bytes \<Rightarrow> reader) \<Rightarrow> bytes \<Rightarrow> s3File \<times> ('w, 'db) S3FS \<Rightarrow> bool" where
  "reads_freely env rio d = (\<lambda>(g, fs).
     \<not> sf_closed g \<and> \<not> sf_isDir g \<and> \<not> sf_writable g \<and> fi_size (sf_info g) = int (length d) \<and> 0 \<le> sf_offset g \<and>
     env_ok (file_renv env rio fs) (sf_s3Key g) d \<and> coherent (sf_s3Key g) (sf_etag g) d (fs_dataCache fs) \<and>
     (fs_dataCache fs = None \<or> sf_etag g = [] \<or> smallFile < int (length d)) \<and>
     (\<forall>r. sf_chunked g = Some r \<longrightarrow> buf_ok d r \<and> cr_s3Key r = sf_s3Key g \<and> cr_etag r = sf_etag g))"

fun fuel_for :: "nat \<Rightarrow> file_op \<Rightarrow> bool" where
  "fuel_for fuel (FRead n) \<longleftrightarrow> 2 * n + 1 \<le> fuel"
| "fuel_for fuel _ \<longleftrightarrow> True"

lemma SeekTo_ok:
  assumes "buf_ok d r" and "0 \<le> off"
  obtains r' where "SeekTo off r = (None, r')" and "buf_ok d r'" and "cr_s3Key r' = cr_s3Key r" and "cr_etag r' = cr_etag r"
  using assms by (auto simp: SeekTo_def Let_def buf_ok_def)

lemma sf_Seek_freely:
  assumes "reads_freely env rio d (g, fs)" and "sf_Seek off wh g = (r, g')"
  shows "ro_step d (sf_path g) (FSeek off wh) (sf_offset g) = (OSeek r, sf_offset g') \<and> reads_freely env rio d (g', fs) \<and> sf_path g' = sf_path g"
proof -
  define new where "new = (if wh = SeekStart then off else if wh = SeekCurrent then sf_offset g + off else int (length d) + off)"
  have sz: "fi_size (sf_info g) = int (length d)" using assms(1) by (simp add: reads_freely_def)
  show ?thesis
  proof (cases "wh \<notin> {SeekStart, SeekCurrent, SeekEnd} \<or> new < 0")
    case True
    with assms sz show ?thesis by (auto simp: sf_Seek_def Let_def new_def split: if_splits)
  next
    case False
    then have s: "r = Inr new \<and> (\<exists>c. g' = g\<lparr>sf_chunked := c, sf_offset := new\<rparr> \<and>
        (\<forall>r. c = Some r \<longrightarrow> buf_ok d r \<and> cr_s3Key r = sf_s3Key g \<and> cr_etag r = sf_etag g))"
    proof (cases "sf_chunked g")
      case None
      with False assms(2) sz show ?thesis
        by (intro conjI exI [of _ None]) (auto simp: sf_Seek_def Let_def new_def split: if_splits)
    next
      case (Some cr)
      then have cr: "buf_ok d cr" "cr_s3Key cr = sf_s3Key g" "cr_etag cr = sf_etag g" using assms(1) by (simp_all add: reads_freely_def)
      obtain cr' where "SeekTo new cr = (None, cr')" "buf_ok d cr'" "cr_s3Key cr' = cr_s3Key cr" "cr_etag cr' = cr_etag cr"
        using SeekTo_ok [OF cr(1), of new] False by auto
      with Some cr False assms(2) sz show ?thesis
        by (intro conjI exI [of _ "sf_chunked g'"]) (auto simp: sf_Seek_def Let_def new_def split: if_splits)
    qed
    with False assms(1) show ?thesis by (auto simp: reads_freely_def new_def [symmetric] Let_def)
  qed
qed

lemma sf_Read_freely:
  assumes "reads_freely env rio d (g, fs)" and "2 * p + 1 \<le> fuel"
  obtains g' fs' where "sf_Read fuel env rio p (g, fs) = Some (expected_read d p (sf_offset g), g', fs')"
    and "reads_freely env rio d (g', fs')" and "sf_offset g' = sf_offset g + int (length (fst (expected_read d p (sf_offset g))))"
    and "sf_path g' = sf_path g"
proof -
  define r where "r = (case sf_chunked g of None \<Rightarrow> newChunkReader (sf_s3Key g) (fi_size (sf_info g)) (sf_etag g) | Some r \<Rightarrow> r)"
  have r: "buf_ok d r" "cr_s3Key r = sf_s3Key g" "cr_etag r = sf_etag g" "cr_size r = int (length d)"
    using assms(1) new_ok [of d] unfolding r_def reads_freely_def by (auto simp: buf_ok_def split: option.splits)
  have fs: "from_start (sf_offset g) r (fs_dataCache fs)"
    using assms(1) r(3,4) by (auto simp: from_start_def fills_cache_def uses_cache_def reads_freely_def)
  have c: "env_ok (file_renv env rio fs) (cr_s3Key r) d" "coherent (cr_s3Key r) (cr_etag r) d (fs_dataCache fs)" "0 \<le> sf_offset g"
    using assms(1) r by (simp_all add: reads_freely_def)
  obtain r' dco where a: "ReadAt fuel (file_renv env rio fs) p (sf_offset g) (r, fs_dataCache fs) = Some (expected_read d p (sf_offset g), r', dco)"
      "buf_ok d r'" "coherent (cr_s3Key r) (cr_etag r) d dco" "same_file r (fs_dataCache fs) r' dco"
    by (rule ReadAt_ok [OF c(1) r(1) c(2,3) fs assms(2)])
  obtain x e where x: "expected_read d p (sf_offset g) = (x, e)" by fastforce
  have "env_ok (file_renv env rio (fs\<lparr>fs_dataCache := dco\<rparr>)) (sf_s3Key g) d"
    using c(1) r(2) by (simp add: file_renv_def env_ok_def)
  with a r x c assms(1) show thesis
    by (intro that [of "g\<lparr>sf_chunked := Some r', sf_offset := sf_offset g + int (length x)\<rparr>" "fs\<lparr>fs_dataCache := dco\<rparr>"])
       (auto simp: sf_Read_def reads_freely_def r_def [symmetric] same_file_def)
qed

lemma sf_step_freely:
  assumes "reads_freely env rio d (g, fs)" and "fuel_for fuel x"
  shows "\<exists>y g' fs'. sf_step fuel env rio x (g, fs) = Some (y, g', fs') \<and> ro_step d (sf_path g) x (sf_offset g) = (y, sf_offset g') \<and>
    reads_freely env rio d (g', fs') \<and> sf_path g' = sf_path g"
proof (cases x)
  case (FRead n)
  then have n: "2 * n + 1 \<le> fuel" using assms(2) by simp
  obtain g' fs' where r: "sf_Read fuel env rio n (g, fs) = Some (expected_read d n (sf_offset g), g', fs')"
    "reads_freely env rio d (g', fs')" "sf_offset g' = sf_offset g + int (length (fst (expected_read d n (sf_offset g))))" "sf_path g' = sf_path g"
    by (rule sf_Read_freely [OF assms(1) n])
  with FRead show ?thesis by (cases "expected_read d n (sf_offset g)") simp
next
  case (FSeek off wh)
  obtain r g' where s: "sf_Seek off wh g = (r, g')" by fastforce
  from sf_Seek_freely [OF assms(1) s] s FSeek show ?thesis by simp
next
  case FTruncate
  with assms(1) show ?thesis by (simp add: sf_Truncate_def reads_freely_def)
qed (use assms(1) in \<open>simp add: sf_Write_def\<close>)

lemma sf_run_freely:
  assumes "reads_freely env rio d (g, fs)" and "list_all (fuel_for fuel) xs"
  shows "\<exists>st. sf_run fuel env rio xs (g, fs) = Some (fst (run_ops (ro_step d (sf_path g)) xs (sf_offset g)), st)"
  using assms
proof (induction xs arbitrary: g fs)
  case (Cons x xs)
  obtain y g' fs' where s: "sf_step fuel env rio x (g, fs) = Some (y, g', fs')" "ro_step d (sf_path g) x (sf_offset g) = (y, sf_offset g')"
    "reads_freely env rio d (g', fs')" "sf_path g' = sf_path g"
    using sf_step_freely [OF Cons.prems(1), of fuel x] Cons.prems(2) by auto
  obtain st where "sf_run fuel env rio xs (g', fs') = Some (fst (run_ops (ro_step d (sf_path g')) xs (sf_offset g')), st)"
    using Cons.IH [OF s(3)] Cons.prems(2) by auto
  with s show ?case by (simp add: case_prod_beta Let_def)
qed simp



end
