(* ===== verification/Limiter.thy ===== *)
theory Limiter
  imports GoTime
begin

text \<open>
  The token bucket of \<open>internal/ratelimit/limiter.go\<close>. \<open>time.Now\<close> is the argument \<open>now\<close>, in
  nanoseconds; \<open>Duration.Seconds\<close> and the token arithmetic are in \<open>float64\<close>, every operation
  rounded. The mutex makes each call of \<open>Allow\<close> one step.
\<close>

subsection \<open>The limiter\<close>

record Limiter =
  l_rate :: rat
  l_burst :: int
  l_tokens :: rat
  l_lastTime :: time
  l_disabled :: bool

definition NewLimiter :: "rat \<Rightarrow> int \<Rightarrow> time \<Rightarrow> Limiter" where
  "NewLimiter rate burst now =
     (if rate \<le> 0 then \<lparr>l_rate = 0, l_burst = 0, l_tokens = 0, l_lastTime = 0, l_disabled = True\<rparr>
      else \<lparr>l_rate = rate, l_burst = burst, l_tokens = f64 (of_int burst), l_lastTime = now, l_disabled = False\<rparr>)"

definition Allow :: "time \<Rightarrow> Limiter \<Rightarrow> bool \<times> Limiter" where
  "Allow now l =
     (if l_disabled l then (True, l)
      else
        let elapsed = Seconds (time_Sub now (l_lastTime l));
            tokens1 = f64 (l_tokens l + f64 (elapsed * l_rate l));
            tokens2 = (if tokens1 > f64 (of_int (l_burst l)) then f64 (of_int (l_burst l)) else tokens1);
            l' = l\<lparr>l_tokens := tokens2, l_lastTime := now\<rparr>
        in if tokens2 < 1 then (False, l') else (True, l'\<lparr>l_tokens := f64 (tokens2 - 1)\<rparr>))"

subsection \<open>One request\<close>

definition lim_inv :: "Limiter \<Rightarrow> bool" where
  "lim_inv l \<longleftrightarrow> \<not> l_disabled l \<and> 0 < l_rate l \<and> 0 \<le> l_burst l \<and> l_burst l < 2 ^ 53 \<and> 0 \<le> l_tokens l \<and> l_tokens l \<le> of_int (l_burst l)"

lemma NewLimiter_inv: "0 < rate \<Longrightarrow> 0 \<le> burst \<Longrightarrow> burst < 2 ^ 53 \<Longrightarrow> lim_inv (NewLimiter rate burst t)"
  by (simp add: lim_inv_def NewLimiter_def f64_int)

text \<open>
  A request takes a whole token when it is allowed; tokens come from the time elapsed, up to the
  rounding of the arithmetic, and never exceed the burst.
\<close>

lemma Allow_step:
  assumes "lim_inv l" and "l_lastTime l \<le> now" and "Allow now l = (b, l')"
  shows "lim_inv l'" and "l_rate l' = l_rate l" and "l_burst l' = l_burst l" and "l_lastTime l' = now"
    and "l_tokens l' + of_bool b \<le> l_tokens l + l_rate l * secs (now - l_lastTime l) * (1 + f64_eps) ^ 5 + 2 * f64_eps * of_int (l_burst l)"
    and "l_tokens l' + of_bool b \<le> of_int (l_burst l) * (1 + f64_eps)"
proof -
  let ?p = "1 + f64_eps" and ?B = "of_int (l_burst l) :: rat" and ?r = "l_rate l"
  let ?a = "f64 (Seconds (time_Sub now (l_lastTime l)) * ?r)" and ?d = "now - l_lastTime l"
  let ?x = "f64 (l_tokens l + ?a)"
  define y where "y = (if ?x > ?B then ?B else ?x)"
  have l: "\<not> l_disabled l" "0 < ?r" "0 \<le> ?B" "0 \<le> l_tokens l" "l_tokens l \<le> ?B" "f64 ?B = ?B"
    using assms(1) by (simp_all add: lim_inv_def f64_int)
  have l': "l' = l\<lparr>l_tokens := (if y < 1 then y else f64 (y - 1)), l_lastTime := now\<rparr>" "b \<longleftrightarrow> \<not> y < 1"
    using assms(3) l(1,6) by (auto simp: Allow_def Let_def y_def split: if_splits)
  note t = time_Sub_bounds [OF assms(2)]
  have "Seconds (time_Sub now (l_lastTime l)) \<le> secs ?d * ?p ^ 3"
    by (rule order_trans [OF Seconds_bounds(2)]) (use t in \<open>simp_all add: secs_mono mult_right_mono del: secs_simps\<close>)
  then have "Seconds (time_Sub now (l_lastTime l)) * ?r \<le> ?r * secs ?d * ?p ^ 3"
    using mult_right_mono [of _ _ ?r] l(2) by (simp add: mult.commute mult.left_commute less_imp_le)
  then have a: "0 \<le> ?a" "?a \<le> ?r * secs ?d * ?p ^ 3 * ?p"
    using t l(2) Seconds_bounds(1) [of "time_Sub now (l_lastTime l)"] by (simp_all add: f64_nonneg f64_mono_le)
  have x: "0 \<le> ?x" "?x \<le> (l_tokens l + ?r * secs ?d * ?p ^ 3 * ?p) * ?p"
    using a l(4) by (auto intro!: f64_nonneg f64_mono_le)
  have "l_tokens l * f64_eps \<le> f64_eps * ?B" using mult_right_mono [OF l(5), of f64_eps] by (simp add: mult.commute)
  moreover have "?r * secs ?d * ?p ^ 3 * ?p * ?p = ?r * secs ?d * ?p ^ 5" by (simp only: mult.assoc) (simp add: numeral_eq_Suc)
  moreover have "(l_tokens l + ?r * secs ?d * ?p ^ 3 * ?p) * ?p = l_tokens l + l_tokens l * f64_eps + ?r * secs ?d * ?p ^ 3 * ?p * ?p"
    by (subst distrib_right) (simp add: distrib_left [of "l_tokens l"] del: secs_simps)
  ultimately have x': "?x \<le> l_tokens l + ?r * secs ?d * ?p ^ 5 + f64_eps * ?B"
    using x(2) by linarith
  have y: "0 \<le> y" "y \<le> ?B" "y \<le> ?x" using x(1) l(3) by (simp_all add: y_def)
  have s: "0 \<le> f64 (y - 1) \<and> f64 (y - 1) \<le> y - 1 + f64_eps * ?B" if "\<not> y < 1"
  proof -
    have "f64 (y - 1) \<le> (y - 1) * ?p" "0 \<le> f64 (y - 1)" using that by (auto intro: f64_le f64_nonneg)
    moreover have "(y - 1) * f64_eps \<le> f64_eps * ?B" using mult_right_mono [of "y - 1" ?B f64_eps] y(2) by (simp add: mult.commute)
    moreover have "(y - 1) * ?p = y - 1 + (y - 1) * f64_eps" by (simp add: distrib_left)
    ultimately show ?thesis by linarith
  qed
  have small: "f64_eps * ?B \<le> 1"
  proof -
    have "?B \<le> of_int (2 ^ 53)" using assms(1) by (simp only: of_int_le_iff lim_inv_def less_imp_le)
    then show ?thesis by (simp add: f64_eps_def)
  qed
  have nn: "0 \<le> f64_eps * ?B" using l(3) by simp
  have tok: "0 \<le> l_tokens l'" "l_tokens l' \<le> ?B" "l_tokens l' + of_bool b \<le> y + f64_eps * ?B"
    using s y small nn unfolding l' by (cases "y < 1"; simp; linarith)+
  show "lim_inv l'" using assms(1) tok(1,2) by (simp add: lim_inv_def l'(1))
  show "l_rate l' = ?r" "l_burst l' = l_burst l" "l_lastTime l' = now" by (simp_all add: l'(1))
  show "l_tokens l' + of_bool b \<le> l_tokens l + ?r * secs ?d * ?p ^ 5 + 2 * f64_eps * ?B"
    using tok(3) y(3) x' by linarith
  have "?B * ?p = ?B + f64_eps * ?B" by (simp add: algebra_simps)
  then show "l_tokens l' + of_bool b \<le> ?B * ?p" using tok(3) y(2) by linarith
qed

subsection \<open>Sequences of requests\<close>

text \<open>The number of requests allowed.\<close>

definition granted :: "bool list \<Rightarrow> nat" where
  "granted bs = length (filter id bs)"

lemma granted_simps [simp]: "granted [] = 0" "granted (b # bs) = of_bool b + granted bs"
  by (simp_all add: granted_def)

lemma run_Allow_inv:
  assumes "lim_inv l" and "sorted (l_lastTime l # ts)" and "run_ops Allow ts l = (bs, l')"
  shows "lim_inv l' \<and> l_rate l' = l_rate l \<and> l_burst l' = l_burst l \<and> l_lastTime l' = last (l_lastTime l # ts) \<and> length bs = length ts"
  using assms
proof (induction ts arbitrary: l bs)
  case (Cons t ts)
  obtain b l1 where a: "Allow t l = (b, l1)" by fastforce
  with Cons.prems(3) obtain cs where r: "run_ops Allow ts l1 = (cs, l')" "bs = b # cs" by (auto split: prod.splits)
  note st = Allow_step [OF Cons.prems(1) _ a]
  from Cons.prems(2) have t: "l_lastTime l \<le> t" by simp
  show ?case using Cons.IH [OF st(1) [OF t] _ r(1)] Cons.prems(2) st(2-4) [OF t] r(2) by auto
qed simp

lemma run_Allow_tokens:
  assumes "lim_inv l" and "sorted (l_lastTime l # ts)" and "run_ops Allow ts l = (bs, l')"
  shows "l_tokens l' + of_nat (granted bs) \<le>
     l_tokens l + l_rate l * secs (last (l_lastTime l # ts) - l_lastTime l) * (1 + f64_eps) ^ 5 + of_nat (length ts) * (2 * f64_eps * of_int (l_burst l))"
  using assms
proof (induction ts arbitrary: l bs)
  case (Cons t ts)
  obtain b l1 where a: "Allow t l = (b, l1)" by fastforce
  with Cons.prems(3) obtain cs where r: "run_ops Allow ts l1 = (cs, l')" "bs = b # cs" by (auto split: prod.splits)
  from Cons.prems(2) have t: "l_lastTime l \<le> t" by simp
  note st = Allow_step [OF Cons.prems(1) t a]
  have "sorted (l_lastTime l1 # ts)" using Cons.prems(2) st(4) by simp
  from Cons.IH [OF st(1) this r(1)]
  have ih: "l_tokens l' + of_nat (granted cs) \<le> l_tokens l1 + l_rate l * secs (last (t # ts) - t) * (1 + f64_eps) ^ 5 +
      of_nat (length ts) * (2 * f64_eps * of_int (l_burst l))"
    by (simp only: st(2-4))
  have g: "of_nat (granted bs) = of_bool b + (of_nat (granted cs) :: rat)" by (simp add: r(2))
  have w: "l_rate l * secs (last (l_lastTime l # t # ts) - l_lastTime l) * (1 + f64_eps) ^ 5 =
      l_rate l * secs (t - l_lastTime l) * (1 + f64_eps) ^ 5 + l_rate l * secs (last (t # ts) - t) * (1 + f64_eps) ^ 5"
    by (simp add: left_diff_distrib right_diff_distrib)
  have n: "of_nat (length (t # ts)) * (2 * f64_eps * of_int (l_burst l)) =
      2 * f64_eps * of_int (l_burst l) + of_nat (length ts) * (2 * f64_eps * of_int (l_burst l))"
    by (simp add: distrib_right)
  show ?case using ih st(5) unfolding g w n by linarith
qed simp

text \<open>
  C23. The limiter enforces its rate: over any window of consecutive requests, however the
  requests before it went, the number allowed is at most the burst plus the rate times the
  seconds between the first and the last request of the window, up to the rounding of the
  \<open>float64\<close> arithmetic, which is at most a factor of \<open>(1 + 2\<^sup>-\<^sup>5\<^sup>3)\<^sup>5\<close> on the rate and
  \<open>2\<^sup>-\<^sup>5\<^sup>2\<close> of the burst for each request. A rate of zero or less allows everything.
\<close>
theorem limiter_window_bound:
  assumes "0 \<le> burst" and "burst < 2 ^ 53" and "sorted (t0 # before @ t # window)"
    and "run_ops Allow before (NewLimiter rate burst t0) = (bs, l)" and "run_ops Allow (t # window) l = (gs, l')"
  shows "if rate \<le> 0 then granted gs = length (t # window)
     else of_nat (granted gs) \<le> of_int burst + rate * secs (last (t # window) - t) * (1 + f64_eps) ^ 5 +
            of_nat (length gs) * (2 * f64_eps * of_int burst)"
proof (cases "rate \<le> 0")
  case True
  have all: "run_ops Allow ts m = (replicate (length ts) True, m)" if "l_disabled m" for ts m
    using that by (induction ts) (simp_all add: Allow_def)
  have "l_disabled (NewLimiter rate burst t0)" using True by (simp add: NewLimiter_def)
  with all [OF this, of before] assms(4) have "l_disabled l" by auto
  from all [OF this, of "t # window"] assms(5) True show ?thesis by (simp add: granted_def del: run_ops.simps)
next
  case False
  let ?l0 = "NewLimiter rate burst t0"
  from False have i: "lim_inv ?l0" "l_rate ?l0 = rate" "l_burst ?l0 = burst" "l_lastTime ?l0 = t0"
    using NewLimiter_inv [of rate burst t0] assms(1,2) by (simp_all add: NewLimiter_def)
  have l: "lim_inv l" "l_rate l = rate" "l_burst l = burst" "l_lastTime l = last (t0 # before)"
    using run_Allow_inv [OF i(1) _ assms(4)] assms(3) i by (simp_all add: sorted_append)
  have t: "l_lastTime l \<le> t" using assms(3) by (auto simp: l(4) sorted_append)
  obtain b l1 where a: "Allow t l = (b, l1)" by fastforce
  with assms(5) obtain cs where r: "run_ops Allow window l1 = (cs, l')" "gs = b # cs" by (auto split: prod.splits)
  note st = Allow_step [OF l(1) t a]
  have "sorted (l_lastTime l1 # window)" using assms(3) st(4) by (simp add: sorted_append)
  note w = run_Allow_tokens [OF st(1) this r(1)] and inv = run_Allow_inv [OF st(1) this r(1)]
  have "0 \<le> l_tokens l'" using inv by (simp add: lim_inv_def)
  moreover have "of_nat (granted gs) = of_bool b + (of_nat (granted cs) :: rat)" by (simp add: r(2))
  moreover have "of_int burst * (1 + f64_eps) = of_int burst + f64_eps * of_int burst" by (simp add: algebra_simps)
  moreover have "of_nat (length gs) * (2 * f64_eps * of_int burst) = 2 * f64_eps * of_int burst + of_nat (length window) * (2 * f64_eps * of_int burst)"
    using inv by (simp add: r(2) distrib_right)
  moreover have "0 \<le> f64_eps * of_int burst" using assms(1) by simp
  moreover note w [unfolded st(2-4) l(2,3)] st(6) [unfolded l(3)]
  ultimately have "of_nat (granted gs) \<le> of_int burst + rate * secs (last (t # window) - t) * (1 + f64_eps) ^ 5 +
      of_nat (length gs) * (2 * f64_eps * of_int burst)" by linarith
  with False show ?thesis by simp
qed

theorem limiter_window_bound_witness:
  "\<exists>gs l'. run_ops Allow [0, 0, 0] (NewLimiter 1 2 0) = (gs, l') \<and> gs = [True, True, False] \<and>
     of_nat (granted gs) \<le> 2 + 1 * secs (last [0, 0, 0] - 0) * (1 + f64_eps) ^ 5 + of_nat (length gs) * (2 * f64_eps * 2)"
proof -
  let ?r = "run_ops Allow [0, 0, 0] (NewLimiter 1 2 0)"
  have g: "fst ?r = [True, True, False]" by code_simp
  have r: "?r = (fst ?r, snd ?r)" by simp
  have "sorted (0 # [] @ 0 # [0, 0 :: time])" by simp
  from limiter_window_bound [OF _ _ this _ r, of 2 1 "[]"]
  have "of_nat (granted (fst ?r)) \<le> of_int 2 + 1 * secs (last [0, 0, 0] - 0) * (1 + f64_eps) ^ 5 + of_nat (length (fst ?r)) * (2 * f64_eps * of_int 2)"
    by (simp del: granted_simps)
  with g r show ?thesis by (metis of_int_numeral)
qed

end
