(* ===== verification/Metrics.thy ===== *)
theory Metrics
  imports GoTime
begin

text \<open>
  The metrics (\<open>internal/metrics/prometheus.go\<close>). The metric vectors belong to the Prometheus
  client library; what is modelled is their declaration and, for each recorder, the calls it
  makes on them. The library panics on a wrong number of label values and on a counter that
  would decrease, so the lemmas say when no recorder can panic, and that outcomes and durations
  are recorded in step.
\<close>

subsection \<open>Declarations\<close>

datatype kind = CounterVec | HistogramVec | Gauge

record metric =
  m_kind :: kind
  m_Name :: string
  m_labels :: "string list"

definition nfsOpsTotal :: metric where
  "nfsOpsTotal = \<lparr>m_kind = CounterVec, m_Name = ''s3gw_nfs_operations_total'', m_labels = [''operation'', ''status'']\<rparr>"

definition nfsOpDuration :: metric where
  "nfsOpDuration = \<lparr>m_kind = HistogramVec, m_Name = ''s3gw_nfs_operation_duration_seconds'', m_labels = [''operation'']\<rparr>"

definition s3RequestsTotal :: metric where
  "s3RequestsTotal = \<lparr>m_kind = CounterVec, m_Name = ''s3gw_s3_requests_total'', m_labels = [''method'', ''status'']\<rparr>"

definition s3RequestDuration :: metric where
  "s3RequestDuration = \<lparr>m_kind = HistogramVec, m_Name = ''s3gw_s3_request_duration_seconds'', m_labels = [''method'']\<rparr>"

definition cacheHitsTotal :: metric where
  "cacheHitsTotal = \<lparr>m_kind = CounterVec, m_Name = ''s3gw_cache_hits_total'', m_labels = [''cache_type'']\<rparr>"

definition cacheMissesTotal :: metric where
  "cacheMissesTotal = \<lparr>m_kind = CounterVec, m_Name = ''s3gw_cache_misses_total'', m_labels = [''cache_type'']\<rparr>"

definition activeConnections :: metric where
  "activeConnections = \<lparr>m_kind = Gauge, m_Name = ''s3gw_active_connections'', m_labels = []\<rparr>"

definition bytesTransferredTotal :: metric where
  "bytesTransferredTotal = \<lparr>m_kind = CounterVec, m_Name = ''s3gw_bytes_transferred_total'', m_labels = [''direction'']\<rparr>"

lemmas metric_defs = nfsOpsTotal_def nfsOpDuration_def s3RequestsTotal_def s3RequestDuration_def cacheHitsTotal_def
  cacheMissesTotal_def activeConnections_def bytesTransferredTotal_def

subsection \<open>Recorders\<close>

text \<open>A call on a metric with its label values: \<open>Inc\<close>, \<open>Dec\<close>, \<open>Add\<close> or \<open>Observe\<close>.\<close>

datatype metric_call =
    MInc metric "string list"
  | MDec metric "string list"
  | MAdd metric "string list" rat
  | MObserve metric "string list" rat

definition op_status :: "err option \<Rightarrow> string" where
  "op_status err = (if err = None then ''success'' else ''error'')"

datatype record_op =
    RecordNFSOp string time "err option"
  | RecordS3Request string time "err option"
  | RecordCacheHit string
  | RecordCacheMiss string
  | RecordBytesTransferred string int
  | IncrConnections
  | DecrConnections

fun record_calls :: "record_op \<Rightarrow> metric_call list" where
  "record_calls (RecordNFSOp operation duration err) =
     [MInc nfsOpsTotal [operation, op_status err], MObserve nfsOpDuration [operation] (Seconds duration)]"
| "record_calls (RecordS3Request meth duration err) =
     [MInc s3RequestsTotal [meth, op_status err], MObserve s3RequestDuration [meth] (Seconds duration)]"
| "record_calls (RecordCacheHit cacheType) = [MInc cacheHitsTotal [cacheType]]"
| "record_calls (RecordCacheMiss cacheType) = [MInc cacheMissesTotal [cacheType]]"
| "record_calls (RecordBytesTransferred direction n) = [MAdd bytesTransferredTotal [direction] (f64 (of_int n))]"
| "record_calls IncrConnections = [MInc activeConnections []]"
| "record_calls DecrConnections = [MDec activeConnections []]"

subsection \<open>Properties\<close>

text \<open>
  What client_golang documents: a call panics unless it has a value for every label, and a
  counter is never decreased or increased by a negative value.
\<close>

fun prom_accepts :: "metric_call \<Rightarrow> bool" where
  "prom_accepts (MInc m vs) = (length vs = length (m_labels m) \<and> m_kind m \<in> {CounterVec, Gauge})"
| "prom_accepts (MDec m vs) = (length vs = length (m_labels m) \<and> m_kind m = Gauge)"
| "prom_accepts (MAdd m vs x) = (length vs = length (m_labels m) \<and> (m_kind m = CounterVec \<and> 0 \<le> x \<or> m_kind m = Gauge))"
| "prom_accepts (MObserve m vs x) = (length vs = length (m_labels m) \<and> m_kind m = HistogramVec)"

text \<open>How often a counter was increased and a histogram observed, for one operation or method.\<close>

fun outcomes_of :: "metric \<Rightarrow> string \<Rightarrow> metric_call list \<Rightarrow> nat" where
  "outcomes_of m op [] = 0"
| "outcomes_of m op (MInc m' (op' # _) # cs) = (if m' = m \<and> op' = op then 1 else 0) + outcomes_of m op cs"
| "outcomes_of m op (_ # cs) = outcomes_of m op cs"

fun durations_of :: "metric \<Rightarrow> string \<Rightarrow> metric_call list \<Rightarrow> nat" where
  "durations_of m op [] = 0"
| "durations_of m op (MObserve m' vs x # cs) = (if m' = m \<and> vs = [op] then 1 else 0) + durations_of m op cs"
| "durations_of m op (_ # cs) = durations_of m op cs"

lemma outcomes_of_append [simp]: "outcomes_of m op (xs @ ys) = outcomes_of m op xs + outcomes_of m op ys"
  by (induction m op xs rule: outcomes_of.induct) simp_all

lemma durations_of_append [simp]: "durations_of m op (xs @ ys) = durations_of m op xs + durations_of m op ys"
  by (induction m op xs rule: durations_of.induct) simp_all

lemma record_accepted:
  "list_all prom_accepts (record_calls r) \<longleftrightarrow> (\<forall>d n. r = RecordBytesTransferred d n \<longrightarrow> 0 \<le> n)"
  by (cases r) (auto simp: metric_defs f64_sign)

lemma record_in_step:
  "outcomes_of nfsOpsTotal op (record_calls r) = durations_of nfsOpDuration op (record_calls r)"
  "outcomes_of s3RequestsTotal op (record_calls r) = durations_of s3RequestDuration op (record_calls r)"
  by (cases r; simp add: metric_defs)+

text \<open>
  Recording never panics while no negative number of bytes is reported, and a negative one
  always does; whatever was recorded, each NFS operation and each S3 method has as many counted
  outcomes as observed durations.
\<close>
theorem metrics_recorded:
  "(list_all prom_accepts (concat (map record_calls rs)) \<longleftrightarrow> (\<forall>d n. RecordBytesTransferred d n \<in> set rs \<longrightarrow> 0 \<le> n)) \<and>
   outcomes_of nfsOpsTotal op (concat (map record_calls rs)) = durations_of nfsOpDuration op (concat (map record_calls rs)) \<and>
   outcomes_of s3RequestsTotal op (concat (map record_calls rs)) = durations_of s3RequestDuration op (concat (map record_calls rs))"
  by (induction rs) (auto simp: record_accepted record_in_step)

theorem metrics_recorded_witness:
  "list_all prom_accepts (concat (map record_calls [RecordNFSOp ''READ'' 5 None, RecordBytesTransferred ''read'' 7])) \<and>
   outcomes_of nfsOpsTotal ''READ'' (concat (map record_calls [RecordNFSOp ''READ'' 5 None, RecordBytesTransferred ''read'' 7])) = 1"
  using metrics_recorded [of "[RecordNFSOp ''READ'' 5 None, RecordBytesTransferred ''read'' 7]" "''READ''"] by simp

end
