(* ===== verification/Spec2Isabelle.thy ===== *)
theory Spec2Isabelle
  imports Gateway FsReads Limiter Metrics
begin

text \<open>
  A verification library of the S3 filesystem gateway, a Go program that serves an S3 bucket to
  NFSv4 clients. All paths below are relative to the source tree.

  \<^bold>\<open>The program.\<close> An NFS request reaches libnfs-go, which calls one operation of \<open>S3FS\<close>
  (\<open>internal/s3fs\<close>). The operation turns the path into an object key, looks in the metadata cache
  (\<open>internal/cache/metadata.go\<close>), asks the bucket through the client (\<open>internal/s3\<close>), takes inode
  numbers from the handle store (\<open>handle.go\<close>, persisted in bbolt), and updates or invalidates the
  caches. Contents are read in chunks through the reader (\<open>reader.go\<close>) and the disk cache
  (\<open>internal/cache/data.go\<close>), and written through a temporary file that is uploaded on close
  (\<open>file.go\<close>). \<open>cmd/s3nfsgw/main.go\<close> loads the configuration (\<open>internal/config\<close>), connects, opens
  the handle store, starts the health server (\<open>internal/health\<close>) and the NFS server
  (\<open>internal/nfs\<close>), and waits. A rate limiter and metrics exist beside them.

  \<^bold>\<open>Conventions.\<close> A struct is a record and a method a function that takes and returns it; an error
  is a value of the datatype \<open>err\<close>, a result is \<open>err + 'a\<close>, and a panic is the error \<open>Panic\<close>.
  Strings and byte slices are \<open>string\<close>. Integers that are only compared and added are \<open>int\<close>, and
  widths that matter are words: inode numbers are 64-bit and modes 32-bit words. Times are integers
  of nanoseconds, and \<open>time.Sub\<close> saturates as in Go. \<open>float64\<close> is a rational rounded to 53 bits
  after every operation. What comes from outside is an argument: the clock, the order in which a map
  is ranged over, the failures of system calls and of the network. Code that is not part of the
  repository is a record of the calls that are made, with a predicate for its documented behaviour:
  \<open>bolt\<close> and \<open>bolt_ok\<close> for bbolt, \<open>minio\<close> and \<open>minio_ok\<close> for minio-go, \<open>libauth\<close> and the server
  inputs for libnfs-go, \<open>prom_accepts\<close> for the Prometheus client. In-memory instances of them show that
  the hypotheses can hold and serve as examples.

  \<^bold>\<open>The theories\<close>, in the order of their imports:

  \<^item> \<open>Prelude\<close>: types, errors, collections of rewrite rules, and the interfaces \<open>codec\<close> and \<open>machine\<close>.
  \<^item> \<open>GoStrings\<close>, \<open>Sha256\<close>, \<open>Encoding\<close>, \<open>GoFloat\<close>, \<open>GoTime\<close>, \<open>GoList\<close>: the parts of Go's library the code
    computes with: strings, paths and numbers, the hash, hexadecimal and base64, floating point,
    durations, and linked lists with the index both caches keep beside them.
  \<^item> \<open>Paths\<close>: paths and keys. Every path gives a canonical key.
  \<^item> \<open>HandleStore\<close>: inode numbers and handles. No number is ever issued twice, across restarts; a restart
    restores the table. It provides the interface \<open>handle_table\<close>.
  \<^item> \<open>CacheSpec\<close>: what a cache promises, the interface \<open>lossy_cache\<close>, which extends \<open>machine\<close>.
  \<^item> \<open>MetaCache\<close>: the metadata cache. It refines a bounded LRU list and never returns what was not stored
    or has expired.
  \<^item> \<open>DataCache\<close>: the disk cache. Its accounting is exact under failing system calls, and what it returns is
    what was stored.
  \<^item> \<open>S3Store\<close>: the bucket interface, the client over minio-go, backend detection. The client provides
    \<open>object_store\<close>.
  \<^item> \<open>Attrs\<close>: attributes, symlink markers, and their conversions to and from cache entries.
  \<^item> \<open>ChunkReader\<close>: reads are exact; and the cases where a cached tail makes them wrong or endless.
  \<^item> \<open>FsState\<close>, \<open>Files\<close>, \<open>FileSystem\<close>, \<open>Xattr\<close>: the state of the filesystem and its access to the caches, open
    files, operations, extended attributes. Renames lose no data, a writable file behaves as a local one,
    handles lead back to their path, attributes of a file form a map.
  \<^item> \<open>FsCoherence\<close>: sessions of successful operations: \<open>Stat\<close> agrees with the bucket, and what was written is
    what is read.
  \<^item> \<open>FsReads\<close>: a listing shows exactly the entries of the bucket, and a file opened for reading is a read-only
    view of its object.
  \<^item> \<open>FsInvariant\<close>: histories of operations that may fail: the invariants of all parts survive.
  \<^item> \<open>Limiter\<close>, \<open>Metrics\<close>, \<open>Config\<close>, \<open>Health\<close>: the remaining packages.
  \<^item> \<open>Gateway\<close>: the NFS server and \<open>main\<close>: start-up, and the life of the process as a step relation over
    operations of all sessions, changes to the bucket by others, evictions, failures and signals.

  \<^bold>\<open>How the parts are connected.\<close> Each interface is a locale that is interpreted on the model of the part
  that provides it, and the lemmas of its clients rest on the interpretation: \<open>hs\<close>, \<open>entries\<close>, \<open>listings\<close>,
  \<open>contents\<close>, \<open>store\<close>, \<open>client\<close>, \<open>octal_mode\<close>, \<open>hex\<close>, \<open>base64\<close>, and the machines \<open>hs_run\<close> and \<open>fs_history\<close>. The
  invariants are \<open>hs_inv\<close>, \<open>mc_inv\<close>, \<open>dc_inv\<close> with \<open>dc_bounded\<close>, \<open>fs_inv\<close> over them, \<open>fs_safe\<close> with the configuration of
  the caches, and \<open>main_inv\<close> for the process.

  \<^bold>\<open>Atomicity.\<close> A method that holds a mutex for its whole body is one step. \<open>DataCache.Get\<close> has two critical
  sections and is two steps, which matters for one theorem. An operation of the filesystem is one step that
  reads the clock once; interleavings inside an operation are not covered.

  \<^bold>\<open>Loops and fuel.\<close> All loops are recursions that terminate, with one exception: the loop of
  \<open>chunkReader.ReadAt\<close> need not terminate, so it has fuel, and \<open>None\<close> stands for a loop that has not ended.
  For a coherent cache \<open>2 * p + 1\<close> rounds are enough for a buffer of \<open>p\<close> bytes, since every second round copies
  at least one byte; \<open>poisoned_read_never_returns\<close> shows that otherwise no fuel may be enough.

  \<^bold>\<open>Restrictions.\<close> A key that consists of a single zero byte is the name under which the handle store keeps
  the root, and is excluded (\<open>boltable\<close>). \<open>float64\<close> has no infinities and no subnormal numbers, which no computation
  of the program reaches. Case folding is that of ASCII. Error texts are modelled where the code composes
  them, and those of Go's library are not.

  \<^bold>\<open>Not modelled.\<close> The NFS protocol, which is libnfs-go; bbolt, minio-go and the Prometheus client beyond the
  behaviour stated of them; the timeouts and connection pool of the HTTP transport; log lines; the parsing
  of command-line flags; the credentials that \<open>SetCreds\<close> stores and nothing reads; accessors that return a field
  (\<open>Name\<close>, \<open>S3Client\<close>, \<open>Handles\<close>); closing the database when the process ends; container images, charts and
  scripts.
\<close>

end
